(* ===== verification/Prelude.thy ===== *)
theory Prelude
  imports Main "HOL-Library.Word"
begin

text \<open>
  Shared vocabulary of the development: bytes, the Boost error codes the sources name, the
  faults a C++ statement can end in, sequencing of statements that may fault, and the
  generic lemmas about them that the component theories use.

  A statement or a void method is a function \<open>'w \<Rightarrow> fault + 'w\<close> on the state \<open>'w\<close>;
  \<open>Inl\<close> is the fault that stops the program. Asserts are modelled as they behave in a
  build with assertions enabled: a failed one is the fault \<open>AssertFailed\<close>.
\<close>

named_theorems keeps_intros \<open>rules that establish that a statement keeps a relation\<close>
named_theorems inv_simps \<open>unfolding rules for the invariants of the components\<close>

type_synonym byte = "8 word"

text \<open>The error codes of \<open>boost::asio::error\<close> that the sources test or produce.\<close>

datatype error_code =
    no_error
  | bad_descriptor
  | operation_aborted
  | connection_reset
  | connection_aborted
  | would_block
  | already_open
  | other_error nat

datatype fault =
    AssertFailed string       \<comment> \<open>a failed \<open>assert\<close>\<close>
  | NullPointer string        \<comment> \<open>a dereferenced null pointer\<close>
  | BadFunctionCall           \<comment> \<open>an empty \<open>std::function\<close> was called\<close>
  | OutOfBounds               \<comment> \<open>a read past the end of an object\<close>
  | DanglingIterator          \<comment> \<open>a vector was reallocated while it was iterated over\<close>
  | Uninitialized             \<comment> \<open>a read of an indeterminate byte\<close>
  | BadAddressCast            \<comment> \<open>\<open>address::to_v4\<close> or \<open>to_v6\<close> of the other family\<close>
  | SystemError error_code    \<comment> \<open>a thrown \<open>boost::system::system_error\<close>\<close>
  | StdException string       \<comment> \<open>a thrown exception of the standard library\<close>
  | NestingExceeded           \<comment> \<open>the nesting bound of the model ran out\<close>
  | AddressInUse              \<comment> \<open>not a run: a new object would be placed on one in use\<close>

type_synonym 'a result = "fault + 'a"


section \<open>Sequencing statements that may fault\<close>

fun and_then :: "'e + 'a \<Rightarrow> ('a \<Rightarrow> 'e + 'b) \<Rightarrow> 'e + 'b" where
  "and_then (Inl e) f = Inl e"
| "and_then (Inr x) f = f x"

primrec steps :: "('w \<Rightarrow> 'e + 'w) list \<Rightarrow> 'w \<Rightarrow> 'e + 'w" where
  "steps [] w = Inr w"
| "steps (f # fs) w = and_then (f w) (steps fs)"

definition assert_that :: "string \<Rightarrow> ('w \<Rightarrow> bool) \<Rightarrow> 'w \<Rightarrow> 'w result" where
  "assert_that msg b w = (if b w then Inr w else Inl (AssertFailed msg))"

definition guarded :: "('w \<Rightarrow> bool) \<Rightarrow> ('w \<Rightarrow> 'e + 'w) \<Rightarrow> 'w \<Rightarrow> 'e + 'w" where
  "guarded b f w = (if b w then f w else Inr w)"

text \<open>
  A new object is placed on storage that is not in use; the number of a new object is an
  argument of the operation that creates it, and a choice that is in use is not a run.
\<close>

definition on_unused :: "('w \<Rightarrow> bool) \<Rightarrow> ('w \<Rightarrow> 'w result) \<Rightarrow> 'w \<Rightarrow> 'w result" where
  "on_unused b f w = (if b w then f w else Inl AddressInUse)"

lemma and_then_Inr_iff:
  "and_then m f = Inr y \<longleftrightarrow> (\<exists>x. m = Inr x \<and> f x = Inr y)"
  by (cases m) auto

lemma and_then_InrE [elim]:
  assumes "and_then m f = Inr y"
  obtains x where "m = Inr x" "f x = Inr y"
  using assms by (cases m) auto

lemma and_then_Inl_iff:
  "and_then m f = Inl e \<longleftrightarrow> m = Inl e \<or> (\<exists>x. m = Inr x \<and> f x = Inl e)"
  by (cases m) auto

lemma and_then_assoc [simp]:
  "and_then (and_then m f) g = and_then m (\<lambda>x. and_then (f x) g)"
  by (cases m) auto

lemma and_then_Inr_right [simp]: "and_then m Inr = m"
  by (cases m) auto

lemma and_then_cong [fundef_cong]:
  "m = m' \<Longrightarrow> (\<And>x. m' = Inr x \<Longrightarrow> f x = g x) \<Longrightarrow> and_then m f = and_then m' g"
  by (cases m') auto

lemma steps_append: "steps (fs @ gs) w = and_then (steps fs w) (steps gs)"
proof (induction fs arbitrary: w)
  case (Cons f fs)
  then show ?case by (cases "f w") auto
qed simp

lemma steps_Nil_fun [simp]: "steps [] = Inr"
  by (rule ext) simp

lemma steps_snoc: "steps (fs @ [f]) = (\<lambda>w. and_then (steps fs w) f)"
proof
  have "steps [f] = f" by (rule ext) simp
  then show "steps (fs @ [f]) w = and_then (steps fs w) f" for w by (simp add: steps_append del: steps.simps)
qed

lemma steps_single: "steps [f] = f"
  by (rule ext) simp

lemma steps_flatten: "steps (fs @ [steps gs]) = steps (fs @ gs)"
proof
  show "steps (fs @ [steps gs]) w = steps (fs @ gs) w" for w
    by (cases "steps fs w") (simp_all add: steps_append)
qed

lemma assert_that_Inr [simp]: "assert_that msg b w = Inr w' \<longleftrightarrow> b w \<and> w' = w"
  by (auto simp: assert_that_def)

lemma on_unused_Inr [simp]: "on_unused b f w = Inr w' \<longleftrightarrow> b w \<and> f w = Inr w'"
  by (simp add: on_unused_def)

lemma guarded_True [simp]: "b w \<Longrightarrow> guarded b f w = f w"
  and guarded_False [simp]: "\<not> b w \<Longrightarrow> guarded b f w = Inr w"
  by (simp_all add: guarded_def)


section \<open>Statements that keep a relation between the state before and after\<close>

definition keeps :: "('w \<Rightarrow> 'w \<Rightarrow> bool) \<Rightarrow> ('w \<Rightarrow> 'e + 'w) \<Rightarrow> bool" where
  "keeps R f \<longleftrightarrow> (\<forall>w w'. f w = Inr w' \<longrightarrow> R w w')"

definition keeps_val :: "('w \<Rightarrow> 'w \<Rightarrow> bool) \<Rightarrow> ('w \<Rightarrow> 'e + ('r \<times> 'w)) \<Rightarrow> bool" where
  "keeps_val R f \<longleftrightarrow> (\<forall>w r w'. f w = Inr (r, w') \<longrightarrow> R w w')"

lemma keepsI: "(\<And>w w'. f w = Inr w' \<Longrightarrow> R w w') \<Longrightarrow> keeps R f"
  by (simp add: keeps_def)

lemma keepsD: "keeps R f \<Longrightarrow> f w = Inr w' \<Longrightarrow> R w w'"
  by (simp add: keeps_def)

lemma keeps_valI: "(\<And>w r w'. f w = Inr (r, w') \<Longrightarrow> R w w') \<Longrightarrow> keeps_val R f"
  by (simp add: keeps_val_def)

lemma keeps_valD: "keeps_val R f \<Longrightarrow> f w = Inr (r, w') \<Longrightarrow> R w w'"
  by (simp add: keeps_val_def)

text \<open>A relation kept by statements that is reflexive and transitive composes along code.\<close>

locale kept_relation =
  fixes R :: "'w \<Rightarrow> 'w \<Rightarrow> bool"
  assumes kept_refl: "R w w"
    and kept_trans: "R w w' \<Longrightarrow> R w' w'' \<Longrightarrow> R w w''"
begin

lemma keeps_Inr [keeps_intros]: "keeps R Inr"
  by (rule keepsI) (simp add: kept_refl)

lemma keeps_Inl [keeps_intros]: "keeps R (\<lambda>w. Inl (e w))"
  by (rule keepsI) simp

lemma keeps_and_then [keeps_intros]:
  assumes "keeps R f" and "keeps R g"
  shows "keeps R (\<lambda>w. and_then (f w) g)"
proof (rule keepsI)
  fix w w''
  assume "and_then (f w) g = Inr w''"
  then obtain w' where "f w = Inr w'" "g w' = Inr w''" ..
  with assms show "R w w''" by (meson keepsD kept_trans)
qed

lemma keeps_and_then_val [keeps_intros]:
  assumes "keeps_val R f" and "\<And>r. keeps R (g r)"
  shows "keeps R (\<lambda>w. and_then (f w) (\<lambda>(r, w). g r w))"
proof (rule keepsI)
  fix w w''
  assume "and_then (f w) (\<lambda>(r, w). g r w) = Inr w''"
  then obtain r w' where "f w = Inr (r, w')" "g r w' = Inr w''" by auto
  with assms show "R w w''" by (meson keepsD keeps_valD kept_trans)
qed

lemma keeps_steps [keeps_intros]:
  "list_all (keeps R) fs \<Longrightarrow> keeps R (steps fs)"
proof (induction fs)
  case Nil
  then show ?case using keeps_Inr by (simp add: keeps_def)
next
  case (Cons f fs)
  then have "keeps R (\<lambda>w. and_then (f w) (steps fs))" by (intro keeps_and_then) simp_all
  then show ?case by (simp add: keeps_def)
qed

lemma keeps_assert_that [keeps_intros]: "keeps R (assert_that msg b)"
  by (rule keepsI) (simp add: kept_refl)

lemma keeps_guarded [keeps_intros]: "keeps R f \<Longrightarrow> keeps R (guarded b f)"
  by (rule keepsI) (auto simp: guarded_def kept_refl dest: keepsD split: if_splits)

lemma keeps_if [keeps_intros]:
  "keeps R f \<Longrightarrow> keeps R g \<Longrightarrow> keeps R (\<lambda>w. if b w then f w else g w)"
  by (rule keepsI) (auto dest: keepsD split: if_splits)

lemma keeps_update: "(\<And>w. R w (f w)) \<Longrightarrow> keeps R (\<lambda>w. Inr (f w))"
  by (rule keepsI) auto

lemma keeps_after_update: "(\<And>w. R w (f w)) \<Longrightarrow> keeps R g \<Longrightarrow> keeps R (\<lambda>w. g (f w))"
  by (rule keepsI) (rule kept_trans, blast, erule (1) keepsD)

lemma keeps_case_option [keeps_intros]:
  "keeps R f \<Longrightarrow> (\<And>x. keeps R (g x)) \<Longrightarrow> keeps R (\<lambda>w. case v w of None \<Rightarrow> f w | Some x \<Rightarrow> g x w)"
  by (rule keepsI) (auto dest: keepsD split: option.splits)

lemma keeps_case_list [keeps_intros]:
  "keeps R f \<Longrightarrow> (\<And>x xs. keeps R (g x xs)) \<Longrightarrow>
     keeps R (\<lambda>w. case v w of [] \<Rightarrow> f w | x # xs \<Rightarrow> g x xs w)"
  by (rule keepsI) (auto dest: keepsD split: list.splits)

lemma keeps_and_then_pure [keeps_intros]:
  "(\<And>x. keeps R (g x)) \<Longrightarrow> keeps R (\<lambda>w. and_then v (\<lambda>x. g x w))"
  by (cases v) (simp_all add: keeps_def)

lemma keeps_arg: "(\<And>x. keeps R (g x)) \<Longrightarrow> keeps R (\<lambda>w. g (v w) w)"
  by (rule keepsI) (auto dest: keepsD)

lemma keeps_val_return: "keeps R f \<Longrightarrow> keeps_val R (\<lambda>w. and_then (f w) (\<lambda>w. Inr (r, w)))"
  by (rule keeps_valI) (auto dest: keepsD)

end

end
