(* ===== verification/Ids.thy ===== *)
theory Ids
  imports Prelude
begin

text \<open>
  Identifiers of multiplexers and sockets, from \<open>src/src/id.hpp\<close> and \<open>src/src/id.cpp\<close>.
  They are 32-bit counters and wrap around. The copies of a \<open>MultiplexerId\<close> share one
  counter through a \<open>shared_ptr\<close>: the record \<open>id_state\<close> holds the shared counters by
  address, next to the global \<open>next_multiplexer_id\<close>.
\<close>

section \<open>Identifiers\<close>

record SocketId =
  sid_value :: "32 word"
  sid_multiplexer_id :: "32 word"

record MultiplexerId =
  mid_value :: "32 word"
  next_socket_id :: nat    \<comment> \<open>the address of the shared counter\<close>

record id_state =
  next_multiplexer_id :: "32 word"
  counters :: "nat \<Rightarrow> 32 word"
  next_address :: nat

definition initial_ids :: id_state where
  "initial_ids = \<lparr>next_multiplexer_id = 0, counters = (\<lambda>_. 0), next_address = 0\<rparr>"

definition new_MultiplexerId :: "id_state \<Rightarrow> MultiplexerId \<times> id_state" where
  "new_MultiplexerId st =
     (\<lparr>mid_value = next_multiplexer_id st, next_socket_id = next_address st\<rparr>,
      st\<lparr>next_multiplexer_id := next_multiplexer_id st + 1,
         counters := (counters st)(next_address st := 0),
         next_address := Suc (next_address st)\<rparr>)"

definition generate_socket_id :: "MultiplexerId \<Rightarrow> id_state \<Rightarrow> SocketId \<times> id_state" where
  "generate_socket_id m st =
     (\<lparr>sid_value = counters st (next_socket_id m), sid_multiplexer_id = mid_value m\<rparr>,
      st\<lparr>counters := (counters st)(next_socket_id m := counters st (next_socket_id m) + 1)\<rparr>)"

text \<open>Repeated generation, by whatever copies of the same multiplexer id.\<close>

fun generate_many :: "nat \<Rightarrow> MultiplexerId \<Rightarrow> id_state \<Rightarrow> SocketId list" where
  "generate_many 0 m st = []"
| "generate_many (Suc n) m st =
     (case generate_socket_id m st of (i, st') \<Rightarrow> i # generate_many n m st')"

fun new_many :: "nat \<Rightarrow> id_state \<Rightarrow> MultiplexerId list" where
  "new_many 0 st = []"
| "new_many (Suc n) st = (case new_MultiplexerId st of (i, st') \<Rightarrow> i # new_many n st')"

text \<open>\<open>operator<<\<close> of the two ids: decimal numbers in fixed punctuation.\<close>

fun decimal :: "nat \<Rightarrow> string" where
  "decimal n =
     (if n < 10 then [char_of (48 + n)] else decimal (n div 10) @ [char_of (48 + n mod 10)])"

declare decimal.simps [simp del]

definition show_SocketId :: "SocketId \<Rightarrow> string" where
  "show_SocketId i =
     ''m('' @ decimal (unat (sid_multiplexer_id i)) @ '')/s('' @ decimal (unat (sid_value i)) @ '')''"

definition show_MultiplexerId :: "MultiplexerId \<Rightarrow> string" where
  "show_MultiplexerId i = ''m('' @ decimal (unat (mid_value i)) @ '')''"


section \<open>Lemmas\<close>

lemma generate_many_nth:
  "i < n \<Longrightarrow> generate_many n m st ! i
     = \<lparr>sid_value = counters st (next_socket_id m) + of_nat i, sid_multiplexer_id = mid_value m\<rparr>"
proof (induction n arbitrary: i st)
  case (Suc n)
  then show ?case
    by (cases i) (simp_all add: generate_socket_id_def algebra_simps)
qed simp

lemma length_generate_many [simp]: "length (generate_many n m st) = n"
  by (induction n arbitrary: st) (simp_all add: generate_socket_id_def)

lemma new_many_nth:
  "i < n \<Longrightarrow> mid_value (new_many n st ! i) = next_multiplexer_id st + of_nat i
     \<and> next_socket_id (new_many n st ! i) = next_address st + i"
proof (induction n arbitrary: i st)
  case (Suc n)
  then show ?case
    by (cases i) (simp_all add: new_MultiplexerId_def algebra_simps)
qed simp

lemma length_new_many [simp]: "length (new_many n st) = n"
  by (induction n arbitrary: st) (simp_all add: new_MultiplexerId_def)

lemma of_nat_word_inj:
  assumes "i < 2 ^ LENGTH('a)" and "j < 2 ^ LENGTH('a)"
    and "(of_nat i :: 'a::len word) = of_nat j"
  shows "i = j"
  using assms by (simp add: word_of_nat_eq_iff take_bit_nat_eq_self)

lemma decimal_nonempty: "decimal n \<noteq> []"
  by (subst decimal.simps) simp

lemma decimal_digits: "c \<in> set (decimal n) \<Longrightarrow> c \<in> char_of ` {48..<58 :: nat}"
proof (induction n rule: decimal.induct)
  case (1 n)
  then show ?case
    by (subst (asm) decimal.simps) (auto split: if_splits)
qed

lemma decimal_value:
  "foldl (\<lambda>a c. 10 * a + (of_char c - 48)) 0 (decimal n) = (n :: nat)"
proof (induction n rule: decimal.induct)
  case (1 n)
  show ?case
  proof (cases "n < 10")
    case True
    then show ?thesis by (subst decimal.simps) simp
  next
    case False
    with 1 show ?thesis by (subst decimal.simps) simp
  qed
qed

lemma decimal_inj: "decimal m = decimal n \<longleftrightarrow> m = n"
  by (metis decimal_value)

lemma decimal_no_paren: "CHR '')'' \<notin> set (decimal n)"
proof
  assume "CHR '')'' \<in> set (decimal n)"
  then obtain k :: nat where "48 \<le> k" "k < 58" "CHR '')'' = char_of k"
    using decimal_digits by fastforce
  then have "of_char (CHR '')'') = k mod 256" by simp
  with \<open>48 \<le> k\<close> \<open>k < 58\<close> show False by simp
qed

lemma decimal_then_paren:
  assumes "decimal m @ CHR '')'' # xs = decimal n @ CHR '')'' # ys"
  shows "m = n \<and> xs = ys"
proof -
  have "takeWhile (\<lambda>c. c \<noteq> CHR '')'') (decimal k @ CHR '')'' # zs) = decimal k" for k zs
    using decimal_no_paren [of k] by (subst takeWhile_append2) auto
  with assms have "decimal m = decimal n" by metis
  with assms show ?thesis by (simp add: decimal_inj)
qed


section \<open>Properties\<close>

text \<open>
  Two of the socket ids generated from one multiplexer id are equal exactly when the
  number of ids generated between them is a multiple of \<open>2 ^ 32\<close>: ids are unique until the
  32-bit counter wraps around.
\<close>

lemma socket_id_repeats_after_wrap:
  assumes "i < n" and "j < n"
  shows "generate_many n m st ! i = generate_many n m st ! j \<longleftrightarrow> i mod 2 ^ 32 = j mod 2 ^ 32"
  using assms by (simp add: generate_many_nth word_of_nat_eq_iff take_bit_eq_mod)


text \<open>
  The printed form of a socket id determines the id: \<open>operator<<\<close> prints two different ids
  differently.
\<close>

lemma show_SocketId_injective: "show_SocketId i = show_SocketId j \<longleftrightarrow> i = j"
proof
  assume "show_SocketId i = show_SocketId j"
  then have "unat (sid_multiplexer_id i) = unat (sid_multiplexer_id j) \<and> unat (sid_value i) = unat (sid_value j)"
    by (auto simp: show_SocketId_def decimal_inj dest!: decimal_then_paren)
  then show "i = j" by (simp add: word_unat_eq_iff)
qed simp

end
