(* ===== verification/Handlers.thy ===== *)
theory Handlers
  imports Prelude
begin

text \<open>
  Completion handlers, from \<open>src/include/asio_utp/detail/handler.hpp\<close>. A \<open>handler\<close> owns a
  heap object \<open>impl\<close> through a \<open>unique_ptr\<close>: it is an \<open>option\<close>, \<open>None\<close> the null pointer.
  The user's function is a number \<open>func\<close>; the hook installed by \<open>exec_after\<close> is a value of
  \<open>after_fn\<close> (the library installs one kind only, in \<open>socket_impl::setup_op\<close>).

  \<open>boost::asio::post\<close> hands a function object to the executor: the model appends the bound
  function, a value of type \<open>work\<close>, to the queue \<open>posted\<close> of the state. Whether
  \<open>boost::asio::dispatch\<close> runs the object at once or queues it is not the library's choice:
  it is an argument.
\<close>

section \<open>Handlers and posted work\<close>

type_synonym user_fn = nat

datatype after_fn = decrement_of nat
  \<comment> \<open>\<open>[ctx, dbg] { ctx->decrement_outstanding_ops(dbg); }\<close>\<close>

record handler_impl =
  func :: user_fn
  after :: "after_fn option"

type_synonym handler = "handler_impl option"

datatype work = Work (work_fn: user_fn) (work_ec: error_code) (work_args: "nat list")
  (work_after: "after_fn option")

record io =
  posted :: "work list"

definition new_handler :: "user_fn \<Rightarrow> handler" where
  "new_handler f = Some \<lparr>func = f, after = None\<rparr>"

definition exec_after :: "handler \<Rightarrow> after_fn \<Rightarrow> handler result" where
  "exec_after h k =
     (case h of None \<Rightarrow> Inl (NullPointer ''handler::exec_after'')
      | Some i \<Rightarrow> Inr (Some (i\<lparr>after := Some k\<rparr>)))"

definition impl_post :: "handler_impl \<Rightarrow> error_code \<Rightarrow> nat list \<Rightarrow> ('a io_scheme) \<Rightarrow> 'a io_scheme"
  where
  "impl_post i ec args w =
     (case after i of
        None \<Rightarrow> w\<lparr>posted := posted w @ [Work (func i) ec args None]\<rparr>
      | Some k \<Rightarrow> w\<lparr>posted := posted w @ [Work (func i) ec args (Some k)]\<rparr>)"

definition handler_post :: "handler \<Rightarrow> error_code \<Rightarrow> nat list \<Rightarrow> ('a io_scheme) \<Rightarrow> 'a io_scheme result"
  where
  "handler_post h ec args w =
     (case h of None \<Rightarrow> Inl (NullPointer ''handler::post'')
      | Some i \<Rightarrow> Inr (impl_post i ec args w))"

text \<open>
  The function object that \<open>impl::post\<close> and \<open>impl::dispatch\<close> bind: the user's function,
  then the \<open>after\<close> hook if there is one. What the two do to the state is an argument.
\<close>

definition run_work ::
  "(user_fn \<Rightarrow> error_code \<Rightarrow> nat list \<Rightarrow> 'w \<Rightarrow> 'w result) \<Rightarrow> (after_fn \<Rightarrow> 'w \<Rightarrow> 'w result)
     \<Rightarrow> work \<Rightarrow> 'w \<Rightarrow> 'w result" where
  "run_work call_user call_after x w =
     and_then (call_user (work_fn x) (work_ec x) (work_args x) w) (\<lambda>w.
       case work_after x of None \<Rightarrow> Inr w | Some k \<Rightarrow> call_after k w)"

definition impl_dispatch ::
  "('a io_scheme \<Rightarrow> bool) \<Rightarrow> (work \<Rightarrow> 'a io_scheme \<Rightarrow> 'a io_scheme result)
     \<Rightarrow> handler_impl \<Rightarrow> error_code \<Rightarrow> nat list \<Rightarrow> 'a io_scheme \<Rightarrow> 'a io_scheme result" where
  "impl_dispatch inline run i ec args w =
     (if inline w then run (Work (func i) ec args (after i)) w
      else Inr (w\<lparr>posted := posted w @ [Work (func i) ec args (after i)]\<rparr>))"

definition handler_dispatch ::
  "('a io_scheme \<Rightarrow> bool) \<Rightarrow> (work \<Rightarrow> 'a io_scheme \<Rightarrow> 'a io_scheme result)
     \<Rightarrow> handler \<Rightarrow> error_code \<Rightarrow> nat list \<Rightarrow> 'a io_scheme \<Rightarrow> 'a io_scheme result" where
  "handler_dispatch inline run h ec args w =
     (case h of None \<Rightarrow> Inl (NullPointer ''handler::dispatch'')
      | Some i \<Rightarrow> impl_dispatch inline run i ec args w)"

text \<open>How many queued functions will run the hook \<open>k\<close>.\<close>

definition hooks :: "after_fn \<Rightarrow> work list \<Rightarrow> nat" where
  "hooks k ws = length (filter (\<lambda>x. work_after x = Some k) ws)"


section \<open>Lemmas\<close>

lemma posted_impl_post [simp]:
  "posted (impl_post i ec args w) = posted w @ [Work (func i) ec args (after i)]"
  by (simp add: impl_post_def split: option.split)

lemma impl_post_eq:
  "impl_post i ec args w = w\<lparr>posted := posted w @ [Work (func i) ec args (after i)]\<rparr>"
  by (simp add: impl_post_def split: option.split)

lemma handler_post_Some [simp]:
  "handler_post (Some i) ec args w = Inr (w\<lparr>posted := posted w @ [Work (func i) ec args (after i)]\<rparr>)"
  by (simp add: handler_post_def impl_post_eq)

lemma handler_post_None [simp]:
  "handler_post None ec args w = Inl (NullPointer ''handler::post'')"
  by (simp add: handler_post_def)

lemma hooks_Nil [simp]: "hooks k [] = 0"
  and hooks_Cons [simp]: "hooks k (x # xs) = (if work_after x = Some k then 1 else 0) + hooks k xs"
  and hooks_append [simp]: "hooks k (xs @ ys) = hooks k xs + hooks k ys"
  by (simp_all add: hooks_def)

end
