(* ===== verification/Sockaddr.thy ===== *)
theory Sockaddr
  imports Prelude
begin

text \<open>
  Conversions between Asio endpoints and POSIX socket addresses, from
  \<open>src/src/util.hpp\<close>. A socket address is modelled as the memory object the code builds:
  a list of cells, one per byte, in which \<open>None\<close> is an indeterminate byte (the code never
  initialises \<open>sin_zero\<close> nor the tail of a \<open>sockaddr_storage\<close>). A \<open>reinterpret_cast\<close>
  followed by field reads is a read of the cells at the offsets of that field; reading past
  the object is the fault \<open>OutOfBounds\<close>.

  The byte order of the host, \<open>htons\<close>/\<open>ntohs\<close> and the numbers of the address families are
  not fixed by the sources: they are fields of the record \<open>host\<close>, and the locale
  \<open>posix_host\<close> lists what the code relies on. It is interpreted for the little-endian and
  the big-endian Linux ABI.
\<close>

section \<open>Endpoints and the host\<close>

text \<open>\<open>boost::asio::ip::address\<close>: bytes in network order, and a scope id for IPv6.\<close>

datatype address =
    address_v4 "byte list"
  | address_v6 "byte list" "32 word"

record endpoint =
  ep_address :: address
  ep_port :: "16 word"

fun is_v4 :: "address \<Rightarrow> bool" where
  "is_v4 (address_v4 bs) = True"
| "is_v4 (address_v6 bs sc) = False"

fun wf_address :: "address \<Rightarrow> bool" where
  "wf_address (address_v4 bs) = (length bs = 4)"
| "wf_address (address_v6 bs sc) = (length bs = 16)"

fun without_scope :: "address \<Rightarrow> address" where
  "without_scope (address_v4 bs) = address_v4 bs"
| "without_scope (address_v6 bs sc) = address_v6 bs 0"

record host =
  store16 :: "16 word \<Rightarrow> byte list"
  load16 :: "byte list \<Rightarrow> 16 word"
  store32 :: "32 word \<Rightarrow> byte list"
  htons :: "16 word \<Rightarrow> 16 word"
  ntohs :: "16 word \<Rightarrow> 16 word"
  AF_INET :: "16 word"
  AF_INET6 :: "16 word"

type_synonym cell = "byte option"

abbreviation cells :: "byte list \<Rightarrow> cell list" where
  "cells \<equiv> map Some"

definition indeterminate :: "nat \<Rightarrow> cell list" where
  "indeterminate n = replicate n None"

definition read_bytes :: "nat \<Rightarrow> nat \<Rightarrow> cell list \<Rightarrow> byte list result" where
  "read_bytes off n obj =
     (if length obj < off + n then Inl OutOfBounds
      else if None \<in> set (take n (drop off obj)) then Inl Uninitialized
      else Inr (map the (take n (drop off obj))))"

definition memcpy :: "cell list \<Rightarrow> cell list \<Rightarrow> cell list" where
  "memcpy d src = src @ drop (length src) d"


section \<open>The conversions\<close>

definition to_sockaddr_v4 :: "host \<Rightarrow> endpoint \<Rightarrow> cell list result" where
  "to_sockaddr_v4 h ep =
     (case ep_address ep of
        address_v4 bs \<Rightarrow>
          Inr (cells (store16 h (AF_INET h)) @ cells (store16 h (htons h (ep_port ep)))
               @ cells bs @ indeterminate 8)
      | address_v6 bs sc \<Rightarrow> Inl BadAddressCast)"

text \<open>
  \<open>sin6_scope_id\<close> is assigned \<open>htons(scope_id())\<close>: the argument is truncated to 16 bits
  and the 16-bit result is widened to the 32-bit field.
\<close>

definition scope_field :: "host \<Rightarrow> 32 word \<Rightarrow> 32 word" where
  "scope_field h sc = ucast (htons h (ucast sc))"

definition to_sockaddr_v6 :: "host \<Rightarrow> endpoint \<Rightarrow> cell list result" where
  "to_sockaddr_v6 h ep =
     (case ep_address ep of
        address_v4 bs \<Rightarrow> Inl (AssertFailed ''ep.address().is_v6()'')
      | address_v6 bs sc \<Rightarrow>
          Inr (cells (store16 h (AF_INET6 h)) @ cells (store16 h (htons h (ep_port ep)))
               @ cells (store32 h 0) @ cells bs @ cells (store32 h (scope_field h sc))))"

definition to_sockaddr :: "host \<Rightarrow> endpoint \<Rightarrow> cell list result" where
  "to_sockaddr h ep =
     (if is_v4 (ep_address ep)
      then and_then (to_sockaddr_v4 h ep) (\<lambda>addr. Inr (memcpy (indeterminate 128) addr))
      else and_then (to_sockaddr_v6 h ep) (\<lambda>addr. Inr (memcpy (indeterminate 128) addr)))"

definition sockaddr_size :: "host \<Rightarrow> cell list \<Rightarrow> nat result" where
  "sockaddr_size h addr =
     and_then (read_bytes 0 2 addr) (\<lambda>fam.
       if load16 h fam = AF_INET h then Inr 16
       else if load16 h fam = AF_INET6 h then Inr 28
       else Inl (AssertFailed ''0''))"

definition to_endpoint_v4 :: "host \<Rightarrow> cell list \<Rightarrow> endpoint result" where
  "to_endpoint_v4 h addr =
     and_then (read_bytes 2 2 addr) (\<lambda>p.
     and_then (read_bytes 4 4 addr) (\<lambda>bs.
       Inr \<lparr>ep_address = address_v4 bs, ep_port = ntohs h (load16 h p)\<rparr>))"

definition to_endpoint_v6 :: "host \<Rightarrow> cell list \<Rightarrow> endpoint result" where
  "to_endpoint_v6 h addr =
     and_then (read_bytes 2 2 addr) (\<lambda>p.
     and_then (read_bytes 8 16 addr) (\<lambda>bs.
       Inr \<lparr>ep_address = address_v6 bs 0, ep_port = ntohs h (load16 h p)\<rparr>))"

definition to_endpoint :: "host \<Rightarrow> cell list \<Rightarrow> endpoint result" where
  "to_endpoint h addr =
     and_then (read_bytes 0 2 addr) (\<lambda>fam.
       if load16 h fam = AF_INET h then to_endpoint_v4 h addr
       else if load16 h fam = AF_INET6 h then to_endpoint_v6 h addr
       else Inl (AssertFailed ''addr.sa_family == AF_INET6''))"

definition to_endpoint_storage :: "host \<Rightarrow> cell list \<Rightarrow> endpoint result" where
  "to_endpoint_storage h addr =
     and_then (read_bytes 0 2 addr) (\<lambda>fam.
       if load16 h fam = AF_INET h then to_endpoint_v4 h addr
       else if load16 h fam = AF_INET6 h then to_endpoint_v6 h addr
       else Inl (AssertFailed ''addr.ss_family == AF_INET6''))"

text \<open>The two Linux ABIs: the byte order of a 16 and a 32-bit object, and \<open>htons\<close>.\<close>

definition byte_of :: "nat \<Rightarrow> 'a::len word \<Rightarrow> byte" where
  "byte_of i x = ucast (drop_bit (8 * i) x)"

definition swap16 :: "16 word \<Rightarrow> 16 word" where
  "swap16 x = or (push_bit 8 (ucast (byte_of 0 x))) (ucast (byte_of 1 x))"

definition little_endian :: host where
  "little_endian =
     \<lparr>store16 = (\<lambda>x. [byte_of 0 x, byte_of 1 x]),
      load16 = (\<lambda>bs. or (ucast (bs ! 0)) (push_bit 8 (ucast (bs ! 1)))),
      store32 = (\<lambda>x. [byte_of 0 x, byte_of 1 x, byte_of 2 x, byte_of 3 x]),
      htons = swap16, ntohs = swap16, AF_INET = 2, AF_INET6 = 10\<rparr>"

definition big_endian :: host where
  "big_endian =
     \<lparr>store16 = (\<lambda>x. [byte_of 1 x, byte_of 0 x]),
      load16 = (\<lambda>bs. or (ucast (bs ! 1)) (push_bit 8 (ucast (bs ! 0)))),
      store32 = (\<lambda>x. [byte_of 3 x, byte_of 2 x, byte_of 1 x, byte_of 0 x]),
      htons = (\<lambda>x. x), ntohs = (\<lambda>x. x), AF_INET = 2, AF_INET6 = 10\<rparr>"


section \<open>Reading back what was laid out\<close>

lemma read_bytes_skip:
  "length a \<le> off \<Longrightarrow> read_bytes off n (a @ c) = read_bytes (off - length a) n c"
  by (auto simp: read_bytes_def)

lemma read_bytes_head: "n = length b \<Longrightarrow> read_bytes 0 n (cells b @ c) = Inr b"
  by (simp add: read_bytes_def comp_def)

lemma read_bytes_short: "length obj < off + n \<Longrightarrow> read_bytes off n obj = Inl OutOfBounds"
  by (simp add: read_bytes_def)

lemma byte_of_or: "or (ucast (byte_of 0 x)) (push_bit 8 (ucast (byte_of 1 x))) = (x :: 16 word)"
  by (rule bit_word_eqI)
     (auto simp: byte_of_def bit_or_iff bit_push_bit_iff bit_ucast_iff bit_drop_bit_eq)

lemma swap16_swap16 [simp]: "swap16 (swap16 x) = x"
  by (rule bit_word_eqI)
     (auto simp: swap16_def byte_of_def bit_or_iff bit_push_bit_iff bit_ucast_iff bit_drop_bit_eq)

text \<open>What the conversions need of the host: an interface with two providers.\<close>

locale posix_host =
  fixes h :: host
  assumes load_store16: "load16 h (store16 h x) = x"
    and len_store16: "length (store16 h x) = 2"
    and len_store32: "length (store32 h y) = 4"
    and ntohs_htons: "ntohs h (htons h x) = x"
    and af_distinct: "AF_INET h \<noteq> AF_INET6 h"
begin

lemmas read_layout = read_bytes_skip read_bytes_head len_store16 len_store32

lemma read_layout_v4:
  assumes "length bs = 4"
    and "obj = cells (store16 h fam) @ cells (store16 h p) @ cells bs @ rest"
  shows "read_bytes 0 2 obj = Inr (store16 h fam)"
    and "read_bytes 2 2 obj = Inr (store16 h p)"
    and "read_bytes 4 4 obj = Inr bs"
  unfolding assms(2) by (simp_all add: read_layout assms(1))

lemma read_layout_v6:
  assumes "length bs = 16"
    and "obj = cells (store16 h fam) @ cells (store16 h p) @ cells (store32 h fl) @ cells bs
           @ cells (store32 h sc) @ rest"
  shows "read_bytes 0 2 obj = Inr (store16 h fam)"
    and "read_bytes 2 2 obj = Inr (store16 h p)"
    and "read_bytes 8 16 obj = Inr bs"
    and "read_bytes 24 4 obj = Inr (store32 h sc)"
  unfolding assms(2) by (simp_all add: read_layout assms(1))

lemma sockaddr_layout:
  assumes "wf_address (ep_address ep)"
  obtains bs where "ep_address ep = address_v4 bs" "length bs = 4"
      "to_sockaddr h ep = Inr (cells (store16 h (AF_INET h))
         @ cells (store16 h (htons h (ep_port ep))) @ cells bs @ indeterminate 120)"
  | bs sc where "ep_address ep = address_v6 bs sc" "length bs = 16"
      "to_sockaddr h ep = Inr (cells (store16 h (AF_INET6 h))
         @ cells (store16 h (htons h (ep_port ep))) @ cells (store32 h 0) @ cells bs
         @ cells (store32 h (scope_field h sc)) @ indeterminate 100)"
proof (cases "ep_address ep")
  case (address_v4 bs)
  moreover from this assms have "length bs = 4" by simp
  moreover have "indeterminate 8 @ drop 16 (indeterminate 128) = indeterminate 120"
    by (simp add: indeterminate_def flip: replicate_add)
  ultimately show thesis
    by (intro that(1)) (simp_all add: to_sockaddr_def to_sockaddr_v4_def memcpy_def
        len_store16, simp add: indeterminate_def)
next
  case (address_v6 bs sc)
  moreover from this assms have "length bs = 16" by simp
  ultimately show thesis
    by (intro that(2)) (simp_all add: to_sockaddr_def to_sockaddr_v6_def memcpy_def
        len_store16 len_store32, simp add: indeterminate_def)
qed

lemma endpoint_of_sockaddr:
  assumes "wf_address (ep_address ep)"
  shows "and_then (to_sockaddr h ep) (to_endpoint_storage h)
    = Inr (ep\<lparr>ep_address := without_scope (ep_address ep)\<rparr>)"
  using assms
proof (cases rule: sockaddr_layout)
  case (1 bs)
  from read_layout_v4 [OF 1(2) refl] 1(1) show ?thesis
    unfolding 1(3) by (simp add: to_endpoint_storage_def to_endpoint_v4_def load_store16 ntohs_htons)
next
  case (2 bs sc)
  from read_layout_v6 [OF 2(2) refl] 2(1) show ?thesis
    unfolding 2(3)
    by (simp add: to_endpoint_storage_def to_endpoint_v6_def load_store16 ntohs_htons
        af_distinct [symmetric])
qed

lemma sockaddr_size_of_sockaddr:
  assumes "wf_address (ep_address ep)"
  shows "and_then (to_sockaddr h ep) (sockaddr_size h)
    = Inr (if is_v4 (ep_address ep) then 16 else 28)"
  using assms
proof (cases rule: sockaddr_layout)
  case (1 bs)
  from read_layout_v4 [OF 1(2) refl] 1(1) show ?thesis
    unfolding 1(3) by (simp add: sockaddr_size_def load_store16)
next
  case (2 bs sc)
  from read_layout_v6 [OF 2(2) refl] 2(1) show ?thesis
    unfolding 2(3) by (simp add: sockaddr_size_def load_store16 af_distinct [symmetric])
qed

lemma scope_of_sockaddr:
  assumes "wf_address (ep_address ep)" and "ep_address ep = address_v6 bs sc"
  shows "and_then (to_sockaddr h ep) (read_bytes 24 4) = Inr (store32 h (scope_field h sc))"
  using assms(1)
proof (cases rule: sockaddr_layout)
  case (1 bs')
  with assms(2) show ?thesis by simp
next
  case (2 bs' sc')
  from read_layout_v6 [OF 2(2) refl] 2(1) assms(2) show ?thesis
    unfolding 2(3) by simp
qed

text \<open>The 16 bytes of a \<open>struct sockaddr\<close>, filled from an IPv4 and from an IPv6 address.\<close>

lemma endpoint_of_peer_v4:
  assumes "length bs = 4"
  shows "to_endpoint h (cells (store16 h (AF_INET h) @ store16 h (htons h p) @ bs @ pad))
    = Inr \<lparr>ep_address = address_v4 bs, ep_port = p\<rparr>"
  using read_layout_v4 [OF assms refl, of "AF_INET h" "htons h p" "cells pad"]
  by (simp add: to_endpoint_def to_endpoint_v4_def load_store16 ntohs_htons)

lemma endpoint_of_peer_v6:
  assumes "length rest = 12"
  shows "to_endpoint h (cells (store16 h (AF_INET6 h) @ store16 h p @ rest)) = Inl OutOfBounds"
proof -
  let ?obj = "cells (store16 h (AF_INET6 h)) @ cells (store16 h p) @ cells rest"
  have "read_bytes 0 2 ?obj = Inr (store16 h (AF_INET6 h))" "read_bytes 2 2 ?obj = Inr (store16 h p)"
    by (simp_all add: read_layout)
  moreover have "read_bytes 8 16 ?obj = Inl OutOfBounds"
    by (rule read_bytes_short) (simp add: len_store16 assms)
  ultimately show ?thesis
    by (simp add: to_endpoint_def to_endpoint_v6_def load_store16 af_distinct [symmetric])
qed

end

interpretation le: posix_host little_endian
proof
  show "load16 little_endian (store16 little_endian x) = x" for x
    using byte_of_or [of x] by (simp add: little_endian_def)
qed (simp_all add: little_endian_def)

interpretation be: posix_host big_endian
proof
  show "load16 big_endian (store16 big_endian x) = x" for x
    using byte_of_or [of x] by (simp add: big_endian_def)
qed (simp_all add: big_endian_def)

section \<open>Properties\<close>

text \<open>
  (C32) On the little-endian and the big-endian ABI, converting an endpoint to a
  \<open>sockaddr_storage\<close> and back gives the same address and port, for IPv4 and IPv6 (the IPv6
  scope id is not carried over), and the size passed on to libutp with the address is that of
  the structure of its family.
\<close>

theorem sockaddr_roundtrip:
  assumes "h = little_endian \<or> h = big_endian" and "wf_address (ep_address ep)"
  shows "and_then (to_sockaddr h ep) (to_endpoint_storage h)
      = Inr (ep\<lparr>ep_address := without_scope (ep_address ep)\<rparr>)
    \<and> and_then (to_sockaddr h ep) (sockaddr_size h) = Inr (if is_v4 (ep_address ep) then 16 else 28)"
  using assms le.endpoint_of_sockaddr be.endpoint_of_sockaddr
    le.sockaddr_size_of_sockaddr be.sockaddr_size_of_sockaddr
  by auto

theorem sockaddr_roundtrip_witness:
  "and_then (to_sockaddr little_endian \<lparr>ep_address = address_v4 [127, 0, 0, 1], ep_port = 6881\<rparr>)
     (to_endpoint_storage little_endian) = Inr \<lparr>ep_address = address_v4 [127, 0, 0, 1], ep_port = 6881\<rparr>"
  using sockaddr_roundtrip [of little_endian "\<lparr>ep_address = address_v4 [127, 0, 0, 1], ep_port = 6881\<rparr>"]
  by simp

text \<open>
  (C34) The scope id of an IPv6 endpoint does not reach \<open>sin6_scope_id\<close>: on a little-endian host
  the field holds the low 16 bits of the scope id with their two bytes swapped (scope id 1 is
  stored as 256), so that scope ids that differ in the high 16 bits are not told apart.
\<close>

theorem scope_id_mangled:
  assumes "length bs = 16"
  shows "and_then (to_sockaddr little_endian \<lparr>ep_address = address_v6 bs sc, ep_port = p\<rparr>) (read_bytes 24 4)
      = Inr (store32 little_endian (ucast (swap16 (ucast sc))))
    \<and> scope_field little_endian 1 = 256
    \<and> scope_field little_endian (sc + 65536) = scope_field little_endian sc"
proof (intro conjI)
  show "and_then (to_sockaddr little_endian \<lparr>ep_address = address_v6 bs sc, ep_port = p\<rparr>) (read_bytes 24 4)
      = Inr (store32 little_endian (ucast (swap16 (ucast sc))))"
    using le.scope_of_sockaddr [of "\<lparr>ep_address = address_v6 bs sc, ep_port = p\<rparr>" bs sc] assms
    by (simp add: scope_field_def, simp add: little_endian_def)
  show "scope_field little_endian 1 = 256"
    by (simp add: scope_field_def little_endian_def swap16_def byte_of_def)
  have "take_bit 16 (take_bit 32 (a + 65536)) = take_bit 16 (take_bit 32 a)" for a :: int
  proof -
    have "take_bit 16 (a + 65536) = take_bit 16 a" by (simp add: take_bit_eq_mod)
    then show ?thesis by (simp add: take_bit_take_bit)
  qed
  then have "(ucast (sc + 65536) :: 16 word) = ucast sc" by transfer simp
  then show "scope_field little_endian (sc + 65536) = scope_field little_endian sc"
    by (simp add: scope_field_def)
qed

theorem scope_id_mangled_witness:
  "scope_field little_endian (2 + 65536) = scope_field little_endian 2"
  using scope_id_mangled [of "replicate 16 0" 2 0] by simp

end
