(* ===== verification/Signals.thy ===== *)
theory Signals
  imports Prelude
begin

text \<open>
  \<open>Signal\<close> and \<open>Signal::Connection\<close>, from \<open>src/include/asio_utp/detail/signal.hpp\<close>.
  A connection is an object with an address (a number) that is a node of the signal's
  intrusive list; \<open>connections\<close> is that list, in order, and \<open>slots\<close> gives the
  \<open>std::function\<close> each connection object holds, \<open>None\<close> an empty one.
  What a moved-from \<open>std::function\<close> holds is unspecified in C++: it is an argument
  \<open>left\<close> of the two move operations.

  An emission walks the list while the slots run, and a slot can connect and disconnect: the
  walk reads the list again after each slot. The signal is a part of the state that \<open>get\<close>
  reads; \<open>n\<close> bounds the number of slots that one emission calls (a slot that connects another
  one each time would never let it end).
\<close>

section \<open>Signals and connections\<close>

record 'f signal =
  connections :: "nat list"
  slots :: "nat \<Rightarrow> 'f option"

definition empty_signal :: "'f signal" where
  "empty_signal = \<lparr>connections = [], slots = (\<lambda>_. None)\<rparr>"

text \<open>\<open>swap_nodes\<close> of two list hooks: each takes the other's place, linked or not.\<close>

definition swap_nodes :: "nat \<Rightarrow> nat \<Rightarrow> nat list \<Rightarrow> nat list" where
  "swap_nodes a b xs = map (\<lambda>x. if x = a then b else if x = b then a else x) xs"

text \<open>
  \<open>connect\<close>: a local \<open>Connection\<close> is linked at the end and returned by value; \<open>c\<close> is the
  address of the object the caller receives.
\<close>

definition connect :: "nat \<Rightarrow> 'f \<Rightarrow> 'f signal \<Rightarrow> 'f signal" where
  "connect c f s =
     s\<lparr>slots := (slots s)(c := Some f), connections := connections s @ [c]\<rparr>"

definition connection_move_construct :: "'f option \<Rightarrow> nat \<Rightarrow> nat \<Rightarrow> 'f signal \<Rightarrow> 'f signal" where
  "connection_move_construct left this other s =
     s\<lparr>slots := (slots s)(this := slots s other, other := left),
       connections := swap_nodes other this (connections s)\<rparr>"

definition connection_move_assign :: "'f option \<Rightarrow> nat \<Rightarrow> nat \<Rightarrow> 'f signal \<Rightarrow> 'f signal" where
  "connection_move_assign left this other s =
     s\<lparr>slots := (slots s)(this := slots s other, other := left),
       connections := swap_nodes other this (connections s)\<rparr>"

text \<open>The destructor of a connection: the \<open>auto_unlink\<close> hook leaves the list.\<close>

definition connection_destroy :: "nat \<Rightarrow> 'f signal \<Rightarrow> 'f signal" where
  "connection_destroy c s =
     s\<lparr>slots := (slots s)(c := None), connections := removeAll c (connections s)\<rparr>"

definition signal_size :: "'f signal \<Rightarrow> nat" where
  "signal_size s = length (connections s)"

text \<open>
  \<open>operator()\<close>: every slot in list order; a \<open>std::exception\<close> out of a slot (an empty
  \<open>std::function\<close> throws one) runs into \<open>assert(0)\<close>.
\<close>

fun is_exception :: "fault \<Rightarrow> bool" where
  "is_exception BadFunctionCall = True"
| "is_exception (SystemError ec) = True"
| "is_exception BadAddressCast = True"
| "is_exception (StdException e) = True"
| "is_exception f = False"

definition call_slot :: "('f \<Rightarrow> 'w \<Rightarrow> 'w result) \<Rightarrow> 'f option \<Rightarrow> 'w \<Rightarrow> 'w result" where
  "call_slot call f w =
     (case (case f of None \<Rightarrow> Inl BadFunctionCall | Some g \<Rightarrow> call g w) of
        Inr w' \<Rightarrow> Inr w'
      | Inl e \<Rightarrow> if is_exception e then Inl (AssertFailed ''0'') else Inl e)"

text \<open>A list of slots, one after the other; emission is compared with it below.\<close>

fun emit_slots :: "('f \<Rightarrow> 'w \<Rightarrow> 'w result) \<Rightarrow> 'f option list \<Rightarrow> 'w \<Rightarrow> 'w result" where
  "emit_slots call [] w = Inr w"
| "emit_slots call (f # fs) w = and_then (call_slot call f w) (emit_slots call fs)"

text \<open>
  The walk itself. The iterator is the connection object whose slot runs; \<open>++\<close> reads its hook,
  which is null once the connection was unlinked.
\<close>

definition next_connection :: "nat \<Rightarrow> nat list \<Rightarrow> (nat option) result" where
  "next_connection c cs =
     (case dropWhile (\<lambda>x. x \<noteq> c) cs of
        [] \<Rightarrow> Inl (NullPointer ''iterator'')
      | [x] \<Rightarrow> Inr None
      | x # d # ds \<Rightarrow> Inr (Some d))"

fun emit_from ::
  "('w \<Rightarrow> 'f signal) \<Rightarrow> ('f \<Rightarrow> 'w \<Rightarrow> 'w result) \<Rightarrow> nat \<Rightarrow> nat \<Rightarrow> 'w \<Rightarrow> 'w result" where
  "emit_from get call 0 c w = Inl NestingExceeded"
| "emit_from get call (Suc n) c w =
     and_then (call_slot call (slots (get w) c) w) (\<lambda>w.
     and_then (next_connection c (connections (get w))) (\<lambda>d.
       case d of None \<Rightarrow> Inr w | Some d \<Rightarrow> emit_from get call n d w))"

definition emit ::
  "('w \<Rightarrow> 'f signal) \<Rightarrow> ('f \<Rightarrow> 'w \<Rightarrow> 'w result) \<Rightarrow> nat \<Rightarrow> 'w \<Rightarrow> 'w result" where
  "emit get call n w =
     (case connections (get w) of [] \<Rightarrow> Inr w | c # cs \<Rightarrow> emit_from get call n c w)"

text \<open>
  Moving a signal moves the list of its connections, which stay where they are: the new signal
  is the pair's first component, the moved-from one the second. Move assignment of the
  intrusive lists swaps them.
\<close>

definition signal_move_construct :: "'f signal \<Rightarrow> 'f signal \<times> 'f signal" where
  "signal_move_construct other = (other, other\<lparr>connections := []\<rparr>)"

definition signal_move_assign :: "'f signal \<Rightarrow> 'f signal \<Rightarrow> 'f signal \<times> 'f signal" where
  "signal_move_assign this other = (other, this)"

text \<open>Every linked connection is linked once and holds a function.\<close>

definition signal_ok :: "'f signal \<Rightarrow> bool" where
  "signal_ok s \<longleftrightarrow> distinct (connections s) \<and> (\<forall>c \<in> set (connections s). slots s c \<noteq> None)"


section \<open>Lemmas\<close>

lemma call_slot_Some:
  "call g w = Inr w' \<Longrightarrow> call_slot call (Some g) w = Inr w'"
  by (simp add: call_slot_def)

lemma call_slot_None [simp]: "call_slot call None w = Inl (AssertFailed ''0'')"
  by (simp add: call_slot_def)

lemma call_slot_InrD:
  "call_slot call f w = Inr w' \<Longrightarrow> \<exists>g. f = Some g \<and> call g w = Inr w'"
  by (auto simp: call_slot_def split: option.splits sum.splits if_splits)

lemma emit_slots_fold:
  assumes "\<And>g w. call g w = Inr (step g w)"
  shows "emit_slots call (map Some gs) w = Inr (fold step gs w)"
  by (induction gs arbitrary: w) (simp_all add: call_slot_def assms)

lemma swap_nodes_fresh:
  "b \<notin> set xs \<Longrightarrow> swap_nodes a b xs = map (\<lambda>x. if x = a then b else x) xs"
  by (auto simp: swap_nodes_def)

lemma swap_nodes_id: "a \<notin> set xs \<Longrightarrow> b \<notin> set xs \<Longrightarrow> swap_nodes a b xs = xs"
  by (auto simp: swap_nodes_def intro: map_idI)

lemma distinct_swap_nodes: "distinct xs \<Longrightarrow> distinct (swap_nodes a b xs)"
  by (auto simp: swap_nodes_def distinct_map inj_on_def)

lemma set_swap_nodes:
  "c \<in> set (swap_nodes a b xs) \<longleftrightarrow>
     (if c = a then b \<in> set xs else if c = b then a \<in> set xs else c \<in> set xs)"
  by (auto simp: swap_nodes_def image_iff)

lemma signal_okI:
  "distinct (connections s) \<Longrightarrow> (\<And>c. c \<in> set (connections s) \<Longrightarrow> slots s c \<noteq> None) \<Longrightarrow> signal_ok s"
  by (simp add: signal_ok_def)

lemma empty_signal_ok: "signal_ok empty_signal"
  by (simp add: signal_ok_def empty_signal_def)

lemma connect_signal_ok:
  "signal_ok s \<Longrightarrow> c \<notin> set (connections s) \<Longrightarrow> signal_ok (connect c f s)"
  by (auto simp: signal_ok_def connect_def)

lemma destroy_signal_ok: "signal_ok s \<Longrightarrow> signal_ok (connection_destroy c s)"
  by (auto simp: signal_ok_def connection_destroy_def distinct_removeAll)

lemma move_construct_signal_ok:
  assumes "signal_ok s" and "this \<notin> set (connections s)" and "this \<noteq> other"
  shows "signal_ok (connection_move_construct left this other s)"
  using assms
  by (auto simp: signal_ok_def connection_move_construct_def distinct_swap_nodes set_swap_nodes
      split: if_splits)

text \<open>The functions a signal calls, in order.\<close>

definition called :: "'f signal \<Rightarrow> 'f option list" where
  "called s = map (slots s) (connections s)"

lemma called_move_construct:
  assumes "this \<notin> set (connections s)" and "this \<noteq> other"
  shows "called (connection_move_construct left this other s) = called s"
  using assms
  by (auto simp: called_def connection_move_construct_def swap_nodes_fresh)

lemma emit_slots_single: "emit_slots call [f] = call_slot call f"
proof
  have "emit_slots call [] = Inr" by (rule ext) simp
  then show "emit_slots call [f] w = call_slot call f w" for w
    by (simp only: emit_slots.simps and_then_Inr_right)
qed

lemma emit_slots_append:
  "emit_slots call (fs @ gs) w = and_then (emit_slots call fs w) (emit_slots call gs)"
  by (induction fs arbitrary: w) (auto intro: and_then_cong)

lemma emit_slots_empty_slot:
  assumes "\<And>g w. \<exists>w'. call g w = Inr w'" and "None \<in> set fs"
  shows "emit_slots call fs w = Inl (AssertFailed ''0'')"
  using assms(2)
proof (induction fs arbitrary: w)
  case (Cons f fs)
  show ?case
  proof (cases f)
    case (Some g)
    with assms(1) obtain w' where "call_slot call f w = Inr w'" by (metis call_slot_Some)
    with Some Cons show ?thesis by simp
  qed simp
qed simp


lemma next_connection_in:
  assumes "distinct (xs @ c # ys)"
  shows "next_connection c (xs @ c # ys) = Inr (case ys of [] \<Rightarrow> None | d # ds \<Rightarrow> Some d)"
proof -
  have "\<forall>x \<in> set xs. x \<noteq> c" using assms by auto
  then have "dropWhile (\<lambda>x. x \<noteq> c) (xs @ c # ys) = c # ys" by (simp add: dropWhile_append2)
  then show ?thesis by (simp add: next_connection_def split: list.split)
qed

lemma next_connection_gone: "c \<notin> set cs \<Longrightarrow> next_connection c cs = Inl (NullPointer ''iterator'')"
proof -
  assume "c \<notin> set cs"
  then have gone: "dropWhile (\<lambda>x. x \<noteq> c) cs = []" by (auto simp: dropWhile_eq_Nil_conv)
  show ?thesis unfolding next_connection_def gone by simp
qed

definition undisturbed :: "('w \<Rightarrow> 'f signal) \<Rightarrow> ('f \<Rightarrow> 'w \<Rightarrow> 'w result) \<Rightarrow> bool" where
  "undisturbed get call \<longleftrightarrow> (\<forall>g w w'. call g w = Inr w' \<longrightarrow> get w' = get w)"

lemma call_slot_keeps_signal:
  assumes "undisturbed get call" and "call_slot call f w = Inr w'"
  shows "get w' = get w"
  using call_slot_InrD [OF assms(2)] assms(1) unfolding undisturbed_def by blast

lemma emit_from_slots:
  assumes unchanged: "undisturbed get call"
    and "connections (get w) = xs @ c # ys" and "distinct (connections (get w))" and "length ys < n"
  shows "emit_from get call n c w = emit_slots call (map (slots (get w)) (c # ys)) w"
  using assms(2-4)
proof (induction ys arbitrary: xs c n w)
  case Nil
  then obtain m where n: "n = Suc m" by (cases n) auto
  have "next_connection c (connections (get w')) = Inr None" if "call_slot call (slots (get w) c) w = Inr w'" for w'
    using call_slot_keeps_signal [OF unchanged that] Nil next_connection_in [of xs c "[]"] by simp
  then show ?case by (cases "call_slot call (slots (get w) c) w") (simp_all add: n)
next
  case (Cons d ys)
  then obtain m where n: "n = Suc m" by (cases n) auto
  show ?case
  proof (cases "call_slot call (slots (get w) c) w")
    case (Inr w')
    have g: "get w' = get w" by (rule call_slot_keeps_signal [OF unchanged Inr])
    have "emit_from get call m d w' = emit_slots call (map (slots (get w)) (d # ys)) w'"
      using Cons.IH [where w = w' and xs = "xs @ [c]" and c = d and n = m] Cons.prems g n by simp
    moreover have "next_connection c (connections (get w')) = Inr (Some d)"
      using next_connection_in [of xs c "d # ys"] Cons.prems(1,2) g by simp
    ultimately show ?thesis using Inr by (simp add: n)
  qed (simp add: n)
qed

lemma emit_quiet:
  assumes "undisturbed get call"
    and "distinct (connections (get w))" and "length (connections (get w)) \<le> n"
  shows "emit get call n w = emit_slots call (called (get w)) w"
proof (cases "connections (get w)")
  case (Cons c cs)
  then show ?thesis
    using emit_from_slots [OF assms(1), of w "[]" c cs n] assms(2,3)
    by (simp add: emit_def called_def)
qed (simp add: emit_def called_def)

text \<open>The functions a connection adds and takes away; moving connections and signals.\<close>

lemma called_connect: "c \<notin> set (connections s) \<Longrightarrow> called (connect c f s) = called s @ [Some f]"
  by (auto simp: called_def connect_def)

lemma called_disconnect: "c \<notin> set (connections s) \<Longrightarrow> called (connection_destroy c (connect c f s)) = called s"
  by (auto simp: called_def connect_def connection_destroy_def removeAll_id)

lemma called_signal_move:
  "called (fst (signal_move_construct s)) = called s" "called (snd (signal_move_construct s)) = []"
  "called (fst (signal_move_assign s t)) = called t" "called (snd (signal_move_assign s t)) = called s"
  by (simp_all add: signal_move_construct_def signal_move_assign_def called_def)


section \<open>Properties\<close>

text \<open>
  (C20) As long as the slots leave the signal alone, an emission calls the connected functions in
  the order they were connected, each once: it is the sequence of their calls. A new
  connection adds its function at the end, destroying the connection takes it out again, and
  move-constructing a connection or a signal from another changes nothing about the calls.
\<close>

theorem emission_in_order:
  assumes "undisturbed get call"
    and "distinct (connections (get w))" and "length (connections (get w)) \<le> n"
    and "c \<notin> set (connections s)" and "other \<noteq> c"
  shows "emit get call n w = emit_slots call (called (get w)) w
    \<and> called (connect c f s) = called s @ [Some f]
    \<and> called (connection_destroy c (connect c f s)) = called s
    \<and> called (connection_move_construct left c other s) = called s
    \<and> called (fst (signal_move_construct s)) = called s"
  using emit_quiet [OF assms(1-3)] called_connect [OF assms(4)] called_disconnect [OF assms(4)]
    called_move_construct [OF assms(4)] assms(5) called_signal_move(1)
  by metis

theorem emission_in_order_witness:
  "emit fst (\<lambda>f (s, w). Inr (s, w @ [f])) 2 (connect 1 (8 :: nat) (connect 0 7 empty_signal), [])
    = Inr (connect 1 8 (connect 0 7 empty_signal), [7, 8])"
proof -
  let ?s = "connect 1 (8 :: nat) (connect 0 7 empty_signal)"
  let ?call = "\<lambda>f (s, w). Inr (s, w @ [f]) :: (nat signal \<times> nat list) result"
  have "undisturbed fst ?call" by (auto simp: undisturbed_def)
  moreover have "connections ?s = [0, 1]" "called ?s = [Some 7, Some 8]"
    by (simp_all add: called_def connect_def empty_signal_def)
  ultimately have "emit fst ?call 2 (?s, []) = emit_slots ?call [Some 7, Some 8] (?s, [])"
    using emission_in_order [of fst ?call "(?s, [])" 2 5 ?s 6] by simp
  then show ?thesis by (simp add: call_slot_def)
qed

text \<open>
  (C39) A slot that destroys its own connection (the user drops the connection object while the
  signal is being emitted) breaks the emission: the walk continues from a list node that was
  unlinked, a dereference of a null pointer.
\<close>

theorem self_disconnect_breaks_emission:
  assumes "connections (get w) = c # cs" and "slots (get w) c = Some g"
    and "call g w = Inr w'" and "get w' = connection_destroy c (get w)"
  shows "emit get call (Suc n) w = Inl (NullPointer ''iterator'')"
proof -
  have "c \<notin> set (connections (get w'))" by (simp add: assms(4) connection_destroy_def)
  then show ?thesis
    using assms(1-3) by (simp add: emit_def call_slot_def next_connection_gone)
qed

theorem self_disconnect_breaks_emission_witness:
  "emit id (\<lambda>f s. Inr (connection_destroy f s)) 5 (connect 1 1 (connect 0 0 empty_signal))
     = Inl (NullPointer ''iterator'')"
  using self_disconnect_breaks_emission [where get = id and w = "connect 1 1 (connect 0 0 empty_signal)" and c = 0
      and cs = "[1]" and g = 0 and call = "\<lambda>f s. Inr (connection_destroy f s)" and n = 4]
  by (simp add: connect_def empty_signal_def eval_nat_numeral)

text \<open>
  Move assignment to a connection that is itself connected does not disconnect it: the two
  list nodes are swapped, the moved-from connection stays linked with an empty function, and
  the next emission ends in \<open>assert(0)\<close>.
\<close>

lemma signal_move_assign_leaves_empty_slot:
  assumes "get w = connection_move_assign None this other s"
    and "this \<in> set (connections s)" and "this \<noteq> other" and "distinct (connections s)"
    and "length (connections s) \<le> n"
    and "\<And>g w. \<exists>w'. call g w = Inr w'" and "undisturbed get call"
  shows "emit get call n w = Inl (AssertFailed ''0'')"
proof -
  have "other \<in> set (connections (get w))" "slots (get w) other = None"
    using assms(1-3) by (simp_all add: connection_move_assign_def set_swap_nodes)
  then have "None \<in> set (called (get w))" by (force simp: called_def)
  moreover have "distinct (connections (get w))" "length (connections (get w)) \<le> n"
    using assms(4,5) by (simp_all add: assms(1) connection_move_assign_def distinct_swap_nodes)
      (simp add: swap_nodes_def)
  ultimately show ?thesis
    using emit_quiet [OF assms(7)] emit_slots_empty_slot [OF assms(6)] by simp
qed

end
