(* ===== verification/Buffers.thy ===== *)
theory Buffers
  imports Prelude
begin

text \<open>
  Asio buffers and the receive queue of a socket.

  A \<open>const_buffer\<close> or \<open>mutable_buffer\<close> is an address and a size into the user's memory, a
  function from addresses to bytes. \<open>boost::asio::buffer_copy\<close> is not part of the sources:
  it is an argument \<open>copy\<close> of the definitions, and the locale \<open>asio_buffer_copy\<close> states
  its documented behaviour; the executable \<open>copy_buffers\<close> shows the laws can be met.

  The receive queue is \<open>socket_impl::_rx_buffer_queue\<close> with its element type \<open>buf_t\<close>
  (\<open>src/src/socket_impl.hpp\<close>); \<open>consume\<close> and \<open>receive_into\<close> are the two loops over it in
  \<open>do_read\<close> and \<open>on_receive\<close> (\<open>src/src/socket_impl.cpp\<close>). The abstract view of the queue
  is the list of bytes not yet read; the locale \<open>byte_fifo\<close> is that contract.
\<close>

section \<open>Buffers over the user's memory\<close>

type_synonym memory = "nat \<Rightarrow> byte"

record buffer =
  base :: nat
  len :: nat

definition buffer_size :: "buffer list \<Rightarrow> nat" where
  "buffer_size bs = sum_list (map len bs)"

definition buffer_plus :: "buffer \<Rightarrow> nat \<Rightarrow> buffer" where
  "buffer_plus b n = \<lparr>base = base b + min n (len b), len = len b - min n (len b)\<rparr>"

definition read_mem :: "memory \<Rightarrow> buffer \<Rightarrow> byte list" where
  "read_mem m b = map (\<lambda>i. m (base b + i)) [0..<len b]"

definition gather :: "memory \<Rightarrow> buffer list \<Rightarrow> byte list" where
  "gather m bs = concat (map (read_mem m) bs)"

definition addresses :: "buffer \<Rightarrow> nat set" where
  "addresses b = {base b..<base b + len b}"

fun disjoint_buffers :: "buffer list \<Rightarrow> bool" where
  "disjoint_buffers [] = True"
| "disjoint_buffers (b # bs) =
     ((\<forall>c \<in> set bs. base b + len b \<le> base c \<or> base c + len c \<le> base b \<or> len b = 0 \<or> len c = 0)
      \<and> disjoint_buffers bs)"

type_synonym copier = "buffer list \<Rightarrow> byte list list \<Rightarrow> memory \<Rightarrow> nat \<times> memory"

definition write_mem :: "nat \<Rightarrow> byte list \<Rightarrow> memory \<Rightarrow> memory" where
  "write_mem a bs m = (\<lambda>x. if a \<le> x \<and> x < a + length bs then bs ! (x - a) else m x)"

fun scatter :: "buffer list \<Rightarrow> byte list \<Rightarrow> memory \<Rightarrow> memory" where
  "scatter [] bs m = m"
| "scatter (d # ds) bs m = scatter ds (drop (len d) bs) (write_mem (base d) (take (len d) bs) m)"

definition copy_buffers :: copier where
  "copy_buffers ds ss m =
     (min (buffer_size ds) (length (concat ss)), scatter ds (concat ss) m)"


section \<open>The receive queue\<close>

record buf_t =
  bytes :: "byte list"
  consumed :: nat

definition new_buf :: "byte list \<Rightarrow> buf_t" where
  "new_buf bs = \<lparr>bytes = bs, consumed = 0\<rparr>"

text \<open>
  The conversion of a \<open>buf_t\<close> to a \<open>const_buffer\<close>, and of the queue to the buffer sequence that
  \<open>buffer_copy\<close> reads: the conversion of each element asserts \<open>consumed <= size()\<close>.
\<close>

definition buf_view :: "buf_t \<Rightarrow> byte list" where
  "buf_view b = drop (consumed b) (bytes b)"

fun const_buffers :: "buf_t list \<Rightarrow> byte list list result" where
  "const_buffers [] = Inr []"
| "const_buffers (b # q) =
     (if consumed b \<le> length (bytes b) then and_then (const_buffers q) (\<lambda>vs. Inr (buf_view b # vs))
      else Inl (AssertFailed ''consumed <= size()''))"

definition queue_content :: "buf_t list \<Rightarrow> byte list" where
  "queue_content q = concat (map buf_view q)"

definition queue_ok :: "buf_t list \<Rightarrow> bool" where
  "queue_ok q \<longleftrightarrow> list_all (\<lambda>b. consumed b \<le> length (bytes b)) q"

definition queue_push :: "byte list \<Rightarrow> buf_t list \<Rightarrow> buf_t list" where
  "queue_push bs q = q @ [new_buf bs]"

text \<open>The loop \<open>while (r) { ... }\<close> of \<open>do_read\<close>.\<close>

fun consume :: "nat \<Rightarrow> buf_t list \<Rightarrow> buf_t list result" where
  "consume r [] = (if r = 0 then Inr [] else Inl (AssertFailed ''!_rx_buffer_queue.empty()''))"
| "consume r (b # q) =
     (if r = 0 then Inr (b # q)
      else if length (bytes b) - consumed b \<le> r
      then consume (r - (length (bytes b) - consumed b)) q
      else Inr (b\<lparr>consumed := consumed b + r\<rparr> # q))"

text \<open>
  The loop \<open>for (mutable_buffer dst : _rx_buffers)\<close> of \<open>on_receive\<close>: the number of bytes
  copied, the bytes stored for later (\<open>None\<close> when the loop pushed nothing), the memory.
\<close>

fun receive_into ::
  "copier \<Rightarrow> buffer list \<Rightarrow> byte list \<Rightarrow> nat \<Rightarrow> memory \<Rightarrow> nat \<times> byte list option \<times> memory" where
  "receive_into copy [] src tot m = (tot, None, m)"
| "receive_into copy (dst # ds) src tot m =
     (case copy [dst] [src] m of (c, m') \<Rightarrow>
        if drop c src \<noteq> [] then (tot + c, Some (drop c src), m')
        else receive_into copy ds (drop c src) (tot + c) m')"


section \<open>Lemmas on buffers\<close>

lemma length_read_mem [simp]: "length (read_mem m b) = len b"
  by (simp add: read_mem_def)

lemma length_gather [simp]: "length (gather m bs) = buffer_size bs"
  by (simp add: gather_def buffer_size_def length_concat comp_def)

lemma gather_simps [simp]:
  "gather m [] = []" "gather m (b # bs) = read_mem m b @ gather m bs"
  by (simp_all add: gather_def)

lemma buffer_size_simps [simp]:
  "buffer_size [] = 0" "buffer_size (b # bs) = len b + buffer_size bs"
  by (simp_all add: buffer_size_def)

lemma len_buffer_plus [simp]: "len (buffer_plus b n) = len b - n"
  by (simp add: buffer_plus_def)

lemma read_mem_plus: "read_mem m (buffer_plus b n) = drop n (read_mem m b)"
proof (cases "n \<le> len b")
  case True
  then show ?thesis
    by (intro nth_equalityI) (auto simp: read_mem_def buffer_plus_def add.assoc)
qed (simp add: read_mem_def buffer_plus_def)

lemma write_mem_frame: "x < a \<or> a + length bs \<le> x \<Longrightarrow> write_mem a bs m x = m x"
  by (auto simp: write_mem_def)

lemma read_mem_write_other:
  assumes "a + length bs \<le> base b \<or> base b + len b \<le> a \<or> length bs = 0 \<or> len b = 0"
  shows "read_mem (write_mem a bs m) b = read_mem m b"
  using assms by (auto simp: read_mem_def write_mem_def)

lemma read_mem_write_same:
  "length bs \<le> len b \<Longrightarrow>
     read_mem (write_mem (base b) bs m) b = bs @ drop (length bs) (read_mem m b)"
  by (rule nth_equalityI) (auto simp: read_mem_def write_mem_def nth_append)

lemma scatter_Nil [simp]: "scatter ds [] m = m"
  by (induction ds arbitrary: m) (auto simp: write_mem_def fun_eq_iff)

lemma scatter_frame: "\<forall>d \<in> set ds. x \<notin> addresses d \<Longrightarrow> scatter ds bs m x = m x"
proof (induction ds arbitrary: bs m)
  case (Cons d ds)
  then have "write_mem (base d) (take (len d) bs) m x = m x"
    by (intro write_mem_frame) (auto simp: addresses_def)
  with Cons show ?case by simp
qed simp

lemma read_mem_scatter_other:
  assumes "\<forall>c \<in> set ds. base b + len b \<le> base c \<or> base c + len c \<le> base b \<or> len b = 0 \<or> len c = 0"
  shows "read_mem (scatter ds bs m) b = read_mem m b"
proof -
  have "scatter ds bs m (base b + i) = m (base b + i)" if "i < len b" for i
    using that assms by (intro scatter_frame) (force simp: addresses_def)
  then show ?thesis by (simp add: read_mem_def)
qed

lemma gather_write_other:
  assumes "\<forall>c \<in> set ds. a + length bs \<le> base c \<or> base c + len c \<le> a \<or> length bs = 0 \<or> len c = 0"
  shows "gather (write_mem a bs m) ds = gather m ds"
  using assms by (induction ds) (auto simp: read_mem_write_other)

lemma gather_scatter:
  assumes "disjoint_buffers ds"
  shows "gather (scatter ds bs m) ds = take (buffer_size ds) bs @ drop (length bs) (gather m ds)"
  using assms
proof (induction ds arbitrary: bs m)
  case (Cons d ds)
  let ?m = "write_mem (base d) (take (len d) bs) m"
  from Cons.prems have sep: "\<forall>c \<in> set ds. base d + len d \<le> base c \<or> base c + len c \<le> base d
      \<or> len d = 0 \<or> len c = 0" and dis: "disjoint_buffers ds" by auto
  have 1: "read_mem (scatter ds (drop (len d) bs) ?m) d
      = take (len d) bs @ drop (length bs) (read_mem m d)"
    using sep by (simp add: read_mem_scatter_other read_mem_write_same min_def)
  have 2: "gather ?m ds = gather m ds"
    using sep by (intro gather_write_other) auto
  from Cons.IH [OF dis, of "drop (len d) bs" ?m] show ?case
    using 1 2 by (cases "length bs \<le> len d") (simp_all add: take_add)
qed simp

text \<open>The contract of \<open>buffer_copy\<close>, after the Asio documentation.\<close>

locale asio_buffer_copy =
  fixes copy :: copier
  assumes copy_count: "fst (copy ds ss m) = min (buffer_size ds) (length (concat ss))"
    and copy_bytes: "disjoint_buffers ds \<Longrightarrow>
      take (fst (copy ds ss m)) (gather (snd (copy ds ss m)) ds) = take (fst (copy ds ss m)) (concat ss)"
    and copy_frame: "\<forall>d \<in> set ds. x \<notin> addresses d \<Longrightarrow> snd (copy ds ss m) x = m x"
begin

text \<open>The loop of \<open>on_receive\<close> with nothing left to copy.\<close>

lemma receive_into_empty:
  assumes "receive_into copy ds [] t m = (t', r, m')"
  shows "t' = t" and "r = None" and "\<forall>d \<in> set ds. x \<notin> addresses d \<Longrightarrow> m' x = m x"
proof -
  have "t' = t \<and> r = None \<and> ((\<forall>d \<in> set ds. x \<notin> addresses d) \<longrightarrow> m' x = m x)"
    using assms
  proof (induction ds arbitrary: t m)
    case (Cons d ds)
    obtain m1 where 1: "copy [d] [[]] m = (0, m1)"
      using copy_count [of "[d]" "[[]]" m] by (cases "copy [d] [[]] m") simp
    with Cons.prems have "receive_into copy ds [] t m1 = (t', r, m')" by simp
    from Cons.IH [OF this] show ?case using copy_frame [of "[d]" x "[[]]" m] 1 by auto
  qed simp
  then show "t' = t" "r = None" "\<forall>d \<in> set ds. x \<notin> addresses d \<Longrightarrow> m' x = m x" by auto
qed

lemma receive_into_bytes:
  assumes "receive_into copy (d # ds) src 0 m = (tot, rest, m')" and "disjoint_buffers (d # ds)"
  shows "take tot (read_mem m' d) = take tot src"
proof -
  obtain c m1 where c: "copy [d] [src] m = (c, m1)" by (cases "copy [d] [src] m")
  have bytes: "take c (read_mem m1 d) = take c src" and count: "c = min (len d) (length src)"
    using copy_bytes [of "[d]" "[src]" m] copy_count [of "[d]" "[src]" m] c by simp_all
  show ?thesis
  proof (cases "drop c src = []")
    case False
    with assms(1) c bytes show ?thesis by auto
  next
    case True
    with assms(1) c have "receive_into copy ds [] c m1 = (tot, rest, m')" by simp
    note e = receive_into_empty [OF this]
    have "m' (base d + i) = m1 (base d + i)" if "i < len d" for i
      by (rule e(3)) (use assms(2) that in \<open>force simp: addresses_def\<close>)
    then have "read_mem m' d = read_mem m1 d" by (simp add: read_mem_def)
    with bytes e(1) show ?thesis by simp
  qed
qed

lemma receive_into_first:
  assumes "receive_into copy (d # ds) src 0 m = (tot, rest, m')"
  shows "tot = min (len d) (length src)"
    and "(case rest of None \<Rightarrow> [] | Some r \<Rightarrow> r) = drop tot src"
    and "rest = None \<longleftrightarrow> tot = length src"
proof -
  have empty: "receive_into copy ds' [] t m0 = (t', r', m1) \<Longrightarrow> t' = t \<and> r' = None"
    for ds' t m0 t' r' m1
    using receive_into_empty(1,2) by blast
  have "fst (copy [d] [src] m) = min (len d) (length src)"
    using copy_count [of "[d]" "[src]" m] by simp
  with assms empty show "tot = min (len d) (length src)"
    and "(case rest of None \<Rightarrow> [] | Some r \<Rightarrow> r) = drop tot src"
    and "rest = None \<longleftrightarrow> tot = length src"
    by (auto split: prod.splits if_splits dest!: empty)
qed

end

interpretation ref_copy: asio_buffer_copy copy_buffers
proof
  fix ds ss m
  show "fst (copy_buffers ds ss m) = min (buffer_size ds) (length (concat ss))"
    by (simp add: copy_buffers_def)
  show "take (fst (copy_buffers ds ss m)) (gather (snd (copy_buffers ds ss m)) ds)
      = take (fst (copy_buffers ds ss m)) (concat ss)" if "disjoint_buffers ds"
    using that by (simp add: copy_buffers_def gather_scatter min_def)
  show "snd (copy_buffers ds ss m) x = m x" if "\<forall>d \<in> set ds. x \<notin> addresses d" for x
    using that by (simp add: copy_buffers_def scatter_frame)
qed


section \<open>Lemmas on the receive queue\<close>

lemma queue_content_simps [simp]:
  "queue_content [] = []" "queue_content (b # q) = buf_view b @ queue_content q"
  "queue_content (q @ r) = queue_content q @ queue_content r"
  by (simp_all add: queue_content_def)

lemma queue_ok_simps [simp]:
  "queue_ok []" "queue_ok (b # q) \<longleftrightarrow> consumed b \<le> length (bytes b) \<and> queue_ok q"
  "queue_ok (q @ r) \<longleftrightarrow> queue_ok q \<and> queue_ok r"
  by (simp_all add: queue_ok_def)

lemma const_buffers_ok: "queue_ok q \<Longrightarrow> const_buffers q = Inr (map buf_view q)"
  by (induction q) (simp_all add: queue_ok_def)

lemma const_buffers_Inr [simp]: "const_buffers q = Inr vs \<longleftrightarrow> queue_ok q \<and> vs = map buf_view q"
  by (induction q arbitrary: vs) (auto simp: and_then_Inr_iff queue_ok_def)

lemma length_buf_view [simp]: "length (buf_view b) = length (bytes b) - consumed b"
  by (simp add: buf_view_def)

lemma consume_ok:
  assumes "queue_ok q" and "r \<le> length (queue_content q)"
  shows "\<exists>q'. consume r q = Inr q' \<and> queue_ok q' \<and> queue_content q' = drop r (queue_content q)"
  using assms
proof (induction r q rule: consume.induct)
  case (2 r b q)
  show ?case
  proof (cases "r = 0 \<or> length (bytes b) - consumed b \<le> r")
    case True
    with 2 show ?thesis by auto
  next
    case False
    with 2 have "buf_view (b\<lparr>consumed := consumed b + r\<rparr>) = drop r (buf_view b)"
      by (simp add: buf_view_def add.commute)
    with False 2 show ?thesis by auto
  qed
qed simp

text \<open>The contract of a queue of bytes, and the receive queue as its provider.\<close>

locale byte_fifo =
  fixes ok :: "'q \<Rightarrow> bool"
    and content :: "'q \<Rightarrow> byte list"
    and push :: "byte list \<Rightarrow> 'q \<Rightarrow> 'q"
    and pop :: "nat \<Rightarrow> 'q \<Rightarrow> 'q result"
  assumes push_ok: "ok q \<Longrightarrow> ok (push bs q)"
    and push_content: "ok q \<Longrightarrow> content (push bs q) = content q @ bs"
    and pop_ok: "ok q \<Longrightarrow> n \<le> length (content q) \<Longrightarrow>
      \<exists>q'. pop n q = Inr q' \<and> ok q' \<and> content q' = drop n (content q)"
begin

lemma pop_InrD:
  assumes "ok q" and "n \<le> length (content q)" and "pop n q = Inr q'"
  shows "ok q'" and "content q = take n (content q) @ content q'"
  using pop_ok [OF assms(1,2)] assms(3) by auto

end

interpretation rx_fifo: byte_fifo queue_ok queue_content queue_push consume
  by unfold_locales (auto simp: queue_push_def new_buf_def buf_view_def consume_ok)

end
