(* ===== verification/Environment.thy ===== *)
theory Environment
  imports Handlers Sockaddr Signals Buffers
begin

text \<open>
  What surrounds the library: libutp, the UDP sockets of Boost.Asio or of the user
  (\<open>abstract_udp_socket\<close>, \<open>src/include/asio_utp/udp_socket.hpp\<close>), the user's completion
  functions and signal slots, the host ABI. None of it is part of the sources, so all of it
  is one argument of the model, a record \<open>env\<close> of functions.

  A call into libutp (\<open>utp\<close>) takes the whole state and returns it changed: libutp calls the
  library back before it returns, and those callbacks are part of what the call does to the
  state. The theory Callbacks closes that loop for a libutp that acts through callbacks only.
  Functions that only report something of the outside (\<open>udp_send\<close>, \<open>udp_available\<close>, ...)
  read the state; \<open>calls\<close>, the history of what the library asked of the outside, lets their
  answers differ over time.
\<close>

section \<open>Calls to the outside\<close>

text \<open>A pointer argument that the code reads from a member and may be null is an option.\<close>

datatype utp_call =
    utp_destroy nat                                   \<comment> \<open>of a context\<close>
  | utp_create_socket nat                             \<comment> \<open>in a context; returns a socket\<close>
  | utp_connect nat "cell list" nat                   \<comment> \<open>socket, address, address size\<close>
  | utp_write "nat option" "byte list"                \<comment> \<open>returns the bytes accepted\<close>
  | utp_close nat
  | utp_read_drained "nat option"
  | utp_process_udp nat "byte list" "cell list" nat   \<comment> \<open>context, datagram, source\<close>
  | utp_issue_deferred_acks nat
  | utp_check_timeouts nat

datatype ext_call =
    AsyncReceiveFrom nat                       \<comment> \<open>of the UDP socket of a multiplexer\<close>
  | CancelSocket nat
  | ImmediateSendTo nat "byte list" endpoint
  | AsyncSendTo nat "byte list" endpoint
  | TimerWait nat nat                          \<comment> \<open>ticker of a context, milliseconds\<close>
  | TimerCancel nat

record sys_world = io +
  mem :: memory                          \<comment> \<open>the user's memory\<close>
  userdata :: "nat \<Rightarrow> nat option"        \<comment> \<open>\<open>utp_get_userdata\<close> of a libutp socket\<close>
  calls :: "ext_call list"               \<comment> \<open>latest first\<close>

datatype slot_fn = Slot nat   \<comment> \<open>a function connected to \<open>on_send_to\<close>\<close>

record 'w env =
  utp :: "utp_call \<Rightarrow> 'w \<Rightarrow> (int \<times> 'w) result"
  user :: "user_fn \<Rightarrow> error_code \<Rightarrow> nat list \<Rightarrow> 'w \<Rightarrow> 'w result"
  inline :: "'w \<Rightarrow> bool"                 \<comment> \<open>\<open>asio::dispatch\<close> runs its argument at once\<close>
  slot :: "slot_fn \<Rightarrow> byte list \<Rightarrow> nat \<Rightarrow> endpoint \<Rightarrow> error_code \<Rightarrow> 'w \<Rightarrow> 'w result"
  udp_open :: "endpoint \<Rightarrow> 'w \<Rightarrow> error_code"                   \<comment> \<open>for the protocol of the endpoint\<close>
  udp_bind :: "endpoint \<Rightarrow> 'w \<Rightarrow> endpoint \<times> error_code"        \<comment> \<open>and the endpoint it is bound to\<close>
  udp_send :: "nat \<Rightarrow> byte list \<Rightarrow> endpoint \<Rightarrow> 'w \<Rightarrow> nat \<times> error_code"
  udp_available :: "nat \<Rightarrow> 'w \<Rightarrow> nat"
  udp_cancel :: "nat \<Rightarrow> 'w \<Rightarrow> error_code"
  udp_is_open :: "nat \<Rightarrow> 'w \<Rightarrow> bool"
  utp_init :: "nat \<Rightarrow> 'w \<Rightarrow> bool"           \<comment> \<open>the libutp context of a new context is not null\<close>
  getpeername :: "nat \<Rightarrow> nat \<Rightarrow> 'w \<Rightarrow> int \<times> byte list"
  buffer_copy :: copier
  host_abi :: host
  reallocates :: "nat \<Rightarrow> nat \<Rightarrow> bool"     \<comment> \<open>a vector that grew from one size to another moved its elements\<close>
  emission_bound :: nat                  \<comment> \<open>how many slots one emission of a signal calls at most\<close>

definition log_call :: "ext_call \<Rightarrow> 'a sys_world_scheme \<Rightarrow> 'a sys_world_scheme" where
  "log_call c w = w\<lparr>calls := c # calls w\<rparr>"

definition utp_do :: "'w env \<Rightarrow> utp_call \<Rightarrow> 'w \<Rightarrow> 'w result" where
  "utp_do E c w = and_then (utp E c w) (\<lambda>(r, w). Inr w)"

lemma log_call_frame [simp]:
  "posted (log_call c w) = posted w" "mem (log_call c w) = mem w"
  "userdata (log_call c w) = userdata w"
  by (simp_all add: log_call_def)

lemma keeps_utp_do: "keeps_val R (utp E c) \<Longrightarrow> keeps R (utp_do E c)"
  by (rule keepsI) (auto simp: utp_do_def and_then_Inr_iff dest: keeps_valD)

end
