(* ===== verification/Mux_Impl.thy ===== *)
theory Mux_Impl
  imports Environment
begin

text \<open>
  \<open>udp_multiplexer_impl\<close>, from \<open>src/src/udp_multiplexer_impl.hpp\<close> and \<open>.cpp\<close>: one UDP socket
  whose datagrams go to every registered receive entry.

  Multiplexers are addressed by numbers. A multiplexer is shared by the sockets and
  user-facing multiplexers that use it: \<open>life\<close> keeps the use count of its \<open>shared_ptr\<close>, and
  \<open>alive\<close> is what locking a weak pointer to it reports. Its \<open>_context\<close> is created with it and
  has the same number. A \<open>recv_entry\<close> belongs to a context or to the state of a user-facing multiplexer.
  \<open>recv_handlers\<close> is the member list; \<open>flushing\<close> is the local list of the same name inside
  \<open>flush_handlers\<close>, which is part of the state because entries in it can be unlinked while
  the handlers run. Besides the members the record keeps what the UDP socket reports
  (\<open>local_endpoint\<close>, fixed while it is bound) and \<open>rx_ops\<close>, the number of receive operations the UDP
  socket has outstanding. \<open>rx_buffer\<close> is the part of the receive buffer that has been written.
\<close>

section \<open>State\<close>

datatype entry_ref = ctx_entry nat | state_entry nat

datatype recv_fn = context_on_read nat | state_handle_read nat

record recv_entry =
  re_multiplexer :: "nat option"
  re_handler :: "recv_fn option"

datatype ownership = not_created | shared_by nat | destroyed

record mux_impl =
  life :: ownership
  recv_handlers :: "entry_ref list"
  flushing :: "entry_ref list"
  send_to_signal :: "slot_fn signal"
  rx_endpoint :: endpoint
  rx_buffer :: "byte list"
  is_receiving :: bool
  local_endpoint :: endpoint
  rx_ops :: nat

record mux_world = sys_world +
  muxes :: "nat \<Rightarrow> mux_impl"
  entries :: "entry_ref \<Rightarrow> recv_entry"
  multiplexers :: "endpoint \<Rightarrow> nat option"    \<comment> \<open>\<open>service::_multiplexers\<close>\<close>

definition alive :: "mux_impl \<Rightarrow> bool" where
  "alive x = (case life x of shared_by n \<Rightarrow> True | _ \<Rightarrow> False)"

definition rx_buffer_size :: nat where
  "rx_buffer_size = 65537"

definition upd_mux :: "nat \<Rightarrow> (mux_impl \<Rightarrow> mux_impl) \<Rightarrow> 'a mux_world_scheme \<Rightarrow> 'a mux_world_scheme"
  where "upd_mux m f w = w\<lparr>muxes := (muxes w)(m := f (muxes w m))\<rparr>"

definition upd_entry ::
  "entry_ref \<Rightarrow> (recv_entry \<Rightarrow> recv_entry) \<Rightarrow> 'a mux_world_scheme \<Rightarrow> 'a mux_world_scheme"
  where "upd_entry e f w = w\<lparr>entries := (entries w)(e := f (entries w e))\<rparr>"

text \<open>\<open>hook.is_linked()\<close>: in one of the lists of the multiplexer it was registered with.\<close>

definition hook_linked :: "entry_ref \<Rightarrow> 'a mux_world_scheme \<Rightarrow> bool" where
  "hook_linked e w =
     (case re_multiplexer (entries w e) of None \<Rightarrow> False
      | Some m \<Rightarrow> e \<in> set (recv_handlers (muxes w m)) \<or> e \<in> set (flushing (muxes w m)))"


section \<open>Operations\<close>

definition new_mux :: "endpoint \<Rightarrow> mux_impl" where
  "new_mux ep =
     \<lparr>life = shared_by 1, recv_handlers = [], flushing = [], send_to_signal = empty_signal,
      rx_endpoint = ep, rx_buffer = [],
      is_receiving = False, local_endpoint = ep, rx_ops = 0\<rparr>"

text \<open>
  A strong reference is taken (a copy of the \<open>shared_ptr\<close>, or a successful \<open>lock\<close>) and given
  up; when the last one is given up the multiplexer is destroyed. \<open>with_lock\<close> is a scope
  that starts with \<open>if (auto m = wptr.lock())\<close>; what giving up the reference at its end does
  is an argument (\<open>mux_drop\<close> of the theory Context). The other uses of \<open>lock\<close> in the sources
  cannot hold the last reference when their scope ends, as no code of the user runs in them;
  they only test \<open>alive\<close>.
\<close>

definition take_ref :: "mux_impl \<Rightarrow> mux_impl" where
  "take_ref x = x\<lparr>life := (case life x of shared_by n \<Rightarrow> shared_by (Suc n) | l \<Rightarrow> l)\<rparr>"

definition drop_ref :: "mux_impl \<Rightarrow> mux_impl" where
  "drop_ref x = x\<lparr>life := (case life x of
     shared_by n \<Rightarrow> if n \<le> 1 then destroyed else shared_by (n - 1) | l \<Rightarrow> l)\<rparr>"

definition with_lock ::
  "(nat \<Rightarrow> 'a mux_world_scheme \<Rightarrow> 'a mux_world_scheme result) \<Rightarrow> nat
     \<Rightarrow> ('a mux_world_scheme \<Rightarrow> 'a mux_world_scheme result)
     \<Rightarrow> 'a mux_world_scheme \<Rightarrow> 'a mux_world_scheme result" where
  "with_lock release m body =
     guarded (\<lambda>w. alive (muxes w m))
       (steps [\<lambda>w. Inr (upd_mux m take_ref w), body, release m])"

definition mux_start_receiving :: "nat \<Rightarrow> 'a mux_world_scheme \<Rightarrow> 'a mux_world_scheme result" where
  "mux_start_receiving m =
     steps [assert_that ''!_is_receiving'' (\<lambda>w. \<not> is_receiving (muxes w m)),
            \<lambda>w. Inr (upd_mux m (\<lambda>x. x\<lparr>is_receiving := True, rx_ops := Suc (rx_ops x)\<rparr>)
                       (log_call (AsyncReceiveFrom m) w))]"

definition register_recv_handler ::
  "nat \<Rightarrow> entry_ref \<Rightarrow> 'a mux_world_scheme \<Rightarrow> 'a mux_world_scheme result" where
  "register_recv_handler m e =
     steps [assert_that ''safe_link'' (\<lambda>w. \<not> hook_linked e w),
            \<lambda>w. Inr (upd_mux m (\<lambda>x. x\<lparr>recv_handlers := recv_handlers x @ [e]\<rparr>)
                       (upd_entry e (\<lambda>r. r\<lparr>re_multiplexer := Some m\<rparr>) w)),
            guarded (\<lambda>w. \<not> is_receiving (muxes w m)) (mux_start_receiving m)]"

definition on_recv_entry_unlinked ::
  "('a mux_world_scheme) env \<Rightarrow> nat \<Rightarrow> 'a mux_world_scheme \<Rightarrow> 'a mux_world_scheme result" where
  "on_recv_entry_unlinked E m =
     guarded (\<lambda>w. is_receiving (muxes w m) \<and> recv_handlers (muxes w m) = [])
       (guarded (\<lambda>w. udp_is_open E m w)
         (\<lambda>w. if udp_cancel E m w = no_error then Inr (log_call (CancelSocket m) w)
              else Inl (AssertFailed ''!ec'')))"

definition hook_unlink :: "nat \<Rightarrow> entry_ref \<Rightarrow> 'a mux_world_scheme \<Rightarrow> 'a mux_world_scheme" where
  "hook_unlink m e =
     upd_mux m (\<lambda>x. x\<lparr>recv_handlers := removeAll e (recv_handlers x),
                      flushing := removeAll e (flushing x)\<rparr>)"

definition entry_unlink ::
  "('a mux_world_scheme) env \<Rightarrow> entry_ref \<Rightarrow> 'a mux_world_scheme \<Rightarrow> 'a mux_world_scheme result" where
  "entry_unlink E e w =
     (case re_multiplexer (entries w e) of
        None \<Rightarrow> Inr w
      | Some m \<Rightarrow>
          if \<not> alive (muxes w m) then Inr w
          else if hook_linked e w then on_recv_entry_unlinked E m (hook_unlink m e w)
          else Inr w)"

text \<open>
  The loop of \<open>flush_handlers\<close>. A handler that runs can unlink entries that are still in the
  local list, so the list is read again in each round; \<open>n\<close> bounds the rounds and
  \<open>flush_handlers\<close> passes the length of the list (the theory Flushing).
\<close>

type_synonym 'w recv_fun = "recv_fn \<Rightarrow> error_code \<Rightarrow> endpoint \<Rightarrow> byte list \<Rightarrow> 'w \<Rightarrow> 'w result"

fun flush_loop ::
  "('a mux_world_scheme) recv_fun \<Rightarrow> nat \<Rightarrow> nat \<Rightarrow> error_code \<Rightarrow> nat
     \<Rightarrow> 'a mux_world_scheme \<Rightarrow> 'a mux_world_scheme result" where
  "flush_loop call 0 m ec sz w =
     (if flushing (muxes w m) = [] then Inr w else Inl NestingExceeded)"
| "flush_loop call (Suc n) m ec sz w =
     (case flushing (muxes w m) of
        [] \<Rightarrow> Inr w
      | e # es \<Rightarrow>
          (case re_handler (entries w e) of
             None \<Rightarrow> Inl (AssertFailed ''e.handler'')
           | Some f \<Rightarrow>
               and_then
                 (call f ec (rx_endpoint (muxes w m)) (take sz (rx_buffer (muxes w m)))
                   (upd_mux m (\<lambda>x. x\<lparr>flushing := es\<rparr>) w))
                 (flush_loop call n m ec sz)))"

definition flush_handlers ::
  "('a mux_world_scheme) recv_fun \<Rightarrow> nat \<Rightarrow> error_code \<Rightarrow> nat
     \<Rightarrow> 'a mux_world_scheme \<Rightarrow> 'a mux_world_scheme result" where
  "flush_handlers call m ec sz w =
     (let sz = (if ec = no_error then sz else 0);
          hs = recv_handlers (muxes w m)
      in flush_loop call (length hs) m ec sz
           (upd_mux m (\<lambda>x. x\<lparr>recv_handlers := [], flushing := hs\<rparr>) w))"

text \<open>
  The completion of \<open>async_receive_from\<close>: the UDP socket has stored the datagram \<open>data\<close> and
  its sender in \<open>_state\<close>, and runs the lambda of \<open>start_receiving\<close>.
\<close>

definition mux_received :: "nat \<Rightarrow> byte list \<Rightarrow> endpoint \<Rightarrow> 'a mux_world_scheme \<Rightarrow> 'a mux_world_scheme"
  where
  "mux_received m dgram ep =
     upd_mux m (\<lambda>x. x\<lparr>rx_ops := rx_ops x - 1, rx_endpoint := ep,
                      rx_buffer := dgram @ drop (length dgram) (rx_buffer x)\<rparr>)"

definition mux_on_receive ::
  "('a mux_world_scheme) env \<Rightarrow> (nat \<Rightarrow> 'a mux_world_scheme \<Rightarrow> 'a mux_world_scheme result) \<Rightarrow> ('a mux_world_scheme) recv_fun \<Rightarrow> nat \<Rightarrow> error_code \<Rightarrow> byte list \<Rightarrow> endpoint
     \<Rightarrow> 'a mux_world_scheme \<Rightarrow> 'a mux_world_scheme result" where
  "mux_on_receive E release call m ec dgram ep w =
     with_lock release m
       (steps
         [assert_that ''_is_receiving'' (\<lambda>w. is_receiving (muxes w m)),
          guarded (\<lambda>w. \<not> (ec = operation_aborted \<and> udp_is_open E m w))
            (flush_handlers call m ec (length dgram)),
          \<lambda>w. Inr (upd_mux m (\<lambda>x. x\<lparr>is_receiving := False\<rparr>) w),
          guarded (\<lambda>w. recv_handlers (muxes w m) \<noteq> []) (mux_start_receiving m)])
       (mux_received m dgram ep w)"

definition mux_send_to ::
  "('a mux_world_scheme) env \<Rightarrow> nat \<Rightarrow> byte list \<Rightarrow> endpoint
     \<Rightarrow> 'a mux_world_scheme \<Rightarrow> ((nat \<times> error_code) \<times> 'a mux_world_scheme) result" where
  "mux_send_to E m bs dst w =
     (case udp_send E m bs dst w of (sent, ec) \<Rightarrow>
        and_then
          (emit (\<lambda>w. send_to_signal (muxes w m)) (\<lambda>f. slot E f bs sent dst ec) (emission_bound E)
            (log_call (ImmediateSendTo m bs dst) w))
          (\<lambda>w. Inr ((sent, ec), w)))"

definition mux_on_send_to ::
  "nat \<Rightarrow> nat \<Rightarrow> slot_fn \<Rightarrow> 'a mux_world_scheme \<Rightarrow> 'a mux_world_scheme" where
  "mux_on_send_to m c f = upd_mux m (\<lambda>x. x\<lparr>send_to_signal := connect c f (send_to_signal x)\<rparr>)"

definition mux_available :: "('a mux_world_scheme) env \<Rightarrow> nat \<Rightarrow> 'a mux_world_scheme \<Rightarrow> nat" where
  "mux_available E m w = udp_available E m w"

text \<open>\<open>to_hex\<close>, used by the debug log.\<close>

definition hex_chars :: string where
  "hex_chars = ''0123456789abcdef''"

definition to_hex :: "byte list \<Rightarrow> string" where
  "to_hex bs = concat (map (\<lambda>ch.
     [hex_chars ! unat (and (drop_bit 4 ch) 15), hex_chars ! unat (and ch 15)]) bs)"

section \<open>Lemmas\<close>

text \<open>The inverse of \<open>to_hex\<close>.\<close>

fun hex_value :: "char \<Rightarrow> 8 word" where
  "hex_value c = (let n = of_char c in if n < 58 then n - 48 else n - 87)"

fun from_hex :: "string \<Rightarrow> byte list" where
  "from_hex (a # b # s) = or (push_bit 4 (hex_value a)) (hex_value b) # from_hex s"
| "from_hex s = []"

lemma hex_value_char:
  assumes "n < 16"
  shows "hex_value (hex_chars ! n) = of_nat n"
proof -
  have "n \<in> set [0..<16]" using assms by simp
  moreover have "\<forall>n \<in> set [0..<16]. hex_value (hex_chars ! n) = of_nat n" by code_simp
  ultimately show ?thesis by blast
qed

lemma low_nibble: "(15 :: byte) = mask 4"
  by (simp add: mask_eq_exp_minus_1)

lemma nibble_bound: "unat (and x 15 :: byte) < 16"
proof -
  have "unat (take_bit 4 x) < 2 ^ 4" by (simp only: unsigned_take_bit_eq take_bit_nat_less_exp)
  then show ?thesis unfolding low_nibble by (simp add: take_bit_eq_mask)
qed

lemma nibbles: "or (push_bit 4 (and (drop_bit 4 x) 15)) (and x 15) = (x :: byte)"
  unfolding low_nibble
  by (rule bit_word_eqI)
     (auto simp: bit_or_iff bit_and_iff bit_push_bit_iff bit_drop_bit_eq bit_mask_iff)

text \<open>
  \<open>to_hex\<close> prints two characters per byte and loses nothing: reading the hexadecimal
  digits back gives the bytes.
\<close>

lemma to_hex_roundtrip: "length (to_hex bs) = 2 * length bs \<and> from_hex (to_hex bs) = bs"
proof (induction bs)
  case (Cons b bs)
  have "or (push_bit 4 (hex_value (hex_chars ! unat (and (drop_bit 4 b) 15))))
      (hex_value (hex_chars ! unat (and b 15))) = b"
    using nibbles [of b] by (simp add: hex_value_char nibble_bound del: hex_value.simps)
  with Cons show ?case by (simp add: to_hex_def del: hex_value.simps)
qed (simp add: to_hex_def)

end
