(* ===== verification/Ticker.thy ===== *)
theory Ticker
  imports Prelude
begin

text \<open>
  The periodic timer of a context, \<open>context::ticker_type\<close> of \<open>src/src/context.cpp\<close>.
  \<open>waits\<close> is the state of the \<open>steady_timer\<close> that matters: how many \<open>async_wait\<close>
  operations it has not completed yet. \<open>ticker_on_wait\<close> is the function handed to
  \<open>async_wait\<close>; the ticker sits in a larger state, so it takes the access functions of the
  ticker in that state, the \<open>lock\<close> of the weak pointer to the multiplexer, and \<open>_on_tick\<close>.
\<close>

section \<open>The ticker\<close>

record ticker =
  running :: bool
  outstanding :: bool
  waits :: nat

definition new_ticker :: ticker where
  "new_ticker = \<lparr>running = False, outstanding = False, waits = 0\<rparr>"

definition ticker_start :: "ticker \<Rightarrow> ticker" where
  "ticker_start t =
     (if running t then t
      else if outstanding t then t\<lparr>running := True\<rparr>
      else t\<lparr>running := True, outstanding := True, waits := Suc (waits t)\<rparr>)"

text \<open>Whether \<open>start\<close> arms the timer: \<open>expires_after(500ms)\<close> and \<open>async_wait\<close>.\<close>

definition ticker_arms :: "ticker \<Rightarrow> bool" where
  "ticker_arms t \<longleftrightarrow> \<not> running t \<and> \<not> outstanding t"

definition ticker_stop :: "ticker \<Rightarrow> ticker" where
  "ticker_stop t = (if running t then t\<lparr>running := False\<rparr> else t)"

definition ticker_on_wait ::
  "('w \<Rightarrow> ticker) \<Rightarrow> ((ticker \<Rightarrow> ticker) \<Rightarrow> 'w \<Rightarrow> 'w) \<Rightarrow> ('w \<Rightarrow> bool) \<Rightarrow> ('w \<Rightarrow> 'w result)
     \<Rightarrow> ('w \<Rightarrow> 'w result) \<Rightarrow> 'w \<Rightarrow> 'w result" where
  "ticker_on_wait get upd lock on_tick start w =
     (let w = upd (\<lambda>t. t\<lparr>waits := waits t - 1, outstanding := False\<rparr>) w;
          w = (if lock w then w else upd (\<lambda>t. t\<lparr>running := False\<rparr>) w)
      in if \<not> running (get w) then Inr w
         else and_then (on_tick w) (\<lambda>w.
           if \<not> running (get w) then Inr w
           else start (upd (\<lambda>t. t\<lparr>running := False\<rparr>) w)))"

text \<open>At most one wait is pending and \<open>_outstanding\<close> says whether one is.\<close>

definition ticker_mid :: "ticker \<Rightarrow> bool" where
  "ticker_mid t \<longleftrightarrow> waits t = (if outstanding t then 1 else 0)"

text \<open>Outside the timer function a running ticker has its next tick pending.\<close>

definition ticker_ok :: "ticker \<Rightarrow> bool" where
  "ticker_ok t \<longleftrightarrow> ticker_mid t \<and> (running t \<longrightarrow> outstanding t)"

text \<open>
  The ticker alone, as a state machine: the context starts and stops it, the timer expires
  with the multiplexer alive or not, and \<open>_on_tick\<close> starts and stops it in turn.
\<close>

datatype ticker_op = Start | Stop

fun ticker_do :: "ticker_op \<Rightarrow> ticker \<Rightarrow> ticker" where
  "ticker_do Start t = ticker_start t"
| "ticker_do Stop t = ticker_stop t"

definition ticker_expire :: "bool \<Rightarrow> ticker_op list \<Rightarrow> ticker \<Rightarrow> ticker result" where
  "ticker_expire mux_alive ops =
     ticker_on_wait (\<lambda>t. t) (\<lambda>f. f) (\<lambda>_. mux_alive) (\<lambda>t. Inr (fold ticker_do ops t))
       (\<lambda>t. Inr (ticker_start t))"

inductive ticker_reachable :: "ticker \<Rightarrow> bool" where
  reach_new: "ticker_reachable new_ticker"
| reach_do: "ticker_reachable t \<Longrightarrow> ticker_reachable (ticker_do op t)"
| reach_expire: "ticker_reachable t \<Longrightarrow> waits t > 0 \<Longrightarrow> ticker_expire b ops t = Inr t'
     \<Longrightarrow> ticker_reachable t'"


section \<open>Lemmas\<close>

lemma ticker_mid_do: "ticker_mid t \<Longrightarrow> ticker_mid (ticker_do op t)"
  by (cases op) (auto simp: ticker_mid_def ticker_start_def ticker_stop_def)

lemma ticker_mid_fold: "ticker_mid t \<Longrightarrow> ticker_mid (fold ticker_do ops t)"
  by (induction ops arbitrary: t) (auto intro: ticker_mid_do)

lemma ticker_ok_mid: "ticker_ok t \<Longrightarrow> ticker_mid t"
  by (simp add: ticker_ok_def)

lemma ticker_ok_do: "ticker_ok t \<Longrightarrow> ticker_ok (ticker_do op t)"
  by (cases op) (auto simp: ticker_ok_def ticker_mid_def ticker_start_def ticker_stop_def)

lemma ticker_ok_start: "ticker_ok t \<Longrightarrow> ticker_ok (ticker_start t)"
  and ticker_ok_stop: "ticker_ok t \<Longrightarrow> ticker_ok (ticker_stop t)"
  using ticker_ok_do [of t Start] ticker_ok_do [of t Stop] by simp_all

lemma ticker_start_after_tick: "ticker_mid t \<Longrightarrow> ticker_ok (ticker_start (t\<lparr>running := False\<rparr>))"
  by (simp add: ticker_ok_def ticker_mid_def ticker_start_def)

lemma ticker_stopped_ok: "ticker_mid t \<Longrightarrow> \<not> running t \<Longrightarrow> ticker_ok t"
  by (simp add: ticker_ok_def)

lemma ticker_expire_ok:
  assumes "ticker_ok t" and "waits t > 0" and "ticker_expire b ops t = Inr t'"
  shows "ticker_ok t'"
proof -
  let ?t = "t\<lparr>waits := waits t - 1, outstanding := False, running := running t \<and> b\<rparr>"
  have mid: "ticker_mid ?t" using assms(1,2)
    by (auto simp: ticker_ok_def ticker_mid_def split: if_splits)
  then have fold: "ticker_mid (fold ticker_do ops ?t)" by (rule ticker_mid_fold)
  have eq: "?t = (let u = t\<lparr>waits := waits t - 1, outstanding := False\<rparr>
      in if b then u else u\<lparr>running := False\<rparr>)"
    by (cases t) (auto simp: Let_def)
  from assms(3) consider "\<not> running ?t" "t' = ?t"
    | "t' = fold ticker_do ops ?t" "\<not> running t'"
    | "t' = ticker_start ((fold ticker_do ops ?t)\<lparr>running := False\<rparr>)"
    unfolding ticker_expire_def ticker_on_wait_def Let_def eq
    by (cases b) (auto split: if_splits)
  then show ?thesis
    by cases (use mid fold in \<open>auto intro: ticker_stopped_ok ticker_start_after_tick\<close>)
qed

lemma ticker_reachable_ok: "ticker_reachable t \<Longrightarrow> ticker_ok t"
proof (induction rule: ticker_reachable.induct)
  case reach_new
  show ?case by (simp add: ticker_ok_def ticker_mid_def new_ticker_def)
next
  case reach_do
  then show ?case by (simp add: ticker_ok_do)
next
  case reach_expire
  then show ?case by (blast intro: ticker_expire_ok)
qed

section \<open>Properties\<close>

text \<open>
  However the context starts and stops the ticker and whenever the timer expires, the
  timer never has more than one wait pending, and a running ticker has exactly one: it keeps
  ticking and never ticks twice in a period.
\<close>

lemma ticker_one_wait:
  assumes "ticker_reachable t"
  shows "waits t \<le> 1 \<and> (running t \<longrightarrow> waits t = 1)"
  using ticker_reachable_ok [OF assms] by (simp add: ticker_ok_def ticker_mid_def)

end
