(* ===== verification/Context.thy ===== *)
theory Context
  imports Mux_Impl Ticker
begin

text \<open>
  \<open>context\<close>, from \<open>src/src/context.hpp\<close> and \<open>.cpp\<close>: the libutp context of a multiplexer, its
  registered and accepting sockets, the ticker, and the count of outstanding operations that
  decides whether the context listens on the multiplexer. The weak pointer \<open>_multiplexer\<close> of
  context number \<open>c\<close> is to the multiplexer number \<open>c\<close>, which created it. The static callbacks that libutp
  invokes need the sockets and are in the theory Callbacks.

  \<open>outstanding_op_count\<close> is a \<open>size_t\<close>: the wrap-around of a decrement at zero is written
  out. The wrap-around of an increment would need \<open>2 ^ 64\<close> operations outstanding at once,
  each of which owns memory, and is left out.
\<close>

section \<open>State\<close>

record context_t =
  ctx_local_endpoint :: endpoint
  utp_ctx :: bool                       \<comment> \<open>\<open>_utp_ctx\<close> is not null\<close>
  registered_sockets :: "nat list"
  accepting_sockets :: "nat list"
  ticking :: ticker
  outstanding_op_count :: nat

record ctx_world = mux_world +
  ctxs :: "nat \<Rightarrow> context_t"

definition upd_ctx :: "nat \<Rightarrow> (context_t \<Rightarrow> context_t) \<Rightarrow> 'a ctx_world_scheme \<Rightarrow> 'a ctx_world_scheme"
  where "upd_ctx c f w = w\<lparr>ctxs := (ctxs w)(c := f (ctxs w c))\<rparr>"

text \<open>\<open>_multiplexer.lock()\<close>\<close>

definition mux_locked :: "nat \<Rightarrow> 'a ctx_world_scheme \<Rightarrow> bool" where
  "mux_locked c w \<longleftrightarrow> alive (muxes w c)"

definition size_t_decrement :: "nat \<Rightarrow> nat" where
  "size_t_decrement n = (if n = 0 then 2 ^ 64 - 1 else n - 1)"


section \<open>Operations\<close>

definition new_context :: "endpoint \<Rightarrow> context_t" where
  "new_context ep =
     \<lparr>ctx_local_endpoint = ep, utp_ctx = True, registered_sockets = [],
      accepting_sockets = [], ticking = new_ticker, outstanding_op_count = 0\<rparr>"

definition ctx_ticker_start :: "nat \<Rightarrow> 'a ctx_world_scheme \<Rightarrow> 'a ctx_world_scheme result" where
  "ctx_ticker_start c w =
     Inr (upd_ctx c (\<lambda>x. x\<lparr>ticking := ticker_start (ticking x)\<rparr>)
       (if ticker_arms (ticking (ctxs w c)) then log_call (TimerWait c 500) w else w))"

definition ctx_ticker_stop :: "nat \<Rightarrow> 'a ctx_world_scheme \<Rightarrow> 'a ctx_world_scheme result" where
  "ctx_ticker_stop c w =
     Inr (upd_ctx c (\<lambda>x. x\<lparr>ticking := ticker_stop (ticking x)\<rparr>)
       (if running (ticking (ctxs w c)) then log_call (TimerCancel c) w else w))"

definition register_socket :: "nat \<Rightarrow> nat \<Rightarrow> 'a ctx_world_scheme \<Rightarrow> 'a ctx_world_scheme result" where
  "register_socket c s w =
     Inr (upd_ctx c (\<lambda>x. x\<lparr>registered_sockets := registered_sockets x @ [s]\<rparr>) w)"

definition add_accepting_socket ::
  "nat \<Rightarrow> nat \<Rightarrow> 'a ctx_world_scheme \<Rightarrow> 'a ctx_world_scheme result" where
  "add_accepting_socket c s =
     steps [assert_that ''safe_link'' (\<lambda>w. s \<notin> set (accepting_sockets (ctxs w c))),
            \<lambda>w. Inr (upd_ctx c (\<lambda>x. x\<lparr>accepting_sockets := accepting_sockets x @ [s]\<rparr>) w)]"

definition ctx_start_receiving :: "nat \<Rightarrow> 'a ctx_world_scheme \<Rightarrow> 'a ctx_world_scheme result" where
  "ctx_start_receiving c =
     guarded (mux_locked c)
       (steps
         [assert_that ''_recv_handle.handler'' (\<lambda>w. re_handler (entries w (ctx_entry c)) \<noteq> None),
          ctx_ticker_start c,
          guarded (\<lambda>w. \<not> hook_linked (ctx_entry c) w)
            (register_recv_handler c (ctx_entry c))])"

definition ctx_stop_receiving ::
  "('a ctx_world_scheme) env \<Rightarrow> nat \<Rightarrow> 'a ctx_world_scheme \<Rightarrow> 'a ctx_world_scheme result" where
  "ctx_stop_receiving E c = steps [ctx_ticker_stop c, entry_unlink E (ctx_entry c)]"

definition increment_outstanding_ops ::
  "nat \<Rightarrow> 'a ctx_world_scheme \<Rightarrow> 'a ctx_world_scheme result" where
  "increment_outstanding_ops c w =
     (let n = outstanding_op_count (ctxs w c);
          w = upd_ctx c (\<lambda>x. x\<lparr>outstanding_op_count := n + 1\<rparr>) w
      in if n = 0 then ctx_start_receiving c w else Inr w)"

definition decrement_outstanding_ops ::
  "('a ctx_world_scheme) env \<Rightarrow> nat \<Rightarrow> 'a ctx_world_scheme \<Rightarrow> 'a ctx_world_scheme result" where
  "decrement_outstanding_ops E c w =
     (let n = size_t_decrement (outstanding_op_count (ctxs w c));
          w = upd_ctx c (\<lambda>x. x\<lparr>outstanding_op_count := n\<rparr>) w
      in if n = 0 then ctx_stop_receiving E c w else Inr w)"

definition run_after ::
  "('a ctx_world_scheme) env \<Rightarrow> after_fn \<Rightarrow> 'a ctx_world_scheme \<Rightarrow> 'a ctx_world_scheme result" where
  "run_after E k = (case k of decrement_of c \<Rightarrow> decrement_outstanding_ops E c)"

definition ctx_close ::
  "('a ctx_world_scheme) env \<Rightarrow> nat \<Rightarrow> 'a ctx_world_scheme \<Rightarrow> 'a ctx_world_scheme result" where
  "ctx_close E c =
     steps
       [guarded (\<lambda>w. utp_ctx (ctxs w c))
          (steps [utp_do E (utp_destroy c), \<lambda>w. Inr (upd_ctx c (\<lambda>x. x\<lparr>utp_ctx := False\<rparr>) w)]),
        ctx_stop_receiving E c]"

text \<open>
  The destructor of \<open>udp_multiplexer_impl\<close>, run when the last strong reference is given up:
  the service forgets the multiplexer, the context is closed, and destroying the list of
  receive entries unlinks them.
\<close>

definition erase_multiplexer :: "endpoint \<Rightarrow> 'a mux_world_scheme \<Rightarrow> 'a mux_world_scheme result" where
  "erase_multiplexer ep w = Inr (w\<lparr>multiplexers := (multiplexers w)(ep := None)\<rparr>)"

definition mux_destroy ::
  "('a ctx_world_scheme) env \<Rightarrow> nat \<Rightarrow> 'a ctx_world_scheme \<Rightarrow> 'a ctx_world_scheme result" where
  "mux_destroy E m =
     steps
       [\<lambda>w. erase_multiplexer (local_endpoint (muxes w m)) w,
        ctx_close E m,
        \<lambda>w. Inr (upd_mux m (\<lambda>x. x\<lparr>recv_handlers := []\<rparr>) w)]"

definition mux_drop ::
  "('a ctx_world_scheme) env \<Rightarrow> nat \<Rightarrow> 'a ctx_world_scheme \<Rightarrow> 'a ctx_world_scheme result" where
  "mux_drop E m w =
     (let last = alive (muxes w m);
          w = upd_mux m drop_ref w
      in if last \<and> \<not> alive (muxes w m) then mux_destroy E m w else Inr w)"

text \<open>\<open>on_read\<close>, the receive handler of the context; \<open>read_ec\<close> is not used by the code.\<close>

definition issue_acks_if_idle ::
  "('a ctx_world_scheme) env \<Rightarrow> nat \<Rightarrow> 'a ctx_world_scheme \<Rightarrow> 'a ctx_world_scheme result" where
  "issue_acks_if_idle E c =
     guarded (\<lambda>w. mux_available E c w = 0)
       (utp_do E (utp_issue_deferred_acks c))"

definition ctx_on_read ::
  "('a ctx_world_scheme) env \<Rightarrow> nat \<Rightarrow> error_code \<Rightarrow> endpoint \<Rightarrow> byte list
     \<Rightarrow> 'a ctx_world_scheme \<Rightarrow> 'a ctx_world_scheme result" where
  "ctx_on_read E c read_ec ep bs =
     with_lock (mux_drop E) c
       (steps
         [issue_acks_if_idle E c,
          \<lambda>w. and_then (to_sockaddr (host_abi E) ep) (\<lambda>src_addr.
              and_then (sockaddr_size (host_abi E) src_addr) (\<lambda>sz.
                utp_do E (utp_process_udp c bs src_addr sz) w)),
          issue_acks_if_idle E c,
          guarded (\<lambda>w. outstanding_op_count (ctxs w c) \<noteq> 0) (ctx_start_receiving c)])"

definition ctx_on_tick ::
  "('a ctx_world_scheme) env \<Rightarrow> nat \<Rightarrow> 'a ctx_world_scheme \<Rightarrow> 'a ctx_world_scheme result" where
  "ctx_on_tick E c =
     steps [assert_that ''_utp_ctx'' (\<lambda>w. utp_ctx (ctxs w c)),
            utp_do E (utp_check_timeouts c)]"

text \<open>The function the timer runs when a wait of the context's ticker completes.\<close>

definition ctx_on_timer ::
  "('a ctx_world_scheme) env \<Rightarrow> nat \<Rightarrow> 'a ctx_world_scheme \<Rightarrow> 'a ctx_world_scheme result" where
  "ctx_on_timer E c =
     ticker_on_wait (\<lambda>w. ticking (ctxs w c)) (\<lambda>f. upd_ctx c (\<lambda>x. x\<lparr>ticking := f (ticking x)\<rparr>))
       (mux_locked c) (ctx_on_tick E c) (ctx_ticker_start c)"

end
