(* ===== verification/Socket_Impl.thy ===== *)
theory Socket_Impl
  imports Context
begin

text \<open>
  \<open>socket_impl\<close>, from \<open>src/src/socket_impl.hpp\<close> and \<open>.cpp\<close>: the state of one uTP socket, the
  operations the user starts on it and the events libutp delivers to it.

  Sockets are addressed by numbers. A \<open>socket_impl\<close> that has been bound is owned by its
  context, which it owns in turn, so it is never destroyed: looking one up does not fail and
  its number is not used again (\<open>allocated\<close>). The four members
  \<open>_connect_handler\<close>, \<open>_accept_handler\<close>, \<open>_send_handler\<close>, \<open>_recv_handler\<close> are one field
  \<open>handlers\<close> indexed by the kind of operation. The user-facing \<open>asio_utp::socket\<close> objects are
  in the state too (\<open>fronts\<close>), since \<open>close_with_error\<close> clears a member of its owner.
\<close>

section \<open>State\<close>

datatype op_kind = op_connect | op_accept | op_send | op_recv

record socket_impl =
  allocated :: bool                \<comment> \<open>an object was constructed under this number\<close>
  utp_socket :: "nat option"
  owner :: "nat option"
  closed :: bool
  got_eof :: bool
  sock_context :: nat
  handlers :: "op_kind \<Rightarrow> handler"
  bytes_sent :: nat
  tx_buffers :: "buffer list"
  rx_buffer_queue :: "buf_t list"
  rx_buffers :: "buffer list"
  decrement_close :: bool

record socket =
  impl :: "nat option"             \<comment> \<open>\<open>_socket_impl\<close>\<close>
  multiplexer :: "nat option"      \<comment> \<open>\<open>_multiplexer\<close>\<close>

record sock_world = ctx_world +
  socks :: "nat \<Rightarrow> socket_impl"
  fronts :: "nat \<Rightarrow> socket"

definition upd_sock ::
  "nat \<Rightarrow> (socket_impl \<Rightarrow> socket_impl) \<Rightarrow> 'a sock_world_scheme \<Rightarrow> 'a sock_world_scheme"
  where "upd_sock s f w = w\<lparr>socks := (socks w)(s := f (socks w s))\<rparr>"

definition upd_front :: "nat \<Rightarrow> (socket \<Rightarrow> socket) \<Rightarrow> 'a sock_world_scheme \<Rightarrow> 'a sock_world_scheme"
  where "upd_front o' f w = w\<lparr>fronts := (fronts w)(o' := f (fronts w o'))\<rparr>"

definition set_handler ::
  "nat \<Rightarrow> op_kind \<Rightarrow> handler \<Rightarrow> 'a sock_world_scheme \<Rightarrow> 'a sock_world_scheme" where
  "set_handler s k h = upd_sock s (\<lambda>x. x\<lparr>handlers := (handlers x)(k := h)\<rparr>)"

abbreviation handler_of :: "nat \<Rightarrow> op_kind \<Rightarrow> 'a sock_world_scheme \<Rightarrow> handler" where
  "handler_of s k w \<equiv> handlers (socks w s) k"

definition is_open :: "nat \<Rightarrow> 'a sock_world_scheme \<Rightarrow> bool" where
  "is_open s w \<longleftrightarrow> \<not> closed (socks w s)"


section \<open>Operations\<close>

definition new_socket_impl :: "nat \<Rightarrow> nat \<Rightarrow> socket_impl" where
  "new_socket_impl o' c =
     \<lparr>allocated = True, utp_socket = None, owner = Some o', closed = False, got_eof = False, sock_context = c,
      handlers = (\<lambda>_. None), bytes_sent = 0, tx_buffers = [], rx_buffer_queue = [],
      rx_buffers = [], decrement_close = False\<rparr>"

definition setup_op ::
  "nat \<Rightarrow> op_kind \<Rightarrow> handler \<Rightarrow> 'a sock_world_scheme \<Rightarrow> 'a sock_world_scheme result" where
  "setup_op s k h w =
     and_then (increment_outstanding_ops (sock_context (socks w s)) w) (\<lambda>w.
     and_then (exec_after h (decrement_of (sock_context (socks w s)))) (\<lambda>h.
       Inr (set_handler s k h w)))"

text \<open>\<open>post_op\<close> and \<open>dispatch_op\<close>: the handler is moved out of its member and completed.\<close>

definition post_op ::
  "nat \<Rightarrow> op_kind \<Rightarrow> error_code \<Rightarrow> nat list \<Rightarrow> 'a sock_world_scheme \<Rightarrow> 'a sock_world_scheme result"
  where
  "post_op s k ec args w = handler_post (handler_of s k w) ec args (set_handler s k None w)"

definition dispatch_op ::
  "('a sock_world_scheme) env \<Rightarrow> nat \<Rightarrow> op_kind \<Rightarrow> error_code \<Rightarrow> nat list
     \<Rightarrow> 'a sock_world_scheme \<Rightarrow> 'a sock_world_scheme result" where
  "dispatch_op E s k ec args w =
     handler_dispatch (inline E) (run_work (user E) (run_after E)) (handler_of s k w) ec args
       (set_handler s k None w)"

definition on_connect :: "nat \<Rightarrow> 'a sock_world_scheme \<Rightarrow> 'a sock_world_scheme result" where
  "on_connect s = post_op s op_connect no_error []"

definition on_receive ::
  "('a sock_world_scheme) env \<Rightarrow> nat \<Rightarrow> byte list \<Rightarrow> 'a sock_world_scheme \<Rightarrow> 'a sock_world_scheme result"
  where
  "on_receive E s bs w =
     (if handler_of s op_recv w = None
      then Inr (upd_sock s (\<lambda>x. x\<lparr>rx_buffer_queue := queue_push bs (rx_buffer_queue x)\<rparr>) w)
      else
        and_then
          (assert_that ''_rx_buffer_queue.empty()'' (\<lambda>w. rx_buffer_queue (socks w s) = []) w)
          (\<lambda>w. case receive_into (buffer_copy E) (rx_buffers (socks w s)) bs 0 (mem w) of
             (tot, rest, m) \<Rightarrow>
               steps
                 [\<lambda>w. Inr (w\<lparr>mem := m\<rparr>),
                  \<lambda>w. Inr (case rest of None \<Rightarrow> w
                    | Some r \<Rightarrow>
                        upd_sock s (\<lambda>x. x\<lparr>rx_buffer_queue := queue_push r (rx_buffer_queue x)\<rparr>) w),
                  guarded (\<lambda>w. tot = length bs)
                    (\<lambda>w. utp_do E (utp_read_drained (utp_socket (socks w s))) w),
                  post_op s op_recv no_error [tot]] w))"

definition on_accept ::
  "('a sock_world_scheme) env \<Rightarrow> nat \<Rightarrow> nat \<Rightarrow> 'a sock_world_scheme \<Rightarrow> 'a sock_world_scheme result"
  where
  "on_accept E s usocket =
     steps
       [assert_that ''!_utp_socket'' (\<lambda>w. utp_socket (socks w s) = None),
        assert_that ''_accept_handler'' (\<lambda>w. handler_of s op_accept w \<noteq> None),
        \<lambda>w. Inr (upd_sock s (\<lambda>x. x\<lparr>utp_socket := Some usocket\<rparr>)
                   (w\<lparr>userdata := (userdata w)(usocket := Some s)\<rparr>)),
        dispatch_op E s op_accept no_error []]"

text \<open>
  \<open>close_with_error\<close>. The handlers are completed in the order of the code; \<open>post_if\<close> is the
  repeated \<open>if (_x_handler) post_op(_x_handler, ...)\<close>.
\<close>

definition post_if ::
  "nat \<Rightarrow> op_kind \<Rightarrow> error_code \<Rightarrow> nat list \<Rightarrow> 'a sock_world_scheme \<Rightarrow> 'a sock_world_scheme result"
  where
  "post_if s k ec args = guarded (\<lambda>w. handler_of s k w \<noteq> None) (post_op s k ec args)"

definition detach_owner :: "nat \<Rightarrow> 'a sock_world_scheme \<Rightarrow> 'a sock_world_scheme result" where
  "detach_owner s w =
     (case owner (socks w s) of None \<Rightarrow> Inr w
      | Some o' \<Rightarrow> Inr (upd_sock s (\<lambda>x. x\<lparr>owner := None\<rparr>) (upd_front o' (\<lambda>f. f\<lparr>impl := None\<rparr>) w)))"

definition close_utp ::
  "('a sock_world_scheme) env \<Rightarrow> nat \<Rightarrow> nat \<Rightarrow> 'a sock_world_scheme \<Rightarrow> 'a sock_world_scheme result"
  where
  "close_utp E s us =
     steps
       [utp_do E (utp_close us),
        detach_owner s,
        assert_that ''!_decrement_close'' (\<lambda>w. \<not> decrement_close (socks w s)),
        \<lambda>w. increment_outstanding_ops (sock_context (socks w s)) w,
        \<lambda>w. Inr (upd_sock s (\<lambda>x. x\<lparr>decrement_close := True\<rparr>) w)]"

definition close_with_error ::
  "('a sock_world_scheme) env \<Rightarrow> error_code \<Rightarrow> nat \<Rightarrow> 'a sock_world_scheme \<Rightarrow> 'a sock_world_scheme result"
  where
  "close_with_error E ec s w =
     (if closed (socks w s) then
        steps
          [assert_that ''!_accept_handler'' (\<lambda>w. handler_of s op_accept w = None),
           assert_that ''!_connect_handler'' (\<lambda>w. handler_of s op_connect w = None),
           assert_that ''!_recv_handler'' (\<lambda>w. handler_of s op_recv w = None),
           assert_that ''!_send_handler'' (\<lambda>w. handler_of s op_send w = None)] w
      else
        steps
          [\<lambda>w. Inr (upd_sock s (\<lambda>x. x\<lparr>closed := True\<rparr>) w),
           post_if s op_accept ec [],
           post_if s op_connect ec [],
           post_if s op_recv ec [0],
           post_if s op_send ec [0],
           \<lambda>w. case utp_socket (socks w s) of
                 None \<Rightarrow> Inr w
               | Some us \<Rightarrow> if got_eof (socks w s) then Inr w else close_utp E s us w] w)"

definition sock_close ::
  "('a sock_world_scheme) env \<Rightarrow> nat \<Rightarrow> 'a sock_world_scheme \<Rightarrow> 'a sock_world_scheme result" where
  "sock_close E s = close_with_error E operation_aborted s"

definition on_eof :: "nat \<Rightarrow> 'a sock_world_scheme \<Rightarrow> 'a sock_world_scheme result" where
  "on_eof s =
     steps
       [assert_that ''!_got_eof'' (\<lambda>w. \<not> got_eof (socks w s)),
        \<lambda>w. Inr (upd_sock s (\<lambda>x. x\<lparr>got_eof := True\<rparr>) w),
        post_if s op_recv connection_reset [0]]"

definition on_destroy ::
  "('a sock_world_scheme) env \<Rightarrow> nat \<Rightarrow> 'a sock_world_scheme \<Rightarrow> 'a sock_world_scheme result" where
  "on_destroy E s =
     steps
       [assert_that ''_utp_socket'' (\<lambda>w. utp_socket (socks w s) \<noteq> None),
        \<lambda>w. Inr (upd_sock s (\<lambda>x. x\<lparr>utp_socket := None\<rparr>) w),
        close_with_error E connection_aborted s,
        guarded (\<lambda>w. decrement_close (socks w s))
          (steps
            [\<lambda>w. decrement_outstanding_ops E (sock_context (socks w s)) w,
             \<lambda>w. Inr (upd_sock s (\<lambda>x. x\<lparr>decrement_close := False\<rparr>) w)])]"

text \<open>
  The loops of \<open>do_write\<close>. \<open>write_buffer\<close> is the inner one, over the buffer at index \<open>i\<close> of
  \<open>_tx_buffers\<close>: each round offers the rest of the buffer to libutp and stores the advanced
  buffer back; it returns \<open>still_writable\<close>. A round that goes on has made the buffer shorter.
\<close>

definition wrote ::
  "nat \<Rightarrow> nat \<Rightarrow> buffer \<Rightarrow> nat \<Rightarrow> 'a sock_world_scheme \<Rightarrow> 'a sock_world_scheme" where
  "wrote s i b n =
     upd_sock s (\<lambda>x. x\<lparr>bytes_sent := bytes_sent x + n, tx_buffers := (tx_buffers x)[i := b]\<rparr>)"

function write_buffer ::
  "('a sock_world_scheme) env \<Rightarrow> nat \<Rightarrow> nat \<Rightarrow> buffer
     \<Rightarrow> 'a sock_world_scheme \<Rightarrow> (bool \<times> 'a sock_world_scheme) result" where
  "write_buffer E s i b w =
     (if len b = 0 then Inr (True, w)
      else and_then (utp E (utp_write (utp_socket (socks w s)) (read_mem (mem w) b)) w) (\<lambda>(r, w').
        if r < 0 then Inl (AssertFailed ''w >= 0'')
        else if nat r < len b - nat r then Inr (False, wrote s i (buffer_plus b (nat r)) (nat r) w')
        else write_buffer E s i (buffer_plus b (nat r)) (wrote s i (buffer_plus b (nat r)) (nat r) w')))"
  by pat_completeness auto
termination
  by (relation "measure (\<lambda>(E, s, i, b, w). len b)") auto

declare write_buffer.simps [simp del]

fun write_buffers ::
  "('a sock_world_scheme) env \<Rightarrow> nat \<Rightarrow> nat \<Rightarrow> buffer list
     \<Rightarrow> 'a sock_world_scheme \<Rightarrow> (bool \<times> 'a sock_world_scheme) result" where
  "write_buffers E s i [] w = Inr (True, w)"
| "write_buffers E s i (b # bs) w =
     and_then (write_buffer E s i b w) (\<lambda>(still_writable, w).
       if \<not> still_writable then Inr (False, w) else write_buffers E s (Suc i) bs w)"

definition sock_do_write ::
  "('a sock_world_scheme) env \<Rightarrow> nat \<Rightarrow> handler \<Rightarrow> 'a sock_world_scheme \<Rightarrow> 'a sock_world_scheme result"
  where
  "sock_do_write E s h w =
     and_then (assert_that ''!_send_handler'' (\<lambda>w. handler_of s op_send w = None) w) (\<lambda>w.
       case utp_socket (socks w s) of
         None \<Rightarrow> handler_post h bad_descriptor [0] w
       | Some us \<Rightarrow>
           and_then (setup_op s op_send h w) (\<lambda>w.
           and_then (write_buffers E s 0 (tx_buffers (socks w s)) w) (\<lambda>(still_writable, w).
             if still_writable then
               and_then (post_op s op_send no_error [bytes_sent (socks w s)] w)
                 (\<lambda>w. Inr (upd_sock s (\<lambda>x. x\<lparr>bytes_sent := 0\<rparr>) w))
             else Inr w)))"

definition on_writable ::
  "('a sock_world_scheme) env \<Rightarrow> nat \<Rightarrow> 'a sock_world_scheme \<Rightarrow> 'a sock_world_scheme result" where
  "on_writable E s w =
     (if handler_of s op_send w = None then Inr w
      else sock_do_write E s (handler_of s op_send w) (set_handler s op_send None w))"

definition sock_do_read ::
  "('a sock_world_scheme) env \<Rightarrow> nat \<Rightarrow> handler \<Rightarrow> 'a sock_world_scheme \<Rightarrow> 'a sock_world_scheme result"
  where
  "sock_do_read E s h w =
     and_then (assert_that ''!_recv_handler'' (\<lambda>w. handler_of s op_recv w = None) w) (\<lambda>w.
       if \<not> is_open s w then handler_post h bad_descriptor [0] w
       else if buffer_size (rx_buffers (socks w s)) = 0 then handler_post h no_error [0] w
       else
         and_then (setup_op s op_recv h w) (\<lambda>w.
           if rx_buffer_queue (socks w s) = [] then
             (if got_eof (socks w s) then close_with_error E connection_reset s w else Inr w)
           else
             and_then (const_buffers (rx_buffer_queue (socks w s))) (\<lambda>views.
               (case buffer_copy E (rx_buffers (socks w s)) views (mem w) of
                  (n, m) \<Rightarrow>
                    and_then (consume n (rx_buffer_queue (socks w s))) (\<lambda>q.
                      post_op s op_recv no_error [n]
                        (upd_sock s (\<lambda>x. x\<lparr>rx_buffer_queue := q\<rparr>) (w\<lparr>mem := m\<rparr>)))))))"

definition sock_do_accept ::
  "nat \<Rightarrow> handler \<Rightarrow> 'a sock_world_scheme \<Rightarrow> 'a sock_world_scheme result" where
  "sock_do_accept s h =
     steps
       [assert_that ''!_accept_handler'' (\<lambda>w. handler_of s op_accept w = None),
        \<lambda>w. add_accepting_socket (sock_context (socks w s)) s w,
        setup_op s op_accept h]"

definition sock_do_connect ::
  "('a sock_world_scheme) env \<Rightarrow> nat \<Rightarrow> endpoint \<Rightarrow> handler
     \<Rightarrow> 'a sock_world_scheme \<Rightarrow> 'a sock_world_scheme result" where
  "sock_do_connect E s ep h =
     steps
       [assert_that ''!_utp_socket'' (\<lambda>w. utp_socket (socks w s) = None),
        setup_op s op_connect h,
        \<lambda>w. and_then (to_sockaddr (host_abi E) ep) (\<lambda>addr.
            and_then (utp E (utp_create_socket (sock_context (socks w s))) w) (\<lambda>(us, w).
            let w = upd_sock s (\<lambda>x. x\<lparr>utp_socket := Some (nat us)\<rparr>) w;
                w = w\<lparr>userdata := (userdata w)(nat us := Some s)\<rparr>
            in and_then (sockaddr_size (host_abi E) addr) (\<lambda>sz.
                 utp_do E (utp_connect (nat us) addr sz) w)))]"

definition sock_local_endpoint :: "nat \<Rightarrow> 'a sock_world_scheme \<Rightarrow> endpoint" where
  "sock_local_endpoint s w = ctx_local_endpoint (ctxs w (sock_context (socks w s)))"

text \<open>
  \<open>remote_endpoint\<close>: the local \<open>struct sockaddr\<close> has 16 bytes; libutp writes at most that
  many of the peer's address into it.
\<close>

definition sock_remote_endpoint ::
  "('a sock_world_scheme) env \<Rightarrow> nat \<Rightarrow> 'a sock_world_scheme \<Rightarrow> endpoint result" where
  "sock_remote_endpoint E s w =
     (case utp_socket (socks w s) of
        None \<Rightarrow> Inl (AssertFailed ''_utp_socket'')
      | Some us \<Rightarrow>
          (case getpeername E us 16 w of (res, bs) \<Rightarrow>
             if res \<noteq> 0 then Inl (AssertFailed ''!result'')
             else to_endpoint (host_abi E) (memcpy (indeterminate 16) (cells bs))))"

text \<open>The destructor. A bound socket is kept by its context, so it runs for no such socket.\<close>

definition socket_impl_destroy ::
  "('a sock_world_scheme) env \<Rightarrow> nat \<Rightarrow> 'a sock_world_scheme \<Rightarrow> 'a sock_world_scheme result" where
  "socket_impl_destroy E s =
     steps
       [\<lambda>w. Inr (case utp_socket (socks w s) of None \<Rightarrow> w
             | Some us \<Rightarrow> w\<lparr>userdata := (userdata w)(us := None)\<rparr>),
        close_with_error E connection_aborted s]"


section \<open>Lemmas\<close>

lemma set_handler_frame [simp]:
  "posted (set_handler s k h w) = posted w" "ctxs (set_handler s k h w) = ctxs w"
  "mem (set_handler s k h w) = mem w" "muxes (set_handler s k h w) = muxes w"
  "entries (set_handler s k h w) = entries w" "fronts (set_handler s k h w) = fronts w"
  by (simp_all add: set_handler_def upd_sock_def)

end
