(* ===== verification/Callbacks.thy ===== *)
theory Callbacks
  imports Socket_Impl
begin

text \<open>
  The static callbacks of \<open>context\<close> that libutp invokes (\<open>src/src/context.cpp\<close>), and the
  executor's step that runs a posted function. libutp itself is not part of the sources: a
  callback is a value that \<open>run_callback\<close> runs, and who invokes it when is the subject of the
  theory Closure.
\<close>

section \<open>The callbacks\<close>

datatype utp_state =
    UTP_STATE_CONNECT
  | UTP_STATE_WRITABLE
  | UTP_STATE_EOF
  | UTP_STATE_DESTROYING
  | UTP_STATE_other int

datatype callback =
    on_sendto nat "byte list" "cell list"    \<comment> \<open>context, datagram, destination\<close>
  | on_error nat nat                         \<comment> \<open>context, libutp socket\<close>
  | on_state_change nat nat utp_state
  | on_read nat "byte list"                  \<comment> \<open>libutp socket, payload\<close>
  | on_firewall nat
  | on_accepted nat nat                      \<comment> \<open>context, libutp socket\<close>

fun libutp_state_name :: "utp_state \<Rightarrow> string" where
  "libutp_state_name UTP_STATE_CONNECT = ''UTP_STATE_CONNECT''"
| "libutp_state_name UTP_STATE_WRITABLE = ''UTP_STATE_WRITABLE''"
| "libutp_state_name UTP_STATE_EOF = ''UTP_STATE_EOF''"
| "libutp_state_name UTP_STATE_DESTROYING = ''UTP_STATE_DESTROYING''"
| "libutp_state_name (UTP_STATE_other n) = ''UNKNOWN''"

text \<open>
  The loop \<open>for (auto& s : self->_registered_sockets)\<close>. Its end is fixed when it starts; a socket
  that is registered while it runs is not visited, but may move the elements of the vector, and
  then the next round reads through a dangling iterator.
\<close>

definition iterator_valid ::
  "('a ctx_world_scheme) env \<Rightarrow> nat \<Rightarrow> nat \<Rightarrow> 'a ctx_world_scheme \<Rightarrow> 'a ctx_world_scheme result" where
  "iterator_valid E c k w =
     (if reallocates E k (length (registered_sockets (ctxs w c))) then Inl DanglingIterator else Inr w)"

definition close_all ::
  "('a sock_world_scheme) env \<Rightarrow> nat \<Rightarrow> error_code \<Rightarrow> 'a sock_world_scheme \<Rightarrow> 'a sock_world_scheme result"
  where
  "close_all E c ec w =
     (let ss = registered_sockets (ctxs w c)
      in steps (map (\<lambda>s w. and_then (iterator_valid E c (length ss) w) (close_with_error E ec s)) ss) w)"

definition callback_sendto ::
  "('a sock_world_scheme) env \<Rightarrow> nat \<Rightarrow> byte list \<Rightarrow> cell list
     \<Rightarrow> 'a sock_world_scheme \<Rightarrow> 'a sock_world_scheme result" where
  "callback_sendto E c buf addr =
     with_lock (mux_drop E) c
       (\<lambda>w. and_then (to_endpoint (host_abi E) addr) (\<lambda>dst.
            and_then (mux_send_to E c buf dst w) (\<lambda>((sent, ec), w).
              if ec = bad_descriptor then Inr w
              else if ec \<noteq> no_error \<and> ec \<noteq> would_block
              then close_all E c ec w
              else Inr w)))"

definition callback_on_error :: "'w \<Rightarrow> 'w result" where
  "callback_on_error w = Inr w"

definition callback_on_state_change ::
  "('a sock_world_scheme) env \<Rightarrow> nat \<Rightarrow> utp_state \<Rightarrow> 'a sock_world_scheme \<Rightarrow> 'a sock_world_scheme result"
  where
  "callback_on_state_change E us st w =
     (case userdata w us of
        None \<Rightarrow> Inr w
      | Some s \<Rightarrow>
          (case st of
             UTP_STATE_CONNECT \<Rightarrow> on_connect s w
           | UTP_STATE_WRITABLE \<Rightarrow> on_writable E s w
           | UTP_STATE_EOF \<Rightarrow> on_eof s w
           | UTP_STATE_DESTROYING \<Rightarrow> on_destroy E s w
           | UTP_STATE_other n \<Rightarrow> Inr w))"

definition callback_on_read ::
  "('a sock_world_scheme) env \<Rightarrow> nat \<Rightarrow> byte list \<Rightarrow> 'a sock_world_scheme \<Rightarrow> 'a sock_world_scheme result"
  where
  "callback_on_read E us buf w =
     (case userdata w us of
        None \<Rightarrow> Inl (AssertFailed ''socket'')
      | Some s \<Rightarrow> on_receive E s buf w)"

definition callback_on_firewall :: "nat \<Rightarrow> 'a ctx_world_scheme \<Rightarrow> int" where
  "callback_on_firewall c w = (if accepting_sockets (ctxs w c) = [] then 1 else 0)"

definition callback_on_accept ::
  "('a sock_world_scheme) env \<Rightarrow> nat \<Rightarrow> nat \<Rightarrow> 'a sock_world_scheme \<Rightarrow> 'a sock_world_scheme result"
  where
  "callback_on_accept E c us w =
     (case accepting_sockets (ctxs w c) of
        [] \<Rightarrow> Inr w
      | s # ss \<Rightarrow> on_accept E s us (upd_ctx c (\<lambda>x. x\<lparr>accepting_sockets := ss\<rparr>) w))"

fun run_callback ::
  "('a sock_world_scheme) env \<Rightarrow> callback \<Rightarrow> 'a sock_world_scheme \<Rightarrow> (int \<times> 'a sock_world_scheme) result"
  where
  "run_callback E (on_sendto c buf addr) w =
     and_then (callback_sendto E c buf addr w) (\<lambda>w. Inr (0, w))"
| "run_callback E (on_error c us) w = and_then (callback_on_error w) (\<lambda>w. Inr (0, w))"
| "run_callback E (on_state_change c us st) w =
     and_then (callback_on_state_change E us st w) (\<lambda>w. Inr (0, w))"
| "run_callback E (on_read us buf) w = and_then (callback_on_read E us buf w) (\<lambda>w. Inr (0, w))"
| "run_callback E (on_firewall c) w = Inr (callback_on_firewall c w, w)"
| "run_callback E (on_accepted c us) w = and_then (callback_on_accept E c us w) (\<lambda>w. Inr (0, w))"


section \<open>The executor\<close>

text \<open>The executor runs the oldest posted function.\<close>

definition run_posted ::
  "('a ctx_world_scheme) env \<Rightarrow> 'a ctx_world_scheme \<Rightarrow> 'a ctx_world_scheme result" where
  "run_posted E w =
     (case posted w of [] \<Rightarrow> Inr w
      | x # xs \<Rightarrow> run_work (user E) (run_after E) x (w\<lparr>posted := xs\<rparr>))"

end
