(* ===== verification/Contracts.thy ===== *)
theory Contracts
  imports Callbacks
begin

text \<open>
  One proof for every relation between the states before and after that the building blocks
  of the library keep: the locale \<open>kept_blocks\<close> lists the building blocks (a handler is
  stored, completed, dispatched; a close begins, ends; plain data changes) and concludes that
  every operation of \<open>socket_impl\<close>, every callback and the destructor of a multiplexer keep the
  relation. \<open>kept_core\<close> is the part that does not mention libutp; \<open>kept_blocks\<close> adds that calls
  into libutp keep the relation.
\<close>

text \<open>
  Updates of a socket that leave handlers, context and the close mark alone and neither open a
  closed socket again nor take back the end of the stream.
\<close>

definition same_ops :: "socket_impl \<Rightarrow> socket_impl \<Rightarrow> bool" where
  "same_ops x y \<longleftrightarrow> handlers y = handlers x \<and> decrement_close y = decrement_close x
     \<and> sock_context y = sock_context x \<and> allocated y = allocated x
     \<and> (closed x \<longrightarrow> closed y) \<and> (got_eof x \<longrightarrow> got_eof y)"

text \<open>The part of \<open>on_destroy\<close> and of \<open>close_with_error\<close> that moves the close mark.\<close>

definition begin_close :: "nat \<Rightarrow> 'a sock_world_scheme \<Rightarrow> 'a sock_world_scheme result" where
  "begin_close s =
     steps
       [assert_that ''!_decrement_close'' (\<lambda>w. \<not> decrement_close (socks w s)),
        \<lambda>w. increment_outstanding_ops (sock_context (socks w s)) w,
        \<lambda>w. Inr (upd_sock s (\<lambda>x. x\<lparr>decrement_close := True\<rparr>) w)]"

definition end_close ::
  "('a sock_world_scheme) env \<Rightarrow> nat \<Rightarrow> 'a sock_world_scheme \<Rightarrow> 'a sock_world_scheme result" where
  "end_close E s =
     guarded (\<lambda>w. decrement_close (socks w s))
       (steps
         [\<lambda>w. decrement_outstanding_ops E (sock_context (socks w s)) w,
          \<lambda>w. Inr (upd_sock s (\<lambda>x. x\<lparr>decrement_close := False\<rparr>) w)])"

text \<open>
  A new operation is stored where none is in progress; \<open>do_connect\<close> alone does not check that
  (it checks that there is no libutp socket).
\<close>

definition start_op ::
  "nat \<Rightarrow> op_kind \<Rightarrow> handler \<Rightarrow> 'a sock_world_scheme \<Rightarrow> 'a sock_world_scheme result" where
  "start_op s k h = guarded (\<lambda>w. k = op_connect \<or> handler_of s k w = None) (setup_op s k h)"

lemma start_op_eq: "k = op_connect \<or> handler_of s k w = None \<Longrightarrow> start_op s k h w = setup_op s k h w"
  by (simp add: start_op_def)

lemma keeps_start: "kept_relation R \<Longrightarrow> keeps R (setup_op s k h) \<Longrightarrow> keeps R (start_op s k h)"
  unfolding start_op_def by (rule kept_relation.keeps_guarded)

definition restart_send :: "nat \<Rightarrow> 'a sock_world_scheme \<Rightarrow> 'a sock_world_scheme result" where
  "restart_send s w =
     setup_op s op_send (handler_of s op_send w) (set_handler s op_send None w)"

text \<open>What \<open>do_write\<close> does once the handler is stored, and a resumed write.\<close>

definition write_tail ::
  "('a sock_world_scheme) env \<Rightarrow> nat \<Rightarrow> 'a sock_world_scheme \<Rightarrow> 'a sock_world_scheme result" where
  "write_tail E s w =
     and_then (write_buffers E s 0 (tx_buffers (socks w s)) w) (\<lambda>(still, w).
       if still then and_then (post_op s op_send no_error [bytes_sent (socks w s)] w)
         (\<lambda>w. Inr (upd_sock s (\<lambda>x. x\<lparr>bytes_sent := 0\<rparr>) w)) else Inr w)"

lemma do_write_eq:
  assumes "handler_of s op_send w = None" and "utp_socket (socks w s) = Some us"
  shows "sock_do_write E s h w = and_then (setup_op s op_send h w) (write_tail E s)"
  using assms by (simp add: sock_do_write_def assert_that_def write_tail_def [abs_def])

lemma on_writable_resumes:
  assumes "handler_of s op_send w \<noteq> None" and "utp_socket (socks w s) = Some us"
  shows "on_writable E s w = and_then (restart_send s w) (write_tail E s)"
  using assms
  by (auto simp add: on_writable_def restart_send_def do_write_eq set_handler_def upd_sock_def)

text \<open>
  Giving up a reference without what the destructor does to the context: the service forgets
  the multiplexer with its last reference.
\<close>

definition release_ref :: "nat \<Rightarrow> 'a mux_world_scheme \<Rightarrow> 'a mux_world_scheme" where
  "release_ref m w =
     (if alive (muxes w m) \<and> \<not> alive (drop_ref (muxes w m))
      then (upd_mux m drop_ref w)\<lparr>multiplexers := (multiplexers w)(local_endpoint (muxes w m) := None)\<rparr>
      else upd_mux m drop_ref w)"

lemma mux_drop_eq:
  "mux_drop E m w =
     (if alive (muxes w m) \<and> \<not> alive (drop_ref (muxes w m))
      then and_then (ctx_close E m (release_ref m w)) (\<lambda>w. Inr (upd_mux m (\<lambda>x. x\<lparr>recv_handlers := []\<rparr>) w))
      else Inr (release_ref m w))"
  by (simp add: mux_drop_def Let_def mux_destroy_def erase_multiplexer_def release_ref_def upd_mux_def
      steps_single drop_ref_def)

lemma release_ref_gone:
  "alive (muxes w m) \<Longrightarrow> \<not> alive (drop_ref (muxes w m)) \<Longrightarrow> life (muxes (release_ref m w) m) = destroyed"
  by (auto simp: release_ref_def alive_def upd_mux_def drop_ref_def split: ownership.splits if_splits)

locale kept_core = kept_relation R
  for R :: "'a sock_world_scheme \<Rightarrow> 'a sock_world_scheme \<Rightarrow> bool" +
  fixes E :: "('a sock_world_scheme) env"
  assumes slot_kept: "keeps R (slot E sl bs n dst ec)"
    and sock_kept: "(\<And>x. same_ops x (f x)) \<Longrightarrow> R w (upd_sock s f w)"
    and front_kept: "(\<And>x. multiplexer (g x) = multiplexer x) \<Longrightarrow> R w (upd_front fr g w)"
    and mem_kept: "R w (w\<lparr>mem := mm\<rparr>)"
    and userdata_kept: "R w (w\<lparr>userdata := u\<rparr>)"
    and log_kept: "R w (log_call xc w)"
    and accepting_kept: "R w (upd_ctx c (\<lambda>x. x\<lparr>accepting_sockets := a\<rparr>) w)"
    and gone_kept: "R w w' \<Longrightarrow> life (muxes w m) = destroyed \<Longrightarrow> life (muxes w' m) = destroyed"
    and lock_kept: "alive (muxes w m) \<Longrightarrow> R (upd_mux m take_ref w) w' \<Longrightarrow> R w (release_ref m w')"
    and utp_ctx_kept: "R w (upd_ctx c (\<lambda>x. x\<lparr>utp_ctx := False\<rparr>) w)"
    and stop_kept: "life (muxes w c) = destroyed \<Longrightarrow> ctx_stop_receiving E c w = Inr w' \<Longrightarrow> R w w'"
    and unlinked_kept: "life (muxes w m) = destroyed \<Longrightarrow> R w (upd_mux m (\<lambda>x. x\<lparr>recv_handlers := []\<rparr>) w)"
    and setup_kept: "keeps R (start_op s k (Some i))"
    and restart_kept: "keeps R (restart_send s)"
    and post_kept: "keeps R (post_op s k ec args)"
    and dispatch_kept: "keeps R (dispatch_op E s op_accept ec args)"
    and begin_close_kept: "keeps R (begin_close s)"
    and end_close_kept: "keeps R (end_close E s)"
    and plain_post_kept: "keeps R (handler_post (new_handler fn) ec args)"

locale kept_blocks = kept_core R E
  for R :: "'a sock_world_scheme \<Rightarrow> 'a sock_world_scheme \<Rightarrow> bool"
    and E :: "('a sock_world_scheme) env" +
  assumes utp_kept: "keeps_val R (utp E uc)"
begin

lemma keeps_sock: "(\<And>x. same_ops x (f x)) \<Longrightarrow> keeps R (\<lambda>w. Inr (upd_sock s f w))"
  by (rule keeps_update) (rule sock_kept)

lemma keeps_do: "keeps R (utp_do E c)"
  by (rule keeps_utp_do) (rule utp_kept)

lemma keeps_post_if: "keeps R (post_if s k ec args)"
  unfolding post_if_def by (intro keeps_intros post_kept)

lemma keeps_on_connect: "keeps R (on_connect s)"
  unfolding on_connect_def by (rule post_kept)

lemma keeps_on_eof: "keeps R (on_eof s)"
  unfolding on_eof_def
  by (auto intro!: keeps_intros keeps_sock keeps_post_if simp: same_ops_def)

lemma keeps_detach: "keeps R (detach_owner s)"
proof (rule keepsI)
  fix w w' :: "'a sock_world_scheme"
  assume "detach_owner s w = Inr w'"
  then show "R w w'"
    by (auto simp: detach_owner_def same_ops_def kept_refl
        intro: kept_trans [OF front_kept sock_kept] split: option.splits)
qed

lemma close_utp_eq:
  "close_utp E s us = steps [utp_do E (utp_close us), detach_owner s, begin_close s]"
  using steps_flatten [of "[utp_do E (utp_close us), detach_owner s]"]
  by (simp add: close_utp_def begin_close_def del: steps.simps)

lemma keeps_close_utp: "keeps R (close_utp E s us)"
  unfolding close_utp_eq by (auto intro!: keeps_intros keeps_do keeps_detach begin_close_kept)

lemma keeps_close_with_error: "keeps R (close_with_error E ec s)"
proof -
  have "keeps R (\<lambda>w. case utp_socket (socks w s) of None \<Rightarrow> Inr w
      | Some us \<Rightarrow> if got_eof (socks w s) then Inr w else close_utp E s us w)"
    by (intro keeps_intros keeps_close_utp)
  then show ?thesis
    unfolding close_with_error_def
    by (intro keeps_if keeps_steps)
       (auto intro!: keeps_assert_that keeps_post_if keeps_sock simp: same_ops_def)
qed

lemma keeps_on_destroy: "keeps R (on_destroy E s)"
  using end_close_kept [of s] unfolding on_destroy_def end_close_def
  by (auto intro!: keeps_steps keeps_assert_that keeps_sock keeps_close_with_error
      simp: same_ops_def)

lemma keeps_on_accept: "keeps R (on_accept E s us)"
proof -
  have "keeps R (\<lambda>w. Inr (upd_sock s (\<lambda>x. x\<lparr>utp_socket := Some us\<rparr>)
      (w\<lparr>userdata := (userdata w)(us := Some s)\<rparr>)))"
    by (rule keeps_update) (rule kept_trans [OF userdata_kept sock_kept], simp add: same_ops_def)
  then show ?thesis
    unfolding on_accept_def by (auto intro!: keeps_steps keeps_assert_that dispatch_kept)
qed

lemma keeps_on_receive: "keeps R (on_receive E s bs)"
proof -
  have rest: "R w (case rest of None \<Rightarrow> w
      | Some r \<Rightarrow> upd_sock s (\<lambda>x. x\<lparr>rx_buffer_queue := queue_push r (rx_buffer_queue x)\<rparr>) w)"
    for rest w
    by (auto simp: kept_refl same_ops_def split: option.split intro: sock_kept)
  have "keeps R (\<lambda>w. utp_do E (utp_read_drained (utp_socket (socks w s))) w)"
    by (rule keeps_arg) (rule keeps_do)
  then have tail: "keeps R (steps
      [\<lambda>w. Inr (w\<lparr>mem := m\<rparr>),
       \<lambda>w. Inr (case rest of None \<Rightarrow> w
         | Some r \<Rightarrow> upd_sock s (\<lambda>x. x\<lparr>rx_buffer_queue := queue_push r (rx_buffer_queue x)\<rparr>) w),
       guarded (\<lambda>w. tot = length bs) (\<lambda>w. utp_do E (utp_read_drained (utp_socket (socks w s))) w),
       post_op s op_recv no_error [tot]])" for m rest tot
    by (auto intro!: keeps_steps keeps_guarded keeps_update mem_kept rest post_kept)
  show ?thesis
  proof (rule keepsI)
    fix w w'
    assume a: "on_receive E s bs w = Inr w'"
    show "R w w'"
    proof (cases "handler_of s op_recv w")
      case None
      with a show ?thesis by (auto simp: on_receive_def same_ops_def intro: sock_kept)
    next
      case (Some i)
      with a obtain tot rest m where "steps
          [\<lambda>w. Inr (w\<lparr>mem := m\<rparr>),
           \<lambda>w. Inr (case rest of None \<Rightarrow> w
             | Some r \<Rightarrow> upd_sock s (\<lambda>x. x\<lparr>rx_buffer_queue := queue_push r (rx_buffer_queue x)\<rparr>) w),
           guarded (\<lambda>w. tot = length bs) (\<lambda>w. utp_do E (utp_read_drained (utp_socket (socks w s))) w),
           post_op s op_recv no_error [tot]] w = Inr w'"
        by (auto simp: on_receive_def assert_that_def simp del: steps.simps
            split: prod.splits if_splits)
      then show ?thesis by (rule keepsD [OF tail])
    qed
  qed
qed

text \<open>The write loops: computation induction along the rounds.\<close>

lemma wrote_kept: "R w (wrote s i b n w)"
  by (auto simp: wrote_def same_ops_def intro: sock_kept)

lemma write_buffer_kept: "write_buffer E s i b w = Inr (r, w') \<Longrightarrow> R w w'"
proof (induction "len b" arbitrary: b w r w' rule: less_induct)
  case less
  show ?case
  proof (cases "len b = 0")
    case True
    with less.prems show ?thesis by (simp add: write_buffer.simps kept_refl)
  next
    case False
    with less.prems obtain n w1 where
      n: "utp E (utp_write (utp_socket (socks w s)) (read_mem (mem w) b)) w = Inr (n, w1)" "\<not> n < 0"
      and rest: "(if nat n < len b - nat n
          then Inr (False, wrote s i (buffer_plus b (nat n)) (nat n) w1)
          else write_buffer E s i (buffer_plus b (nat n))
                 (wrote s i (buffer_plus b (nat n)) (nat n) w1)) = Inr (r, w')"
      by (subst (asm) write_buffer.simps) (auto split: if_splits)
    have step: "R w (wrote s i (buffer_plus b (nat n)) (nat n) w1)"
      using keeps_valD [OF utp_kept n(1)] wrote_kept by (rule kept_trans)
    show ?thesis
    proof (cases "nat n < len b - nat n")
      case True
      with rest step show ?thesis by simp
    next
      case go: False
      with False have "len (buffer_plus b (nat n)) < len b" by simp
      from less.hyps [OF this] go rest step show ?thesis by (auto intro: kept_trans)
    qed
  qed
qed

lemma write_buffers_kept: "write_buffers E s i bs w = Inr (r, w') \<Longrightarrow> R w w'"
proof (induction bs arbitrary: i w)
  case (Cons b bs)
  then show ?case
    by (auto simp: and_then_Inr_iff split: if_splits
        intro: kept_trans dest!: write_buffer_kept)
qed (simp add: kept_refl)

lemma write_tail_kept: "keeps R (write_tail E s)"
proof -
  have "keeps_val R (\<lambda>w. write_buffers E s 0 (tx_buffers (socks w s)) w)"
    by (rule keeps_valI) (rule write_buffers_kept)
  moreover have "keeps R (\<lambda>w. post_op s op_send no_error [bytes_sent (socks w s)] w)"
    by (rule keepsI) (rule keepsD [OF post_kept])
  then have "keeps R (\<lambda>w. if still then
      and_then (post_op s op_send no_error [bytes_sent (socks w s)] w)
        (\<lambda>w. Inr (upd_sock s (\<lambda>x. x\<lparr>bytes_sent := 0\<rparr>) w)) else Inr w)" for still
    by (intro keeps_if keeps_and_then keeps_Inr keeps_sock) (simp_all add: same_ops_def)
  ultimately show ?thesis
    unfolding write_tail_def by (rule keeps_and_then_val)
qed

lemma keeps_do_write: "keeps R (sock_do_write E s (new_handler fn))"
proof (rule keepsI)
  fix w w' :: "'a sock_world_scheme"
  assume a: "sock_do_write E s (new_handler fn) w = Inr w'"
  then have h: "handler_of s op_send w = None" by (auto simp: sock_do_write_def and_then_Inr_iff)
  show "R w w'"
  proof (cases "utp_socket (socks w s)")
    case None
    with a have "handler_post (new_handler fn) bad_descriptor [0] w = Inr w'"
      by (auto simp: sock_do_write_def and_then_Inr_iff)
    then show ?thesis by (rule keepsD [OF plain_post_kept])
  next
    case (Some us)
    have "keeps R (\<lambda>w. and_then (start_op s op_send (new_handler fn) w) (write_tail E s))"
      unfolding new_handler_def by (intro keeps_and_then setup_kept write_tail_kept)
    then show ?thesis using a do_write_eq [OF h Some] by (simp add: keeps_def start_op_eq h)
  qed
qed

lemma keeps_on_writable: "keeps R (on_writable E s)"
proof (rule keepsI)
  fix w w' :: "'a sock_world_scheme"
  assume a: "on_writable E s w = Inr w'"
  consider "handler_of s op_send w = None"
    | "handler_of s op_send w \<noteq> None" "utp_socket (socks w s) = None"
    | us where "handler_of s op_send w \<noteq> None" "utp_socket (socks w s) = Some us"
    by blast
  then show "R w w'"
  proof cases
    case 1
    with a show ?thesis by (simp add: on_writable_def kept_refl)
  next
    case 2
    with a have "post_op s op_send bad_descriptor [0] w = Inr w'"
      by (simp add: on_writable_def sock_do_write_def post_op_def assert_that_def set_handler_def
          upd_sock_def)
    then show ?thesis by (rule keepsD [OF post_kept])
  next
    case 3
    have "keeps R (\<lambda>w. and_then (restart_send s w) (write_tail E s))"
      by (intro keeps_and_then restart_kept write_tail_kept)
    then show ?thesis using a on_writable_resumes [OF 3] by (simp add: keeps_def)
  qed
qed

lemma read_tail_kept:
  assumes "and_then (consume n q) (\<lambda>q. post_op s op_recv no_error [n]
      (upd_sock s (\<lambda>x. x\<lparr>rx_buffer_queue := q\<rparr>) (w\<lparr>mem := m\<rparr>))) = Inr w'"
  shows "R w w'"
proof -
  from assms obtain q' where "post_op s op_recv no_error [n]
      (upd_sock s (\<lambda>x. x\<lparr>rx_buffer_queue := q'\<rparr>) (w\<lparr>mem := m\<rparr>)) = Inr w'" by auto
  moreover have "R w (upd_sock s (\<lambda>x. x\<lparr>rx_buffer_queue := q'\<rparr>) (w\<lparr>mem := m\<rparr>))"
    by (rule kept_trans [OF mem_kept sock_kept]) (simp add: same_ops_def)
  ultimately show ?thesis using keepsD [OF post_kept] kept_trans by blast
qed

lemma keeps_do_read: "keeps R (sock_do_read E s (new_handler fn))"
proof (rule keepsI)
  fix w w' :: "'a sock_world_scheme"
  assume a: "sock_do_read E s (new_handler fn) w = Inr w'"
  show "R w w'"
  proof (cases "is_open s w \<and> buffer_size (rx_buffers (socks w s)) \<noteq> 0")
    case False
    with a obtain ec where "handler_post (new_handler fn) ec [0] w = Inr w'"
      by (auto simp: sock_do_read_def and_then_Inr_iff split: if_splits)
    then show ?thesis by (rule keepsD [OF plain_post_kept])
  next
    case True
    with a obtain w1 where w1: "setup_op s op_recv (new_handler fn) w = Inr w1"
      and rest: "(if rx_buffer_queue (socks w1 s) = [] then
           (if got_eof (socks w1 s) then close_with_error E connection_reset s w1 else Inr w1)
         else and_then (const_buffers (rx_buffer_queue (socks w1 s))) (\<lambda>views.
           (case buffer_copy E (rx_buffers (socks w1 s)) views (mem w1) of
            (n, m) \<Rightarrow> and_then (consume n (rx_buffer_queue (socks w1 s))) (\<lambda>q.
               post_op s op_recv no_error [n]
                 (upd_sock s (\<lambda>x. x\<lparr>rx_buffer_queue := q\<rparr>) (w1\<lparr>mem := m\<rparr>)))))) = Inr w'"
      by (auto simp: sock_do_read_def assert_that_def split: if_splits)
    have "handler_of s op_recv w = None" using a by (auto simp: sock_do_read_def and_then_Inr_iff)
    then have "start_op s op_recv (new_handler fn) w = Inr w1" using w1 by (simp add: start_op_eq)
    then have "R w w1" using keepsD [OF setup_kept] unfolding new_handler_def by blast
    moreover have "R w1 w'"
      using rest keepsD [OF keeps_close_with_error]
      by (auto simp: kept_refl and_then_Inr_iff [of "const_buffers _"] split: if_splits prod.splits intro: read_tail_kept)
    ultimately show ?thesis by (rule kept_trans)
  qed
qed

lemma keeps_do_accept: "keeps R (sock_do_accept s (new_handler fn))"
proof (rule keepsI)
  fix w w' :: "'a sock_world_scheme"
  let ?c = "sock_context (socks w s)"
  let ?w = "upd_ctx ?c (\<lambda>x. x\<lparr>accepting_sockets := accepting_sockets (ctxs w ?c) @ [s]\<rparr>) w"
  assume "sock_do_accept s (new_handler fn) w = Inr w'"
  then have "start_op s op_accept (new_handler fn) ?w = Inr w'"
    by (auto simp: sock_do_accept_def add_accepting_socket_def and_then_Inr_iff upd_ctx_def start_op_def)
  then have "R ?w w'" unfolding new_handler_def by (rule keepsD [OF setup_kept])
  with accepting_kept show "R w w'" by (rule kept_trans)
qed

lemma keeps_do_connect: "keeps R (sock_do_connect E s ep (new_handler fn))"
proof -
  have "R w w'"
    if "and_then (to_sockaddr (host_abi E) ep) (\<lambda>addr.
        and_then (utp E (utp_create_socket (sock_context (socks w s))) w) (\<lambda>(us, w).
        let w = upd_sock s (\<lambda>x. x\<lparr>utp_socket := Some (nat us)\<rparr>) w;
            w = w\<lparr>userdata := (userdata w)(nat us := Some s)\<rparr>
        in and_then (sockaddr_size (host_abi E) addr) (\<lambda>sz.
             utp_do E (utp_connect (nat us) addr sz) w))) = Inr w'" for w w'
  proof -
    from that obtain us w1 addr sz where
      "utp E (utp_create_socket (sock_context (socks w s))) w = Inr (us, w1)"
      and do: "utp_do E (utp_connect (nat us) addr sz)
        ((upd_sock s (\<lambda>x. x\<lparr>utp_socket := Some (nat us)\<rparr>) w1)
          \<lparr>userdata := (userdata (upd_sock s (\<lambda>x. x\<lparr>utp_socket := Some (nat us)\<rparr>) w1))
             (nat us := Some s)\<rparr>) = Inr w'"
      by (auto simp: Let_def and_then_Inr_iff)
    then have "R w w1" using keeps_valD [OF utp_kept] by blast
    moreover have "R w1 (upd_sock s (\<lambda>x. x\<lparr>utp_socket := Some (nat us)\<rparr>) w1)"
      by (rule sock_kept) (simp add: same_ops_def)
    ultimately have "R w (upd_sock s (\<lambda>x. x\<lparr>utp_socket := Some (nat us)\<rparr>) w1)"
      by (rule kept_trans)
    from kept_trans [OF kept_trans [OF this userdata_kept] keepsD [OF keeps_do do]]
    show ?thesis .
  qed
  then have "keeps R (\<lambda>w. and_then (to_sockaddr (host_abi E) ep) (\<lambda>addr.
      and_then (utp E (utp_create_socket (sock_context (socks w s))) w) (\<lambda>(us, w).
      let w = upd_sock s (\<lambda>x. x\<lparr>utp_socket := Some (nat us)\<rparr>) w;
          w = w\<lparr>userdata := (userdata w)(nat us := Some s)\<rparr>
      in and_then (sockaddr_size (host_abi E) addr) (\<lambda>sz.
           utp_do E (utp_connect (nat us) addr sz) w))))"
    by (rule keepsI)
  moreover have "keeps R (setup_op s op_connect (new_handler fn))"
    using setup_kept [of s op_connect] unfolding new_handler_def start_op_def keeps_def by (simp add: guarded_def)
  ultimately show ?thesis
    unfolding sock_do_connect_def by (auto intro!: keeps_steps keeps_assert_that)
qed

text \<open>The callbacks.\<close>

lemma keeps_emit:
  assumes "\<And>f. keeps R (g f)"
  shows "keeps R (emit get g n)"
proof -
  have from_kept: "R w w'" if "emit_from get g n c w = Inr w'" for n c w w'
    using that
  proof (induction n arbitrary: c w)
    case (Suc n)
    then obtain w1 where w1: "call_slot g (slots (get w) c) w = Inr w1"
      and rest: "w' = w1 \<or> (\<exists>d. emit_from get g n d w1 = Inr w')"
      by (auto simp: and_then_Inr_iff split: option.splits)
    from w1 assms have "R w w1" by (blast dest: call_slot_InrD keepsD)
    with rest Suc.IH show ?case by (blast intro: kept_trans)
  qed simp
  show ?thesis
    by (rule keepsI) (auto simp: emit_def kept_refl split: list.splits dest: from_kept)
qed

lemma keeps_send_to: "keeps_val R (mux_send_to E m bs dst)"
proof (rule keeps_valI)
  fix w w' :: "'a sock_world_scheme" and r
  assume "mux_send_to E m bs dst w = Inr (r, w')"
  then obtain sent ec where
    "emit (\<lambda>w. send_to_signal (muxes w m)) (\<lambda>f. slot E f bs sent dst ec) (emission_bound E)
       (log_call (ImmediateSendTo m bs dst) w) = Inr w'"
    by (auto simp: mux_send_to_def and_then_Inr_iff split: prod.splits)
  then have "R (log_call (ImmediateSendTo m bs dst) w) w'"
    by (rule keepsD [OF keeps_emit [OF slot_kept]])
  then show "R w w'" using log_kept by (rule kept_trans [rotated])
qed

lemma keeps_iterator_valid: "keeps R (iterator_valid E c k)"
  unfolding iterator_valid_def by (intro keeps_intros)

lemma keeps_close_all: "keeps R (close_all E c ec)"
proof -
  have "keeps R (steps (map (\<lambda>s w. and_then (iterator_valid E c k w) (close_with_error E ec s)) ss))" for ss k
    by (rule keeps_steps) (simp add: list_all_iff keeps_and_then keeps_iterator_valid keeps_close_with_error)
  then show ?thesis by (auto simp: keeps_def close_all_def Let_def)
qed

text \<open>Giving up a reference, and the destructor it may run.\<close>

lemma drop_kept:
  assumes "R w (release_ref m w1)" and "mux_drop E m w1 = Inr w'"
  shows "R w w'"
proof (cases "alive (muxes w1 m) \<and> \<not> alive (drop_ref (muxes w1 m))")
  case False
  with assms show ?thesis by (auto simp: mux_drop_eq)
next
  case True
  with assms(2) obtain w3 where close: "ctx_close E m (release_ref m w1) = Inr w3"
    and w': "w' = upd_mux m (\<lambda>x. x\<lparr>recv_handlers := []\<rparr>) w3"
    by (auto simp: mux_drop_eq and_then_Inr_iff)
  have gone: "life (muxes (release_ref m w1) m) = destroyed" using True by (simp add: release_ref_gone)
  have "keeps R (guarded (\<lambda>w. utp_ctx (ctxs w m))
      (steps [utp_do E (utp_destroy m), \<lambda>w. Inr (upd_ctx m (\<lambda>x. x\<lparr>utp_ctx := False\<rparr>) w)]))"
    by (auto intro!: keeps_guarded keeps_steps keeps_do keeps_update utp_ctx_kept)
  with close obtain w2 where 2: "R (release_ref m w1) w2" and stop: "ctx_stop_receiving E m w2 = Inr w3"
    by (auto simp: ctx_close_def and_then_Inr_iff simp del: steps.simps(2) dest: keepsD)
      (auto simp: and_then_Inr_iff dest: keepsD)
  have "life (muxes w2 m) = destroyed" using gone_kept [OF 2 gone] .
  then have 3: "R w2 w3" "life (muxes w3 m) = destroyed"
    using stop_kept [OF _ stop] gone_kept by blast+
  from kept_trans [OF assms(1) kept_trans [OF kept_trans [OF 2 3(1)] unlinked_kept [OF 3(2)]]]
  show ?thesis by (simp add: w')
qed

lemma keeps_with_lock:
  assumes "keeps R body"
  shows "keeps R (with_lock (mux_drop E) m body)"
proof (rule keepsI)
  fix w w' :: "'a sock_world_scheme"
  assume a: "with_lock (mux_drop E) m body w = Inr w'"
  show "R w w'"
  proof (cases "alive (muxes w m)")
    case False
    with a show ?thesis by (simp add: with_lock_def kept_refl)
  next
    case True
    with a obtain w1 where "body (upd_mux m take_ref w) = Inr w1" "mux_drop E m w1 = Inr w'"
      by (auto simp: with_lock_def and_then_Inr_iff)
    then show ?thesis using lock_kept [OF True keepsD [OF assms]] drop_kept by blast
  qed
qed

lemma keeps_callback_sendto: "keeps R (callback_sendto E c buf addr)"
proof -
  have "R w w'" if "and_then (to_endpoint (host_abi E) addr) (\<lambda>dst.
      and_then (mux_send_to E c buf dst w) (\<lambda>((sent, ec), w).
        if ec = bad_descriptor then Inr w
        else if ec \<noteq> no_error \<and> ec \<noteq> would_block
        then close_all E c ec w
        else Inr w)) = Inr w'" for w w'
  proof -
    from that obtain dst sent ec w1 where
      "mux_send_to E c buf dst w = Inr ((sent, ec), w1)"
      "w' = w1 \<or> close_all E c ec w1 = Inr w'"
      by (auto simp: and_then_Inr_iff split: if_splits)
    then show ?thesis
      using keeps_valD [OF keeps_send_to] keepsD [OF keeps_close_all] kept_trans by blast
  qed
  then show ?thesis
    unfolding callback_sendto_def by (intro keeps_with_lock keepsI)
qed

lemma keeps_state_change: "keeps R (callback_on_state_change E us st)"
  unfolding callback_on_state_change_def
  by (cases st) (auto intro!: keeps_case_option keeps_Inr keeps_on_connect keeps_on_writable
      keeps_on_eof keeps_on_destroy)

lemma keeps_callback_on_read: "keeps R (callback_on_read E us buf)"
  unfolding callback_on_read_def by (intro keeps_case_option keeps_Inl keeps_on_receive)

lemma keeps_callback_on_accept: "keeps R (callback_on_accept E c us)"
proof (rule keepsI)
  fix w w' :: "'a sock_world_scheme"
  assume "callback_on_accept E c us w = Inr w'"
  then show "R w w'"
    using keepsD [OF keeps_on_accept] accepting_kept kept_trans
    by (auto simp: callback_on_accept_def kept_refl split: list.splits) blast
qed

lemma keeps_run_callback: "keeps_val R (run_callback E cb)"
  by (cases cb) (auto intro!: keeps_valI simp: and_then_Inr_iff callback_on_error_def kept_refl
      dest: keepsD [OF keeps_callback_sendto] keepsD [OF keeps_state_change]
        keepsD [OF keeps_callback_on_read] keepsD [OF keeps_callback_on_accept])

end

end
