(* ===== verification/Service.thy ===== *)
theory Service
  imports Callbacks
begin

text \<open>
  \<open>service\<close>, from \<open>src/src/service.hpp\<close>: the multiplexers of an execution context by their
  local endpoint, so that sockets bound to the same endpoint share one. The map itself is the
  field \<open>multiplexers\<close> of the state; \<open>erase_multiplexer\<close> is in the theory Context, where the
  destructor of a multiplexer uses it. \<open>create\<close> is from \<open>src/src/udp_multiplexer_impl.cpp\<close>.

  The number of a new multiplexer is an argument, the address the allocator returns.
\<close>

section \<open>Operations\<close>

definition mux_create :: "nat \<Rightarrow> endpoint \<Rightarrow> 'a ctx_world_scheme \<Rightarrow> 'a ctx_world_scheme" where
  "mux_create m ep w =
     w\<lparr>muxes := (muxes w)(m := new_mux ep),
       ctxs := (ctxs w)(m := new_context ep),
       entries := (entries w)(ctx_entry m :=
         \<lparr>re_multiplexer = None, re_handler = Some (context_on_read m)\<rparr>)\<rparr>"

definition unused_mux :: "nat \<Rightarrow> 'a ctx_world_scheme \<Rightarrow> bool" where
  "unused_mux m w \<longleftrightarrow> life (muxes w m) = not_created \<and> recv_handlers (muxes w m) = []
     \<and> flushing (muxes w m) = [] \<and> \<not> is_receiving (muxes w m) \<and> rx_ops (muxes w m) = 0
     \<and> outstanding_op_count (ctxs w m) = 0"

text \<open>The constructor of \<open>context\<close> asserts that \<open>utp_init\<close> returned a libutp context.\<close>

definition new_multiplexer ::
  "('a ctx_world_scheme) env \<Rightarrow> nat \<Rightarrow> endpoint \<Rightarrow> 'a ctx_world_scheme \<Rightarrow> 'a ctx_world_scheme result"
  where
  "new_multiplexer E m ep = on_unused (unused_mux m)
     (\<lambda>w. if utp_init E m w then Inr (mux_create m ep w) else Inl (AssertFailed ''_utp_ctx''))"

text \<open>
  \<open>maybe_create_udp_multiplexer\<close>. The result is the multiplexer, if the pointer is not null,
  with a strong reference that belongs to the caller, and the value of the out parameter
  \<open>ec\<close>; a multiplexer that is found leaves \<open>ec\<close> as the caller passed it.
\<close>

definition maybe_create_udp_multiplexer ::
  "('a ctx_world_scheme) env \<Rightarrow> nat \<Rightarrow> endpoint \<Rightarrow> error_code
     \<Rightarrow> 'a ctx_world_scheme \<Rightarrow> ((nat option \<times> error_code) \<times> 'a ctx_world_scheme) result" where
  "maybe_create_udp_multiplexer E m ep ec w =
     (case multiplexers w ep of
        Some i \<Rightarrow>
          if alive (muxes w i) then Inr ((Some i, ec), upd_mux i take_ref w)
          else Inr ((None, ec), w)
      | None \<Rightarrow>
          if udp_open E ep w \<noteq> no_error then Inl (SystemError (udp_open E ep w))
          else
            (case udp_bind E ep w of (local, ec) \<Rightarrow>
               if ec \<noteq> no_error then Inr ((None, ec), w)
               else
                 and_then (new_multiplexer E m local w) (\<lambda>w.
                   Inr ((Some m, ec), w\<lparr>multiplexers := (multiplexers w)(local := Some m)\<rparr>))))"

text \<open>The destructor; its assertion is compiled in and checked only under \<open>_debug\<close>.\<close>

definition service_destroy :: "bool \<Rightarrow> 'a mux_world_scheme \<Rightarrow> 'a mux_world_scheme result" where
  "service_destroy debug =
     guarded (\<lambda>w. debug) (assert_that ''_multiplexers.empty()'' (\<lambda>w. multiplexers w = Map.empty))"

end
