(* ===== verification/Socket.thy ===== *)
theory Socket
  imports Service
begin

text \<open>
  \<open>asio_utp::socket\<close>, the class the user sees, from \<open>src/include/asio_utp/socket.hpp\<close> and
  \<open>src/src/socket.cpp\<close>. A socket object is a number that indexes \<open>fronts\<close>; its
  \<open>_socket_impl\<close> and \<open>_multiplexer\<close> are the fields of the record \<open>socket\<close> of the theory
  Socket_Impl. The number of a new \<open>socket_impl\<close> or multiplexer is an argument, the address
  the allocator returns; the completion token is the number of the user's function.
\<close>

section \<open>Construction, bind, close\<close>

definition new_socket :: socket where
  "new_socket = \<lparr>impl = None, multiplexer = None\<rparr>"

text \<open>Assignment to \<open>_multiplexer\<close>: the reference the member held is given up.\<close>

definition set_multiplexer ::
  "('a sock_world_scheme) env \<Rightarrow> nat \<Rightarrow> nat option \<Rightarrow> 'a sock_world_scheme \<Rightarrow> 'a sock_world_scheme result"
  where
  "set_multiplexer E o' m w =
     (let old = multiplexer (fronts w o');
          w = upd_front o' (\<lambda>f. f\<lparr>multiplexer := m\<rparr>) w
      in case old of None \<Rightarrow> Inr w | Some i \<Rightarrow> mux_drop E i w)"

definition unused_impl :: "nat \<Rightarrow> 'a sock_world_scheme \<Rightarrow> bool" where
  "unused_impl s w \<longleftrightarrow> \<not> allocated (socks w s) \<and> handler_of s op_connect w = None \<and> handler_of s op_accept w = None
     \<and> handler_of s op_send w = None \<and> handler_of s op_recv w = None
     \<and> \<not> decrement_close (socks w s)"

text \<open>The end of both forms of \<open>bind\<close>: a new \<open>socket_impl\<close>, registered with the context.\<close>

definition install_impl ::
  "nat \<Rightarrow> nat \<Rightarrow> nat \<Rightarrow> 'a sock_world_scheme \<Rightarrow> 'a sock_world_scheme result" where
  "install_impl o' s m =
     on_unused (unused_impl s)
       (\<lambda>w. register_socket m s
          (upd_front o' (\<lambda>f. f\<lparr>impl := Some s\<rparr>) (upd_sock s (\<lambda>_. new_socket_impl o' m) w)))"

definition socket_bind ::
  "('a sock_world_scheme) env \<Rightarrow> nat \<Rightarrow> nat \<Rightarrow> nat \<Rightarrow> endpoint \<Rightarrow> error_code
     \<Rightarrow> 'a sock_world_scheme \<Rightarrow> (error_code \<times> 'a sock_world_scheme) result" where
  "socket_bind E o' s m ep ec w =
     (if impl (fronts w o') \<noteq> None then Inr (already_open, w)
      else
        and_then (maybe_create_udp_multiplexer E m ep ec w) (\<lambda>((mp, ec), w).
          if ec \<noteq> no_error then
            (case mp of None \<Rightarrow> Inr (ec, w)
             | Some i \<Rightarrow> and_then (mux_drop E i w) (\<lambda>w. Inr (ec, w)))
          else
            and_then (set_multiplexer E o' mp w) (\<lambda>w.
              case mp of
                None \<Rightarrow> Inl (NullPointer ''_multiplexer'')
              | Some i \<Rightarrow> and_then (install_impl o' s i w) (\<lambda>w. Inr (ec, w)))))"

text \<open>
  \<open>bind(const udp_multiplexer&, ...)\<close>; \<open>mi\<close> is what \<open>m.impl()\<close> returns (its assert, that the
  multiplexer is open, is in the theory Udp_Multiplexer).
\<close>

definition socket_bind_to ::
  "('a sock_world_scheme) env \<Rightarrow> nat \<Rightarrow> nat \<Rightarrow> nat \<Rightarrow> error_code
     \<Rightarrow> 'a sock_world_scheme \<Rightarrow> (error_code \<times> 'a sock_world_scheme) result" where
  "socket_bind_to E o' s mi ec w =
     (if impl (fronts w o') \<noteq> None then Inr (already_open, w)
      else
        and_then (set_multiplexer E o' (Some mi) (upd_mux mi take_ref w)) (\<lambda>w.
        and_then (install_impl o' s mi w) (\<lambda>w. Inr (ec, w))))"

definition socket_is_open :: "nat \<Rightarrow> 'a sock_world_scheme \<Rightarrow> bool" where
  "socket_is_open o' w = (case impl (fronts w o') of None \<Rightarrow> False | Some s \<Rightarrow> is_open s w)"

definition socket_close ::
  "('a sock_world_scheme) env \<Rightarrow> nat \<Rightarrow> 'a sock_world_scheme \<Rightarrow> 'a sock_world_scheme result" where
  "socket_close E o' w =
     (case impl (fronts w o') of
        None \<Rightarrow> Inr w
      | Some s \<Rightarrow>
          steps
            [guarded (is_open s) (sock_close E s),
             \<lambda>w. Inr (upd_front o' (\<lambda>f. f\<lparr>impl := None\<rparr>) w),
             set_multiplexer E o' None] w)"

text \<open>The destructor: \<open>close()\<close>, then the members are destroyed.\<close>

definition socket_destroy ::
  "('a sock_world_scheme) env \<Rightarrow> nat \<Rightarrow> 'a sock_world_scheme \<Rightarrow> 'a sock_world_scheme result" where
  "socket_destroy E o' = steps [socket_close E o', set_multiplexer E o' None]"

definition set_owner :: "nat \<Rightarrow> 'a sock_world_scheme \<Rightarrow> 'a sock_world_scheme" where
  "set_owner o' w =
     (case impl (fronts w o') of None \<Rightarrow> w
      | Some s \<Rightarrow> upd_sock s (\<lambda>x. x\<lparr>owner := Some o'\<rparr>) w)"

text \<open>The move constructor: the socket \<open>o'\<close> is a new object, constructed from \<open>other\<close>.\<close>

definition socket_move_construct ::
  "nat \<Rightarrow> nat \<Rightarrow> 'a sock_world_scheme \<Rightarrow> 'a sock_world_scheme result" where
  "socket_move_construct o' other =
     on_unused (\<lambda>w. fronts w o' = new_socket)
       (\<lambda>w. let f = fronts w other
            in Inr (set_owner o' (upd_front o' (\<lambda>_. f) (upd_front other (\<lambda>_. new_socket) w))))"

text \<open>
  Move assignment. The assert reads \<open>other._socket_impl->_owner\<close> after \<open>other._socket_impl\<close> was
  moved from; a moved-from \<open>shared_ptr\<close> is null.
\<close>

definition socket_move_assign ::
  "('a sock_world_scheme) env \<Rightarrow> nat \<Rightarrow> nat \<Rightarrow> 'a sock_world_scheme \<Rightarrow> 'a sock_world_scheme result"
  where
  "socket_move_assign E o' other =
     steps
       [socket_close E o',
        \<lambda>w. let si = impl (fronts w other); mi = multiplexer (fronts w other);
                w = upd_front o' (\<lambda>f. f\<lparr>impl := si\<rparr>) (upd_front other (\<lambda>f. f\<lparr>impl := None\<rparr>) w)
            in set_multiplexer E o' mi (upd_front other (\<lambda>f. f\<lparr>multiplexer := None\<rparr>) w),
        \<lambda>w. case impl (fronts w o') of
              None \<Rightarrow> Inr w
            | Some s \<Rightarrow>
                (case impl (fronts w other) of
                   None \<Rightarrow> Inl (NullPointer ''other._socket_impl'')
                 | Some s' \<Rightarrow>
                     if owner (socks w s') = None then Inl (AssertFailed ''other._socket_impl->_owner'')
                     else Inr (set_owner o' w))]"


section \<open>Queries\<close>

definition socket_local_endpoint :: "nat \<Rightarrow> 'a sock_world_scheme \<Rightarrow> endpoint result" where
  "socket_local_endpoint o' w =
     (case impl (fronts w o') of
        None \<Rightarrow> Inl (AssertFailed ''_socket_impl'')
      | Some s \<Rightarrow> Inr (sock_local_endpoint s w))"

definition socket_remote_endpoint ::
  "('a sock_world_scheme) env \<Rightarrow> nat \<Rightarrow> 'a sock_world_scheme \<Rightarrow> endpoint result" where
  "socket_remote_endpoint E o' w =
     (case impl (fronts w o') of
        None \<Rightarrow> Inl (AssertFailed ''_socket_impl'')
      | Some s \<Rightarrow> sock_remote_endpoint E s w)"


section \<open>Asynchronous operations\<close>

fun is_unspecified :: "address \<Rightarrow> bool" where
  "is_unspecified (address_v4 bs) = (bs = replicate 4 0)"
| "is_unspecified (address_v6 bs sc) = (bs = replicate 16 0)"

definition loopback_v4 :: address where
  "loopback_v4 = address_v4 [127, 0, 0, 1]"

definition loopback_v6 :: address where
  "loopback_v6 = address_v6 (replicate 15 0 @ [1]) 0"

definition connect_target :: "endpoint \<Rightarrow> endpoint" where
  "connect_target ep =
     (if is_unspecified (ep_address ep) then
        (if is_v4 (ep_address ep) then ep\<lparr>ep_address := loopback_v4\<rparr>
         else ep\<lparr>ep_address := loopback_v6\<rparr>)
      else ep)"

definition socket_do_connect ::
  "('a sock_world_scheme) env \<Rightarrow> nat \<Rightarrow> endpoint \<Rightarrow> handler
     \<Rightarrow> 'a sock_world_scheme \<Rightarrow> 'a sock_world_scheme result" where
  "socket_do_connect E o' ep h w =
     (case impl (fronts w o') of
        None \<Rightarrow> handler_post h bad_descriptor [] w
      | Some s \<Rightarrow> sock_do_connect E s (connect_target ep) h w)"

definition socket_do_accept ::
  "nat \<Rightarrow> handler \<Rightarrow> 'a sock_world_scheme \<Rightarrow> 'a sock_world_scheme result" where
  "socket_do_accept o' h w =
     (case impl (fronts w o') of
        None \<Rightarrow> handler_post h bad_descriptor [] w
      | Some s \<Rightarrow> sock_do_accept s h w)"

definition socket_do_write ::
  "('a sock_world_scheme) env \<Rightarrow> nat \<Rightarrow> handler \<Rightarrow> 'a sock_world_scheme \<Rightarrow> 'a sock_world_scheme result"
  where
  "socket_do_write E o' h w =
     (case impl (fronts w o') of
        None \<Rightarrow> handler_post h bad_descriptor [0] w
      | Some s \<Rightarrow> sock_do_write E s h w)"

definition socket_do_read ::
  "('a sock_world_scheme) env \<Rightarrow> nat \<Rightarrow> handler \<Rightarrow> 'a sock_world_scheme \<Rightarrow> 'a sock_world_scheme result"
  where
  "socket_do_read E o' h w =
     (case impl (fronts w o') of
        None \<Rightarrow> handler_post h bad_descriptor [0] w
      | Some s \<Rightarrow> sock_do_read E s h w)"

text \<open>\<open>tx_buffers()\<close> and \<open>rx_buffers()\<close> return null without a \<open>socket_impl\<close>: nothing is stored.\<close>

definition store_tx_buffers :: "nat \<Rightarrow> buffer list \<Rightarrow> 'a sock_world_scheme \<Rightarrow> 'a sock_world_scheme"
  where
  "store_tx_buffers o' bufs w =
     (case impl (fronts w o') of None \<Rightarrow> w
      | Some s \<Rightarrow> upd_sock s (\<lambda>x. x\<lparr>tx_buffers := bufs\<rparr>) w)"

definition store_rx_buffers :: "nat \<Rightarrow> buffer list \<Rightarrow> 'a sock_world_scheme \<Rightarrow> 'a sock_world_scheme"
  where
  "store_rx_buffers o' bufs w =
     (case impl (fronts w o') of None \<Rightarrow> w
      | Some s \<Rightarrow> upd_sock s (\<lambda>x. x\<lparr>rx_buffers := bufs\<rparr>) w)"

definition async_connect ::
  "('a sock_world_scheme) env \<Rightarrow> nat \<Rightarrow> endpoint \<Rightarrow> user_fn
     \<Rightarrow> 'a sock_world_scheme \<Rightarrow> 'a sock_world_scheme result" where
  "async_connect E o' ep token = socket_do_connect E o' ep (new_handler token)"

definition async_accept ::
  "nat \<Rightarrow> user_fn \<Rightarrow> 'a sock_world_scheme \<Rightarrow> 'a sock_world_scheme result" where
  "async_accept o' token = socket_do_accept o' (new_handler token)"

definition async_write_some ::
  "('a sock_world_scheme) env \<Rightarrow> nat \<Rightarrow> buffer list \<Rightarrow> user_fn
     \<Rightarrow> 'a sock_world_scheme \<Rightarrow> 'a sock_world_scheme result" where
  "async_write_some E o' bufs token w =
     socket_do_write E o' (new_handler token) (store_tx_buffers o' bufs w)"

definition async_read_some ::
  "('a sock_world_scheme) env \<Rightarrow> nat \<Rightarrow> buffer list \<Rightarrow> user_fn
     \<Rightarrow> 'a sock_world_scheme \<Rightarrow> 'a sock_world_scheme result" where
  "async_read_some E o' bufs token w =
     socket_do_read E o' (new_handler token) (store_rx_buffers o' bufs w)"

end
