(* ===== verification/Udp_Multiplexer.thy ===== *)
theory Udp_Multiplexer
  imports Socket
begin

text \<open>
  \<open>asio_utp::udp_multiplexer\<close>, the class the user sees, from
  \<open>src/include/asio_utp/udp_multiplexer.hpp\<close> and \<open>src/src/udp_multiplexer.cpp\<close>. An object is a
  number that indexes \<open>mfronts\<close>, its member \<open>_state\<close>; the \<open>struct state\<close> objects are in
  \<open>mstates\<close>.

  The function stored in the receive entry of a state is bound to a \<open>shared_ptr\<close> to that
  state, so a state lives at least until \<open>close\<close> clears that function. After that it is kept
  by the lambdas of its pending sends, which \<open>tx_lambdas\<close> counts; when it is destroyed, the
  destructor of its receive entry unlinks the entry. \<open>sends\<close> are the sends the UDP sockets
  have not completed: the multiplexer, the state, and the variable the destination is
  referenced from (the lambda of \<open>async_send_to\<close> captures a reference). \<open>eps\<close> are the
  endpoint variables of the user.
\<close>

section \<open>State\<close>

record mux_state =
  rx_ep :: "nat option"                  \<comment> \<open>points to an endpoint variable of the user\<close>
  tx_handler :: handler
  rx_handler :: handler
  ms_rx_buffers :: "buffer list"
  ms_tx_buffers :: "buffer list"
  ms_impl :: "nat option"
  tx_lambdas :: nat

record send_op =
  send_mux :: nat
  send_state :: nat
  send_dst :: nat

record udp_world = sock_world +
  mstates :: "nat \<Rightarrow> mux_state"
  mfronts :: "nat \<Rightarrow> nat option"
  eps :: "nat \<Rightarrow> endpoint"
  sends :: "send_op list"

definition upd_mstate ::
  "nat \<Rightarrow> (mux_state \<Rightarrow> mux_state) \<Rightarrow> 'a udp_world_scheme \<Rightarrow> 'a udp_world_scheme"
  where "upd_mstate t f w = w\<lparr>mstates := (mstates w)(t := f (mstates w t))\<rparr>"

definition set_state :: "nat \<Rightarrow> nat option \<Rightarrow> 'a udp_world_scheme \<Rightarrow> 'a udp_world_scheme"
  where "set_state u t w = w\<lparr>mfronts := (mfronts w)(u := t)\<rparr>"


section \<open>The receive functions of the entries\<close>

definition handle_read ::
  "('a udp_world_scheme) env \<Rightarrow> nat \<Rightarrow> error_code \<Rightarrow> endpoint \<Rightarrow> byte list
     \<Rightarrow> 'a udp_world_scheme \<Rightarrow> 'a udp_world_scheme result" where
  "handle_read E t ec ep bs w =
     (if rx_handler (mstates w t) = None then Inr w
      else
        (case rx_ep (mstates w t) of
           None \<Rightarrow> Inl (NullPointer ''rx_ep'')
         | Some a \<Rightarrow>
             (case buffer_copy E (ms_rx_buffers (mstates w t)) [bs] (mem w) of
                (n, m) \<Rightarrow>
                  handler_post (rx_handler (mstates w t)) ec [n]
                    (upd_mstate t (\<lambda>x. x\<lparr>rx_ep := None, rx_handler := None\<rparr>)
                      (w\<lparr>eps := (eps w)(a := ep), mem := m\<rparr>)))))"

definition recv_call :: "('a udp_world_scheme) env \<Rightarrow> ('a udp_world_scheme) recv_fun" where
  "recv_call E f ec ep bs =
     (case f of context_on_read c \<Rightarrow> ctx_on_read E c ec ep bs
      | state_handle_read t \<Rightarrow> handle_read E t ec ep bs)"

text \<open>The completion of the pending receive of multiplexer \<open>m\<close>.\<close>

definition receive_completed ::
  "('a udp_world_scheme) env \<Rightarrow> nat \<Rightarrow> error_code \<Rightarrow> byte list \<Rightarrow> endpoint
     \<Rightarrow> 'a udp_world_scheme \<Rightarrow> 'a udp_world_scheme result" where
  "receive_completed E = mux_on_receive E (mux_drop E) (recv_call E)"


section \<open>Construction, bind, close\<close>

definition new_state :: "nat option \<Rightarrow> mux_state" where
  "new_state m =
     \<lparr>rx_ep = None, tx_handler = None, rx_handler = None, ms_rx_buffers = [], ms_tx_buffers = [],
      ms_impl = m, tx_lambdas = 0\<rparr>"

definition unused_state :: "nat \<Rightarrow> 'a udp_world_scheme \<Rightarrow> bool" where
  "unused_state t w \<longleftrightarrow> re_handler (entries w (state_entry t)) = None
     \<and> \<not> hook_linked (state_entry t) w \<and> tx_lambdas (mstates w t) = 0
     \<and> ms_impl (mstates w t) = None"

definition install_state ::
  "nat \<Rightarrow> nat \<Rightarrow> nat option \<Rightarrow> 'a udp_world_scheme \<Rightarrow> 'a udp_world_scheme result" where
  "install_state u t m =
     on_unused (unused_state t)
       (\<lambda>w. Inr (set_state u (Some t)
          (upd_entry (state_entry t)
            (\<lambda>_. \<lparr>re_multiplexer = None, re_handler = Some (state_handle_read t)\<rparr>)
            (upd_mstate t (\<lambda>_. new_state m) w))))"

text \<open>The destructor of a state that nothing refers to any more.\<close>

definition release_state ::
  "('a udp_world_scheme) env \<Rightarrow> nat \<Rightarrow> 'a udp_world_scheme \<Rightarrow> 'a udp_world_scheme result" where
  "release_state E t =
     guarded (\<lambda>w. re_handler (entries w (state_entry t)) = None \<and> tx_lambdas (mstates w t) = 0)
       (entry_unlink E (state_entry t))"

text \<open>\<open>h.post(...)\<close> under \<open>if (h)\<close>, for the two handlers of a state.\<close>

definition post_rx_handler ::
  "nat \<Rightarrow> error_code \<Rightarrow> nat list \<Rightarrow> 'a udp_world_scheme \<Rightarrow> 'a udp_world_scheme result" where
  "post_rx_handler t ec args =
     guarded (\<lambda>w. rx_handler (mstates w t) \<noteq> None)
       (\<lambda>w. handler_post (rx_handler (mstates w t)) ec args
              (upd_mstate t (\<lambda>x. x\<lparr>rx_handler := None\<rparr>) w))"

definition post_tx_handler ::
  "nat \<Rightarrow> error_code \<Rightarrow> nat list \<Rightarrow> 'a udp_world_scheme \<Rightarrow> 'a udp_world_scheme result" where
  "post_tx_handler t ec args =
     guarded (\<lambda>w. tx_handler (mstates w t) \<noteq> None)
       (\<lambda>w. handler_post (tx_handler (mstates w t)) ec args
              (upd_mstate t (\<lambda>x. x\<lparr>tx_handler := None\<rparr>) w))"

definition drop_impl ::
  "('a udp_world_scheme) env \<Rightarrow> nat \<Rightarrow> 'a udp_world_scheme \<Rightarrow> 'a udp_world_scheme result" where
  "drop_impl E t w =
     (case ms_impl (mstates w t) of None \<Rightarrow> Inr w
      | Some m \<Rightarrow> mux_drop E m (upd_mstate t (\<lambda>x. x\<lparr>ms_impl := None\<rparr>) w))"

definition multiplexer_close ::
  "('a udp_world_scheme) env \<Rightarrow> nat \<Rightarrow> error_code
     \<Rightarrow> 'a udp_world_scheme \<Rightarrow> (error_code \<times> 'a udp_world_scheme) result" where
  "multiplexer_close E u ec w =
     (case mfronts w u of
        None \<Rightarrow> Inr (bad_descriptor, w)
      | Some t \<Rightarrow>
          and_then
            (steps
              [\<lambda>w. Inr (upd_entry (state_entry t) (\<lambda>r. r\<lparr>re_handler := None\<rparr>) w),
               post_rx_handler t operation_aborted [0],
               post_tx_handler t operation_aborted [0],
               drop_impl E t,
               \<lambda>w. Inr (set_state u None w),
               release_state E t] w)
            (\<lambda>w. Inr (ec, w)))"

definition multiplexer_destroy ::
  "('a udp_world_scheme) env \<Rightarrow> nat \<Rightarrow> 'a udp_world_scheme \<Rightarrow> 'a udp_world_scheme result" where
  "multiplexer_destroy E u w = and_then (multiplexer_close E u no_error w) (\<lambda>(ec, w). Inr w)"

definition multiplexer_impl :: "nat \<Rightarrow> 'a udp_world_scheme \<Rightarrow> (nat option) result" where
  "multiplexer_impl u w =
     (case mfronts w u of
        None \<Rightarrow> Inl (AssertFailed ''_state'')
      | Some t \<Rightarrow> Inr (ms_impl (mstates w t)))"

text \<open>
  The copy constructor makes \<open>u\<close> a copy of \<open>other\<close> with a state of its own. Copy assignment
  constructs the temporary \<open>tmp\<close> and moves it; the state that the assigned object had is kept by its
  receive function, so giving up the reference to it does nothing. Move assignment likewise.
\<close>

definition multiplexer_copy ::
  "nat \<Rightarrow> nat \<Rightarrow> nat \<Rightarrow> 'a udp_world_scheme \<Rightarrow> 'a udp_world_scheme result" where
  "multiplexer_copy u other t w =
     and_then (case mfronts w other of None \<Rightarrow> Inl (AssertFailed ''other._state'')
               | Some t' \<Rightarrow> Inr (ms_impl (mstates w t'))) (\<lambda>mi.
       case mi of
         None \<Rightarrow> Inl (AssertFailed ''other._state->impl'')
       | Some m \<Rightarrow> install_state u t (Some m) (upd_mux m take_ref w))"

definition multiplexer_move :: "nat \<Rightarrow> nat \<Rightarrow> 'a udp_world_scheme \<Rightarrow> 'a udp_world_scheme" where
  "multiplexer_move u other w =
     (let t = mfronts w other in set_state u t (set_state other None w))"

definition multiplexer_copy_assign ::
  "('a udp_world_scheme) env \<Rightarrow> nat \<Rightarrow> nat \<Rightarrow> nat \<Rightarrow> nat \<Rightarrow> 'a udp_world_scheme \<Rightarrow> 'a udp_world_scheme result"
  where
  "multiplexer_copy_assign E u other tmp t =
     steps
       [multiplexer_copy tmp other t,
        \<lambda>w. Inr (multiplexer_move u tmp w),
        multiplexer_destroy E tmp]"

definition multiplexer_bind ::
  "('a udp_world_scheme) env \<Rightarrow> nat \<Rightarrow> nat \<Rightarrow> nat \<Rightarrow> endpoint \<Rightarrow> error_code
     \<Rightarrow> 'a udp_world_scheme \<Rightarrow> (error_code \<times> 'a udp_world_scheme) result" where
  "multiplexer_bind E u t m ep ec w =
     and_then (assert_that ''!_state'' (\<lambda>w. mfronts w u = None) w) (\<lambda>w.
     and_then (maybe_create_udp_multiplexer E m ep ec w) (\<lambda>((mp, ec), w).
       if ec \<noteq> no_error then
         (case mp of None \<Rightarrow> Inr (ec, w)
          | Some i \<Rightarrow> and_then (mux_drop E i w) (\<lambda>w. Inr (ec, w)))
       else and_then (install_state u t mp w) (\<lambda>w. Inr (ec, w))))"

definition multiplexer_bind_other ::
  "('a udp_world_scheme) env \<Rightarrow> nat \<Rightarrow> nat \<Rightarrow> nat \<Rightarrow> 'a udp_world_scheme \<Rightarrow> 'a udp_world_scheme result"
  where
  "multiplexer_bind_other E u other t w =
     and_then (if mfronts w u = None then Inr w
               else and_then (multiplexer_close E u no_error w) (\<lambda>(ec, w). Inr w))
       (multiplexer_copy u other t)"

text \<open>A socket of the user's: the new multiplexer is not registered with the service.\<close>

definition multiplexer_bind_socket ::
  "('a udp_world_scheme) env \<Rightarrow> nat \<Rightarrow> nat \<Rightarrow> nat \<Rightarrow> endpoint
     \<Rightarrow> 'a udp_world_scheme \<Rightarrow> 'a udp_world_scheme result" where
  "multiplexer_bind_socket E u t m local =
     steps
       [assert_that ''!_state'' (\<lambda>w. mfronts w u = None),
        new_multiplexer E m local,
        install_state u t (Some m)]"

definition multiplexer_is_open :: "nat \<Rightarrow> 'a udp_world_scheme \<Rightarrow> bool" where
  "multiplexer_is_open u w \<longleftrightarrow> mfronts w u \<noteq> None"

text \<open>Binding a socket to a multiplexer of the user's.\<close>

definition socket_bind_multiplexer ::
  "('a udp_world_scheme) env \<Rightarrow> nat \<Rightarrow> nat \<Rightarrow> nat \<Rightarrow> error_code
     \<Rightarrow> 'a udp_world_scheme \<Rightarrow> (error_code \<times> 'a udp_world_scheme) result" where
  "socket_bind_multiplexer E o' s u ec w =
     (if impl (fronts w o') \<noteq> None then Inr (already_open, w)
      else
        and_then (multiplexer_impl u w) (\<lambda>mi.
          case mi of
            None \<Rightarrow> Inl (NullPointer ''_multiplexer'')
          | Some m \<Rightarrow> socket_bind_to E o' s m ec w))"


section \<open>Send and receive\<close>

definition state_impl :: "nat \<Rightarrow> 'a udp_world_scheme \<Rightarrow> nat result" where
  "state_impl t w =
     (case ms_impl (mstates w t) of
        None \<Rightarrow> Inl (NullPointer ''_state->impl'')
      | Some m \<Rightarrow> Inr m)"

definition multiplexer_do_send ::
  "nat \<Rightarrow> nat \<Rightarrow> handler \<Rightarrow> 'a udp_world_scheme \<Rightarrow> 'a udp_world_scheme result" where
  "multiplexer_do_send u dst h w =
     (case mfronts w u of
        None \<Rightarrow> handler_post h bad_descriptor [0] w
      | Some t \<Rightarrow>
          and_then (state_impl t w) (\<lambda>m.
            let w = upd_mstate t (\<lambda>x. x\<lparr>tx_handler := h, tx_lambdas := Suc (tx_lambdas x)\<rparr>) w
            in Inr (log_call (AsyncSendTo m (gather (mem w) (ms_tx_buffers (mstates w t))) (eps w dst))
                 (w\<lparr>sends := sends w @ [\<lparr>send_mux = m, send_state = t, send_dst = dst\<rparr>]\<rparr>))))"

text \<open>
  The completion of a send. The outer lambda is that of \<open>udp_multiplexer_impl::async_send_to\<close>,
  which emits the signal, the inner one that of \<open>do_send\<close>; the lambdas are destroyed after
  they ran.
\<close>

definition send_finished ::
  "nat \<Rightarrow> error_code \<Rightarrow> nat \<Rightarrow> 'a udp_world_scheme \<Rightarrow> 'a udp_world_scheme result" where
  "send_finished t ec n = post_tx_handler t ec [n]"

definition send_completed ::
  "('a udp_world_scheme) env \<Rightarrow> send_op \<Rightarrow> error_code \<Rightarrow> nat
     \<Rightarrow> 'a udp_world_scheme \<Rightarrow> 'a udp_world_scheme result" where
  "send_completed E x ec n =
     (let m = send_mux x; t = send_state x
      in steps
        [\<lambda>w. if alive (muxes w m) then
               with_lock (mux_drop E) m
                 (steps
                   [\<lambda>w. emit (\<lambda>w. send_to_signal (muxes w m))
                          (\<lambda>f. slot E f (gather (mem w) (ms_tx_buffers (mstates w t))) n
                                (eps w (send_dst x)) ec) (emission_bound E) w,
                    send_finished t ec n]) w
             else send_finished t operation_aborted 0 w,
         \<lambda>w. Inr (upd_mstate t (\<lambda>s. s\<lparr>tx_lambdas := tx_lambdas s - 1\<rparr>) w),
         release_state E t])"

definition multiplexer_do_receive ::
  "nat \<Rightarrow> nat \<Rightarrow> handler \<Rightarrow> 'a udp_world_scheme \<Rightarrow> 'a udp_world_scheme result" where
  "multiplexer_do_receive u a h w =
     (case mfronts w u of
        None \<Rightarrow> handler_post h bad_descriptor [0] w
      | Some t \<Rightarrow>
          steps
            [assert_that ''!_state->rx_handler'' (\<lambda>w. rx_handler (mstates w t) = None),
             \<lambda>w. Inr (upd_mstate t (\<lambda>x. x\<lparr>rx_ep := Some a, rx_handler := h\<rparr>) w),
             \<lambda>w. and_then (state_impl t w) (\<lambda>m. register_recv_handler m (state_entry t) w)] w)"

definition multiplexer_on_send_to ::
  "nat \<Rightarrow> nat \<Rightarrow> slot_fn \<Rightarrow> 'a udp_world_scheme \<Rightarrow> 'a udp_world_scheme result" where
  "multiplexer_on_send_to u c f w =
     (case mfronts w u of
        None \<Rightarrow> Inl (AssertFailed ''_state'')
      | Some t \<Rightarrow> and_then (state_impl t w) (\<lambda>m. Inr (mux_on_send_to m c f w)))"

definition multiplexer_local_endpoint :: "nat \<Rightarrow> 'a udp_world_scheme \<Rightarrow> endpoint result" where
  "multiplexer_local_endpoint u w =
     (case mfronts w u of
        None \<Rightarrow> Inl (AssertFailed ''_state'')
      | Some t \<Rightarrow> and_then (state_impl t w) (\<lambda>m. Inr (local_endpoint (muxes w m))))"

text \<open>\<open>tx_buffers()\<close> and \<open>rx_buffers()\<close> return null without a state: nothing is stored.\<close>

definition state_tx_buffers :: "nat \<Rightarrow> buffer list \<Rightarrow> 'a udp_world_scheme \<Rightarrow> 'a udp_world_scheme" where
  "state_tx_buffers u bufs w =
     (case mfronts w u of None \<Rightarrow> w
      | Some t \<Rightarrow> upd_mstate t (\<lambda>x. x\<lparr>ms_tx_buffers := bufs\<rparr>) w)"

definition state_rx_buffers :: "nat \<Rightarrow> buffer list \<Rightarrow> 'a udp_world_scheme \<Rightarrow> 'a udp_world_scheme" where
  "state_rx_buffers u bufs w =
     (case mfronts w u of None \<Rightarrow> w
      | Some t \<Rightarrow> upd_mstate t (\<lambda>x. x\<lparr>ms_rx_buffers := bufs\<rparr>) w)"

definition async_send_to ::
  "nat \<Rightarrow> buffer list \<Rightarrow> nat \<Rightarrow> user_fn \<Rightarrow> 'a udp_world_scheme \<Rightarrow> 'a udp_world_scheme result" where
  "async_send_to u bufs dst token w =
     multiplexer_do_send u dst (new_handler token) (state_tx_buffers u bufs w)"

definition async_receive_from ::
  "nat \<Rightarrow> buffer list \<Rightarrow> nat \<Rightarrow> user_fn \<Rightarrow> 'a udp_world_scheme \<Rightarrow> 'a udp_world_scheme result" where
  "async_receive_from u bufs a token w =
     multiplexer_do_receive u a (new_handler token) (state_rx_buffers u bufs w)"

end
