(* ===== verification/Programs.thy ===== *)
theory Programs
  imports Udp_Multiplexer
begin

text \<open>
  The library as a whole, run by a program of the user's and a libutp.

  A program is a tree of calls into the library: \<open>user_op\<close> lists the calls, \<open>run_op\<close> performs
  one. The functions the user hands to the library (completion functions, slots) are programs.
  libutp is not part of the sources; a call into it is a script: libutp updates its own state,
  invokes one callback, looks at the callback's result and at its state (which nested calls
  may have changed) and goes on, until it returns. Programs and scripts are arbitrary
  arguments. \<open>tie\<close> makes an environment of them, in which the calls of libutp and the functions
  of the user that run inside a library call nest at most \<open>n\<close> deep; a deeper nesting is the
  fault \<open>NestingExceeded\<close>.

  \<open>sys_step\<close> is one step of the program: the user's code runs, or the executor runs a posted
  function, a wait of a timer ends, a receive or a send of a UDP socket completes.
\<close>

section \<open>Calls of the user\<close>

datatype user_op =
    Socket_bind nat nat nat endpoint error_code       \<comment> \<open>socket, new impl, new multiplexer\<close>
  | Socket_bind_multiplexer nat nat nat error_code
  | Socket_close nat
  | Socket_destroy nat
  | Socket_move_construct nat nat
  | Socket_move_assign nat nat
  | Async_connect nat endpoint user_fn
  | Async_accept nat user_fn
  | Async_write_some nat "buffer list" user_fn
  | Async_read_some nat "buffer list" user_fn
  | Multiplexer_bind nat nat nat endpoint error_code  \<comment> \<open>object, new state, new multiplexer\<close>
  | Multiplexer_bind_other nat nat nat
  | Multiplexer_bind_socket nat nat nat endpoint
  | Multiplexer_copy nat nat nat
  | Multiplexer_move nat nat
  | Multiplexer_close nat error_code
  | Async_send_to nat "buffer list" nat user_fn
  | Async_receive_from nat "buffer list" nat user_fn
  | On_send_to nat nat slot_fn
  | Disconnect nat nat
  | Poke nat byte                                     \<comment> \<open>a write to the user's memory\<close>

text \<open>The error code a call returns is for the user to look at.\<close>

definition drop_value :: "('w \<Rightarrow> ('r \<times> 'w) result) \<Rightarrow> 'w \<Rightarrow> 'w result" where
  "drop_value f w = and_then (f w) (\<lambda>(r, w). Inr w)"

fun run_op ::
  "('a udp_world_scheme) env \<Rightarrow> user_op \<Rightarrow> 'a udp_world_scheme \<Rightarrow> 'a udp_world_scheme result" where
  "run_op E (Socket_bind o' s m ep ec) = drop_value (socket_bind E o' s m ep ec)"
| "run_op E (Socket_bind_multiplexer o' s u ec) =
     drop_value (socket_bind_multiplexer E o' s u ec)"
| "run_op E (Socket_close o') = socket_close E o'"
| "run_op E (Socket_destroy o') = socket_destroy E o'"
| "run_op E (Socket_move_construct o' other) = socket_move_construct o' other"
| "run_op E (Socket_move_assign o' other) = socket_move_assign E o' other"
| "run_op E (Async_connect o' ep f) = async_connect E o' ep f"
| "run_op E (Async_accept o' f) = async_accept o' f"
| "run_op E (Async_write_some o' bufs f) = async_write_some E o' bufs f"
| "run_op E (Async_read_some o' bufs f) = async_read_some E o' bufs f"
| "run_op E (Multiplexer_bind u t m ep ec) = drop_value (multiplexer_bind E u t m ep ec)"
| "run_op E (Multiplexer_bind_other u other t) = multiplexer_bind_other E u other t"
| "run_op E (Multiplexer_bind_socket u t m ep) = multiplexer_bind_socket E u t m ep"
| "run_op E (Multiplexer_copy u other t) = multiplexer_copy u other t"
| "run_op E (Multiplexer_move u other) = (\<lambda>w. Inr (multiplexer_move u other w))"
| "run_op E (Multiplexer_close u ec) = drop_value (multiplexer_close E u ec)"
| "run_op E (Async_send_to u bufs dst f) = async_send_to u bufs dst f"
| "run_op E (Async_receive_from u bufs a f) = async_receive_from u bufs a f"
| "run_op E (On_send_to u c f) = multiplexer_on_send_to u c f"
| "run_op E (Disconnect m c) =
     (\<lambda>w. Inr (upd_mux m (\<lambda>x. x\<lparr>send_to_signal := connection_destroy c (send_to_signal x)\<rparr>) w))"
| "run_op E (Poke a b) = (\<lambda>w. Inr (w\<lparr>mem := (mem w)(a := b)\<rparr>))"

datatype 'w prog =
    Done
  | Call user_op "'w \<Rightarrow> 'w prog"

primrec run_prog ::
  "('a udp_world_scheme) env \<Rightarrow> ('a udp_world_scheme) prog
     \<Rightarrow> 'a udp_world_scheme \<Rightarrow> 'a udp_world_scheme result" where
  "run_prog E Done = Inr"
| "run_prog E (Call op k) = (\<lambda>w. and_then (run_op E op w) (\<lambda>w. run_prog E (k w) w))"


section \<open>libutp and the user's functions\<close>

datatype 'l script =
    Return 'l int
  | Invoke 'l callback "int \<Rightarrow> 'l \<Rightarrow> 'l script"

record 'l utp_world = udp_world +
  lib :: 'l     \<comment> \<open>the state of libutp\<close>

primrec run_script ::
  "(callback \<Rightarrow> 'l utp_world \<Rightarrow> (int \<times> 'l utp_world) result) \<Rightarrow> 'l script
     \<Rightarrow> 'l utp_world \<Rightarrow> (int \<times> 'l utp_world) result" where
  "run_script h (Return l r) = (\<lambda>w. Inr (r, w\<lparr>lib := l\<rparr>))"
| "run_script h (Invoke l cb k) =
     (\<lambda>w. and_then (h cb (w\<lparr>lib := l\<rparr>)) (\<lambda>(r, w). run_script h (k r (lib w)) w))"

record 'l outside =
  api :: "utp_call \<Rightarrow> 'l \<Rightarrow> 'l script"
  completion :: "user_fn \<Rightarrow> error_code \<Rightarrow> nat list \<Rightarrow> ('l utp_world) prog"
  slot_prog :: "slot_fn \<Rightarrow> byte list \<Rightarrow> nat \<Rightarrow> endpoint \<Rightarrow> error_code \<Rightarrow> ('l utp_world) prog"
  sockets :: "('l utp_world) env"     \<comment> \<open>its fields for UDP sockets, executor and host\<close>

primrec tie :: "'l outside \<Rightarrow> nat \<Rightarrow> ('l utp_world) env" where
  "tie X 0 = (sockets X)\<lparr>utp := (\<lambda>c w. Inl NestingExceeded),
     user := (\<lambda>f ec args w. Inl NestingExceeded),
     slot := (\<lambda>f bs n dst ec w. Inl NestingExceeded)\<rparr>"
| "tie X (Suc n) = (sockets X)\<lparr>
     utp := (\<lambda>c w. run_script (run_callback (tie X n)) (api X c (lib w)) w),
     user := (\<lambda>f ec args. run_prog (tie X n) (completion X f ec args)),
     slot := (\<lambda>f bs k dst ec. run_prog (tie X n) (slot_prog X f bs k dst ec))\<rparr>"

lemma tie_sockets [simp]:
  "inline (tie X n) = inline (sockets X)" "udp_open (tie X n) = udp_open (sockets X)"
  "udp_bind (tie X n) = udp_bind (sockets X)" "udp_send (tie X n) = udp_send (sockets X)"
  "udp_available (tie X n) = udp_available (sockets X)" "udp_cancel (tie X n) = udp_cancel (sockets X)"
  "udp_is_open (tie X n) = udp_is_open (sockets X)" "utp_init (tie X n) = utp_init (sockets X)"
  "getpeername (tie X n) = getpeername (sockets X)" "buffer_copy (tie X n) = buffer_copy (sockets X)"
  "host_abi (tie X n) = host_abi (sockets X)" "reallocates (tie X n) = reallocates (sockets X)"
  "emission_bound (tie X n) = emission_bound (sockets X)"
  by (cases n; simp)+


section \<open>Steps of the whole program\<close>

datatype 'l event =
    Run_user "('l utp_world) prog"
  | Run_posted
  | Timer_expired nat
  | Received nat error_code "byte list" endpoint
  | Sent nat error_code nat                       \<comment> \<open>index into \<open>sends\<close>, result\<close>

fun possible :: "'l event \<Rightarrow> 'l utp_world \<Rightarrow> bool" where
  "possible (Run_user p) w = True"
| "possible Run_posted w = (posted w \<noteq> [])"
| "possible (Timer_expired c) w = (waits (ticking (ctxs w c)) > 0)"
| "possible (Received m ec dgram ep) w =
     (life (muxes w m) \<noteq> not_created \<and> rx_ops (muxes w m) > 0 \<and> length dgram \<le> rx_buffer_size)"
| "possible (Sent i ec n) w = (i < length (sends w))"

definition remove_nth :: "nat \<Rightarrow> 'b list \<Rightarrow> 'b list" where
  "remove_nth i xs = take i xs @ drop (Suc i) xs"

fun run_event :: "('l utp_world) env \<Rightarrow> 'l event \<Rightarrow> 'l utp_world \<Rightarrow> ('l utp_world) result" where
  "run_event E (Run_user p) w = run_prog E p w"
| "run_event E Run_posted w = run_posted E w"
| "run_event E (Timer_expired c) w = ctx_on_timer E c w"
| "run_event E (Received m ec dgram ep) w = receive_completed E m ec dgram ep w"
| "run_event E (Sent i ec n) w =
     send_completed E (sends w ! i) ec n (w\<lparr>sends := remove_nth i (sends w)\<rparr>)"

inductive sys_step :: "'l outside \<Rightarrow> 'l utp_world \<Rightarrow> 'l utp_world \<Rightarrow> bool" for X where
  step: "possible ev w \<Longrightarrow> run_event (tie X n) ev w = Inr w' \<Longrightarrow> sys_step X w w'"

text \<open>Before the program runs nothing is in use.\<close>

definition no_endpoint :: endpoint where
  "no_endpoint = \<lparr>ep_address = address_v4 (replicate 4 0), ep_port = 0\<rparr>"

definition blank_mux :: mux_impl where
  "blank_mux = (new_mux no_endpoint)\<lparr>life := not_created\<rparr>"

definition blank_impl :: socket_impl where
  "blank_impl = (new_socket_impl 0 0)\<lparr>allocated := False, owner := None, closed := True\<rparr>"

definition start_world :: "'l \<Rightarrow> 'l utp_world" where
  "start_world l =
     \<lparr>posted = [], mem = (\<lambda>_. 0), userdata = (\<lambda>_. None), calls = [],
      muxes = (\<lambda>_. blank_mux),
      entries = (\<lambda>_. \<lparr>re_multiplexer = None, re_handler = None\<rparr>), multiplexers = (\<lambda>_. None),
      ctxs = (\<lambda>_. (new_context no_endpoint)\<lparr>utp_ctx := False\<rparr>),
      socks = (\<lambda>_. blank_impl), fronts = (\<lambda>_. new_socket),
      mstates = (\<lambda>_. new_state None), mfronts = (\<lambda>_. None), eps = (\<lambda>_. no_endpoint), sends = [],
      lib = l\<rparr>"

inductive reachable :: "'l outside \<Rightarrow> 'l utp_world \<Rightarrow> bool" for X where
  start: "reachable X (start_world l)"
| step: "reachable X w \<Longrightarrow> sys_step X w w' \<Longrightarrow> reachable X w'"

end
