(* ===== verification/Closure.thy ===== *)
theory Closure
  imports Contracts Programs
begin

text \<open>
  The contract of the user-facing classes, and the step from building blocks to whole runs:
  a relation that the building blocks keep is kept by every call of the user
  (\<open>kept_ops\<close>) and, by induction on the nesting depth, by every call into a libutp of scripts
  and every function of the user (\<open>tie_kept\<close>).
\<close>

section \<open>The building blocks of the user-facing classes\<close>

definition plain :: "handler \<Rightarrow> bool" where
  "plain h = (case h of None \<Rightarrow> True | Some i \<Rightarrow> after i = None)"

definition plain_handlers :: "mux_state \<Rightarrow> mux_state \<Rightarrow> bool" where
  "plain_handlers x y \<longleftrightarrow> (rx_handler y = rx_handler x \<or> plain (rx_handler y))
     \<and> (tx_handler y = tx_handler x \<or> plain (tx_handler y))"

definition plain_update :: "mux_state \<Rightarrow> mux_state \<Rightarrow> bool" where
  "plain_update x y \<longleftrightarrow> plain_handlers x y \<and> ms_impl y = ms_impl x"

lemma plain_simps [simp]: "plain None" "plain (new_handler f)"
  by (simp_all add: plain_def new_handler_def)

text \<open>
  References to a multiplexer change hands: a member is assigned and its old reference given
  up, a new multiplexer is entered into the service, a state is placed or gives up its
  reference. Each is one step for a relation that counts references.
\<close>

definition assign_front :: "nat \<Rightarrow> nat option \<Rightarrow> 'a sock_world_scheme \<Rightarrow> 'a sock_world_scheme" where
  "assign_front fr mi w =
     (let w' = upd_front fr (\<lambda>f. f\<lparr>multiplexer := mi\<rparr>) w
      in case multiplexer (fronts w fr) of None \<Rightarrow> w' | Some j \<Rightarrow> release_ref j w')"

definition listed_mux :: "nat \<Rightarrow> endpoint \<Rightarrow> 'a ctx_world_scheme \<Rightarrow> 'a ctx_world_scheme" where
  "listed_mux m ep w = (mux_create m ep w)\<lparr>multiplexers := (multiplexers w)(ep := Some m)\<rparr>"

definition shared :: "nat \<Rightarrow> 'a udp_world_scheme \<Rightarrow> bool" where
  "shared m w \<longleftrightarrow> alive (muxes w m) \<or> (\<exists>t. ms_impl (mstates w t) = Some m)"

text \<open>What a new state needs of its receive entry.\<close>

definition free_entry :: "nat \<Rightarrow> 'a udp_world_scheme \<Rightarrow> bool" where
  "free_entry t w \<longleftrightarrow> re_handler (entries w (state_entry t)) = None
     \<and> \<not> hook_linked (state_entry t) w \<and> tx_lambdas (mstates w t) = 0"

locale kept_refs = kept_relation R
  for R :: "'a udp_world_scheme \<Rightarrow> 'a udp_world_scheme \<Rightarrow> bool" +
  assumes clear_front_kept: "R w (assign_front fr None w)"
    and share_front_kept: "shared i w \<Longrightarrow> R w (assign_front fr (Some i) (upd_mux i take_ref w))"
    and create_front_kept: "unused_mux i w \<Longrightarrow> R w (assign_front fr (Some i) (listed_mux i ep w))"
    and move_front_kept: "fronts w fr = new_socket \<Longrightarrow>
      R w (upd_front fr (\<lambda>_. fronts w other) (upd_front other (\<lambda>_. new_socket) w))"
    and steal_front_kept: "R w (assign_front fr (multiplexer (fronts w other))
      (upd_front other (\<lambda>f. f\<lparr>multiplexer := None\<rparr>) w))"
    and place_null_kept: "ms_impl (mstates w t) = None \<Longrightarrow> R w (upd_mstate t (\<lambda>_. new_state None) w)"
    and place_shared_kept: "ms_impl (mstates w t) = None \<Longrightarrow> shared i w \<Longrightarrow>
      R w (upd_mstate t (\<lambda>_. new_state (Some i)) (upd_mux i take_ref w))"
    and place_listed_kept: "ms_impl (mstates w t) = None \<Longrightarrow> unused_mux i w \<Longrightarrow>
      R w (upd_mstate t (\<lambda>_. new_state (Some i)) (listed_mux i ep w))"
    and place_new_kept: "ms_impl (mstates w t) = None \<Longrightarrow> unused_mux i w \<Longrightarrow>
      R w (upd_mstate t (\<lambda>_. new_state (Some i)) (mux_create i ep w))"
    and drop_state_kept: "ms_impl (mstates w t) = Some i \<Longrightarrow>
      R w (release_ref i (upd_mstate t (\<lambda>x. x\<lparr>ms_impl := None\<rparr>) w))"

text \<open>A relation that does not look at references keeps them one by one.\<close>

locale kept_free = kept_relation R
  for R :: "'a udp_world_scheme \<Rightarrow> 'a udp_world_scheme \<Rightarrow> bool" +
  assumes any_front_kept: "R w (upd_front fr g w)"
    and take_ref_kept: "R w (upd_mux m take_ref w)"
    and drop_ref_kept: "R w (upd_mux m drop_ref w)"
    and service_kept: "R w (w\<lparr>multiplexers := ms\<rparr>)"
    and new_mux_kept: "unused_mux m w \<Longrightarrow> R w (mux_create m ep w)"
    and new_state_kept: "R w (upd_mstate t (\<lambda>_. new_state mi) w)"
    and ms_impl_kept: "R w (upd_mstate t (\<lambda>x. x\<lparr>ms_impl := None\<rparr>) w)"
begin

lemma release_ref_kept: "R w (release_ref m w)"
  by (auto simp: release_ref_def intro: drop_ref_kept kept_trans [OF drop_ref_kept service_kept])

lemma free_lock_kept: "R (upd_mux m take_ref w) w' \<Longrightarrow> R w (release_ref m w')"
  using take_ref_kept release_ref_kept kept_trans by blast

lemma assign_front_kept: "R w (assign_front fr mi w)"
  by (auto simp: assign_front_def Let_def split: option.split
      intro: any_front_kept kept_trans [OF any_front_kept release_ref_kept])

lemma listed_mux_kept: "unused_mux m w \<Longrightarrow> R w (listed_mux m ep w)"
  unfolding listed_mux_def by (rule kept_trans [OF new_mux_kept service_kept])

end

sublocale kept_free \<subseteq> kept_refs
  by unfold_locales
     (auto intro: assign_front_kept kept_trans [OF take_ref_kept assign_front_kept]
       kept_trans [OF listed_mux_kept assign_front_kept] kept_trans [OF any_front_kept any_front_kept]
       kept_trans [OF any_front_kept assign_front_kept] new_state_kept
       kept_trans [OF take_ref_kept new_state_kept] kept_trans [OF listed_mux_kept new_state_kept]
       kept_trans [OF new_mux_kept new_state_kept] kept_trans [OF ms_impl_kept release_ref_kept])

locale kept_lib = kept_core R E + kept_refs R
  for R :: "'a udp_world_scheme \<Rightarrow> 'a udp_world_scheme \<Rightarrow> bool"
    and E :: "('a udp_world_scheme) env" +
  assumes user_kept: "keeps R (user E fn ec args)"
    and new_impl_kept: "unused_impl s w \<Longrightarrow> R w (upd_sock s (\<lambda>_. new_socket_impl o' c) w)"
    and registered_kept: "R w (upd_ctx c (\<lambda>x. x\<lparr>registered_sockets := registered_sockets x @ [s]\<rparr>) w)"
    and mstate_kept: "(\<And>x. plain_update x (f x)) \<Longrightarrow> R w (upd_mstate t f w)"
    and mfronts_kept: "R w (w\<lparr>mfronts := mf\<rparr>)"
    and eps_kept: "R w (w\<lparr>eps := ee\<rparr>)"
    and sends_kept: "R w (w\<lparr>sends := ss\<rparr>)"
    and new_entry_kept: "free_entry t w \<Longrightarrow> R w (upd_entry (state_entry t) (\<lambda>_. r) w)"
    and clear_entry_kept: "R w (upd_entry (state_entry t) (\<lambda>r. r\<lparr>re_handler := None\<rparr>) w)"
    and unlink_kept: "keeps R (entry_unlink E (state_entry t))"
    and link_kept: "keeps R (register_recv_handler m (state_entry t))"
    and signal_kept: "R w (upd_mux m (\<lambda>x. x\<lparr>send_to_signal := sg x\<rparr>) w)"
    and post_rx_kept: "keeps R (post_rx_handler t ec args)"
    and post_tx_kept: "keeps R (post_tx_handler t ec args)"

lemma keeps_drop_value: "keeps_val R f \<Longrightarrow> keeps R (drop_value f)"
  by (rule keepsI) (auto simp: drop_value_def and_then_Inr_iff dest: keeps_valD)

locale kept_ops = kept_lib R E + kept_blocks R E
  for R :: "'a udp_world_scheme \<Rightarrow> 'a udp_world_scheme \<Rightarrow> bool"
    and E :: "('a udp_world_scheme) env"
begin

lemma set_state_kept: "R w (set_state u t w)"
  unfolding set_state_def by (rule mfronts_kept)

lemma set_multiplexer_kept:
  assumes "R w (assign_front fr mi w1)" and "set_multiplexer E fr mi w1 = Inr w'"
  shows "R w w'"
proof (cases "multiplexer (fronts w1 fr)")
  case None
  with assms show ?thesis by (simp add: set_multiplexer_def assign_front_def Let_def)
next
  case (Some j)
  with assms(2) have "mux_drop E j (upd_front fr (\<lambda>f. f\<lparr>multiplexer := mi\<rparr>) w1) = Inr w'"
    by (simp add: set_multiplexer_def Let_def)
  moreover have "R w (release_ref j (upd_front fr (\<lambda>f. f\<lparr>multiplexer := mi\<rparr>) w1))"
    using assms(1) Some by (simp add: assign_front_def Let_def)
  ultimately show ?thesis by (rule drop_kept [rotated])
qed

lemma keeps_clear_multiplexer: "keeps R (set_multiplexer E fr None)"
  by (rule keepsI) (rule set_multiplexer_kept [OF clear_front_kept])

lemma keeps_install_impl: "keeps R (install_impl o' s m)"
proof (rule keepsI)
  fix w w' :: "'a udp_world_scheme"
  assume "install_impl o' s m w = Inr w'"
  then show "R w w'"
    by (auto simp: install_impl_def register_socket_def
        intro: kept_trans [OF kept_trans [OF new_impl_kept front_kept] registered_kept])
qed

text \<open>
  What looking up or creating a multiplexer does: it returns no multiplexer and changes
  nothing, one more reference to a live one, or a new one.
\<close>

lemma maybe_create_cases:
  assumes "maybe_create_udp_multiplexer E m ep ec w = Inr ((mp, ec'), w')"
  obtains "mp = None" "w' = w"
  | i where "mp = Some i" "alive (muxes w i)" "w' = upd_mux i take_ref w"
  | ep' where "mp = Some m" "unused_mux m w" "w' = listed_mux m ep' w" "ec' = no_error"
proof (cases "multiplexers w ep")
  case (Some i)
  with assms have "if alive (muxes w i) then mp = Some i \<and> w' = upd_mux i take_ref w else mp = None \<and> w' = w"
    by (auto simp: maybe_create_udp_multiplexer_def)
  then show thesis using that(1,2) by presburger
next
  case None
  obtain local e where bind: "udp_bind E ep w = (local, e)" by fastforce
  show thesis
  proof (cases "e = no_error")
    case False
    with None assms bind show thesis
      by (intro that(1)) (auto simp: maybe_create_udp_multiplexer_def split: if_splits)
  next
    case True
    with None assms bind have "new_multiplexer E m local w = Inr (mux_create m local w)" "unused_mux m w"
      "mp = Some m" "ec' = no_error" "w' = listed_mux m local w"
      by (auto simp: maybe_create_udp_multiplexer_def new_multiplexer_def and_then_Inr_iff listed_mux_def
          split: if_splits) (simp_all add: mux_create_def)
    then show thesis using that(3) by blast
  qed
qed

text \<open>Both \<open>bind\<close>s give the reference up when there is an error code.\<close>

lemma rejected_kept:
  assumes "maybe_create_udp_multiplexer E m ep ec w = Inr ((mp, ec'), w1)" and "ec' \<noteq> no_error"
    and "(case mp of None \<Rightarrow> Inr (ec', w1) | Some i \<Rightarrow> and_then (mux_drop E i w1) (\<lambda>w. Inr (ec', w)))
      = Inr (r, w')"
  shows "R w w'"
  using assms(1)
proof (cases rule: maybe_create_cases)
  case (2 i)
  with assms(3) have "mux_drop E i (upd_mux i take_ref w) = Inr w'" by (auto simp: and_then_Inr_iff)
  with lock_kept [OF 2(2) kept_refl] show ?thesis by (rule drop_kept)
qed (use assms(2,3) in \<open>auto simp: kept_refl\<close>)

lemma bound_kept:
  assumes "maybe_create_udp_multiplexer E m ep ec w = Inr ((mp, ec'), w1)"
    and "set_multiplexer E fr mp w1 = Inr w'"
  shows "R w w'"
  using assms(1)
proof (cases rule: maybe_create_cases)
  case 1
  with assms(2) show ?thesis by (auto intro: set_multiplexer_kept [OF clear_front_kept])
next
  case (2 i)
  then have "R w (assign_front fr (Some i) (upd_mux i take_ref w))"
    by (intro share_front_kept) (simp add: shared_def)
  with 2 assms(2) show ?thesis by (auto intro: set_multiplexer_kept)
next
  case (3 ep')
  with assms(2) show ?thesis by (auto intro: set_multiplexer_kept [OF create_front_kept])
qed

lemma keeps_socket_bind: "keeps_val R (socket_bind E o' s m ep ec)"
proof (rule keeps_valI)
  fix w w' :: "'a udp_world_scheme" and r
  assume a: "socket_bind E o' s m ep ec w = Inr (r, w')"
  show "R w w'"
  proof (cases "impl (fronts w o') = None")
    case False
    with a show ?thesis by (auto simp: socket_bind_def kept_refl)
  next
    case True
    with a obtain mp ec1 w1 where
      w1: "maybe_create_udp_multiplexer E m ep ec w = Inr ((mp, ec1), w1)"
      and rest: "(if ec1 \<noteq> no_error then
          (case mp of None \<Rightarrow> Inr (ec1, w1)
           | Some i \<Rightarrow> and_then (mux_drop E i w1) (\<lambda>w. Inr (ec1, w)))
        else and_then (set_multiplexer E o' mp w1) (\<lambda>w. case mp of
            None \<Rightarrow> Inl (NullPointer ''_multiplexer'')
          | Some i \<Rightarrow> and_then (install_impl o' s i w) (\<lambda>w. Inr (ec1, w)))) = Inr (r, w')"
      by (auto simp: socket_bind_def and_then_Inr_iff)
    show ?thesis
    proof (cases "ec1 = no_error")
      case False
      with rest show ?thesis by (intro rejected_kept [OF w1]) simp_all
    next
      case True
      with rest obtain w2 i where "set_multiplexer E o' mp w1 = Inr w2" "install_impl o' s i w2 = Inr w'"
        by (auto simp: and_then_Inr_iff split: option.splits)
      then show ?thesis
        using bound_kept [OF w1] keepsD [OF keeps_install_impl] kept_trans by blast
    qed
  qed
qed

lemma socket_bind_to_kept:
  assumes "socket_bind_to E o' s mi ec w = Inr (r, w')" and "shared mi w"
  shows "R w w'"
proof -
  from assms(1) consider "w' = w"
    | w1 where "set_multiplexer E o' (Some mi) (upd_mux mi take_ref w) = Inr w1"
        "install_impl o' s mi w1 = Inr w'"
    by (auto simp: socket_bind_to_def and_then_Inr_iff split: if_splits)
  then show ?thesis
  proof cases
    case 2
    with set_multiplexer_kept [OF share_front_kept [OF assms(2)]] keepsD [OF keeps_install_impl]
    show ?thesis using kept_trans by blast
  qed (simp add: kept_refl)
qed

lemma keeps_socket_bind_multiplexer: "keeps_val R (socket_bind_multiplexer E o' s u ec)"
proof (rule keeps_valI)
  fix w w' :: "'a udp_world_scheme" and r
  assume "socket_bind_multiplexer E o' s u ec w = Inr (r, w')"
  then show "R w w'"
    by (auto simp: socket_bind_multiplexer_def and_then_Inr_iff kept_refl
        multiplexer_impl_def shared_def split: if_splits option.splits intro!: socket_bind_to_kept)
qed

lemma keeps_socket_close: "keeps R (socket_close E o')"
proof -
  have "keeps R (steps [guarded (is_open s) (sock_close E s),
      \<lambda>w. Inr (upd_front o' (\<lambda>f. f\<lparr>impl := None\<rparr>) w), set_multiplexer E o' None])" for s
    unfolding sock_close_def
    by (auto intro!: keeps_steps keeps_guarded keeps_close_with_error keeps_update front_kept
        keeps_clear_multiplexer)
  then have "keeps R (\<lambda>w. case impl (fronts w o') of None \<Rightarrow> Inr w
    | Some s \<Rightarrow> steps [guarded (is_open s) (sock_close E s),
        \<lambda>w. Inr (upd_front o' (\<lambda>f. f\<lparr>impl := None\<rparr>) w), set_multiplexer E o' None] w)"
    by (intro keeps_case_option keeps_Inr)
  then show ?thesis by (simp add: socket_close_def keeps_def del: steps.simps)
qed

lemma keeps_socket_destroy: "keeps R (socket_destroy E o')"
  unfolding socket_destroy_def
  by (auto intro!: keeps_steps keeps_socket_close keeps_clear_multiplexer)

lemma set_owner_kept: "R w (set_owner o' w)"
  by (auto simp: set_owner_def same_ops_def kept_refl split: option.split intro: sock_kept)

lemma keeps_move_construct: "keeps R (socket_move_construct o' other)"
proof (rule keepsI)
  fix w w' :: "'a udp_world_scheme"
  assume "socket_move_construct o' other w = Inr w'"
  then show "R w w'"
    by (auto simp: socket_move_construct_def Let_def
        intro: kept_trans [OF move_front_kept set_owner_kept])
qed

lemma keeps_move_assign: "keeps R (socket_move_assign E o' other)"
proof -
  have *: "R w w'" if "set_multiplexer E o' (multiplexer (fronts w other))
      (upd_front other (\<lambda>f. f\<lparr>multiplexer := None\<rparr>)
        (upd_front o' (\<lambda>f. f\<lparr>impl := si\<rparr>) (upd_front other (\<lambda>f. f\<lparr>impl := None\<rparr>) w))) = Inr w'" for w w' si
  proof -
    let ?w = "upd_front o' (\<lambda>f. f\<lparr>impl := si\<rparr>) (upd_front other (\<lambda>f. f\<lparr>impl := None\<rparr>) w)"
    have "multiplexer (fronts ?w other) = multiplexer (fronts w other)" by (simp add: upd_front_def)
    then have "R ?w w'" using that set_multiplexer_kept [OF steal_front_kept [of ?w o' other]] by simp
    moreover have "R w ?w" by (rule kept_trans [OF front_kept front_kept]) simp_all
    ultimately show ?thesis by (rule kept_trans [rotated])
  qed
  show ?thesis
    unfolding socket_move_assign_def
  proof (rule keeps_steps, unfold list.pred_inject, intro conjI)
    show "keeps R (socket_close E o')" by (rule keeps_socket_close)
  qed (simp | rule keepsI; auto simp: kept_refl set_owner_kept Let_def dest: * split: option.splits if_splits)+
qed

lemma keeps_async_connect: "keeps R (async_connect E o' ep f)"
proof (rule keepsI)
  fix w w' :: "'a udp_world_scheme"
  assume "async_connect E o' ep f w = Inr w'"
  then show "R w w'"
    by (auto simp: async_connect_def socket_do_connect_def split: option.splits
        dest: keepsD [OF keeps_do_connect] keepsD [OF plain_post_kept])
qed

lemma keeps_async_accept: "keeps R (async_accept o' f)"
proof (rule keepsI)
  fix w w' :: "'a udp_world_scheme"
  assume "async_accept o' f w = Inr w'"
  then show "R w w'"
    by (auto simp: async_accept_def socket_do_accept_def split: option.splits
        dest: keepsD [OF keeps_do_accept] keepsD [OF plain_post_kept])
qed

lemma store_buffers_kept: "R w (store_tx_buffers o' bufs w)" "R w (store_rx_buffers o' bufs w)"
  by (auto simp: store_tx_buffers_def store_rx_buffers_def same_ops_def kept_refl
      split: option.split intro: sock_kept)

lemma keeps_async_write: "keeps R (async_write_some E o' bufs f)"
proof (rule keepsI)
  fix w w' :: "'a udp_world_scheme"
  assume "async_write_some E o' bufs f w = Inr w'"
  then have "R (store_tx_buffers o' bufs w) w'"
    by (auto simp: async_write_some_def socket_do_write_def split: option.splits
        dest: keepsD [OF keeps_do_write] keepsD [OF plain_post_kept])
  with store_buffers_kept(1) show "R w w'" by (rule kept_trans)
qed

lemma keeps_async_read: "keeps R (async_read_some E o' bufs f)"
proof (rule keepsI)
  fix w w' :: "'a udp_world_scheme"
  assume "async_read_some E o' bufs f w = Inr w'"
  then have "R (store_rx_buffers o' bufs w) w'"
    by (auto simp: async_read_some_def socket_do_read_def split: option.splits
        dest: keepsD [OF keeps_do_read] keepsD [OF plain_post_kept])
  with store_buffers_kept(2) show "R w w'" by (rule kept_trans)
qed

lemma install_state_kept:
  assumes "ms_impl (mstates w1 t) = None \<Longrightarrow> R w (upd_mstate t (\<lambda>_. new_state m) w1)"
    and "install_state u t m w1 = Inr w'"
  shows "R w w'"
proof -
  have u: "unused_state t w1" using assms(2) by (simp add: install_state_def)
  then have "free_entry t (upd_mstate t (\<lambda>_. new_state m) w1)"
    by (simp add: unused_state_def free_entry_def upd_mstate_def hook_linked_def new_state_def split: option.splits)
  moreover have "R w (upd_mstate t (\<lambda>_. new_state m) w1)" using u by (simp add: unused_state_def assms(1))
  ultimately show ?thesis
    using assms(2) kept_trans [OF _ kept_trans [OF new_entry_kept set_state_kept]]
    by (auto simp: install_state_def)
qed

lemma keeps_drop_impl: "keeps R (drop_impl E t)"
proof (rule keepsI)
  fix w w' :: "'a udp_world_scheme"
  assume a: "drop_impl E t w = Inr w'"
  show "R w w'"
  proof (cases "ms_impl (mstates w t)")
    case None
    with a show ?thesis by (simp add: drop_impl_def kept_refl)
  next
    case (Some m)
    with a show ?thesis by (auto simp: drop_impl_def intro: drop_kept [OF drop_state_kept [OF Some]])
  qed
qed

lemma keeps_release_state: "keeps R (release_state E t)"
  unfolding release_state_def by (intro keeps_guarded unlink_kept)

lemma keeps_multiplexer_close: "keeps_val R (multiplexer_close E u ec)"
proof -
  have "keeps R (steps
      [\<lambda>w. Inr (upd_entry (state_entry t) (\<lambda>r. r\<lparr>re_handler := None\<rparr>) w),
       post_rx_handler t operation_aborted [0], post_tx_handler t operation_aborted [0],
       drop_impl E t, \<lambda>w. Inr (set_state u None w), release_state E t])" for t
    by (auto intro!: keeps_steps keeps_update clear_entry_kept post_rx_kept post_tx_kept
        keeps_drop_impl set_state_kept keeps_release_state)
  then show ?thesis
    by (intro keeps_valI)
       (auto simp: multiplexer_close_def and_then_Inr_iff kept_refl simp del: steps.simps
         split: option.splits dest: keepsD)
qed

lemma keeps_multiplexer_copy: "keeps R (multiplexer_copy u other t)"
proof (rule keepsI)
  fix w w' :: "'a udp_world_scheme"
  assume "multiplexer_copy u other t w = Inr w'"
  then show "R w w'"
    by (auto simp: multiplexer_copy_def and_then_Inr_iff shared_def split: option.splits
        intro!: install_state_kept [OF place_shared_kept] simp: upd_mux_def)
qed

lemma installed_kept:
  assumes "maybe_create_udp_multiplexer E m ep ec w = Inr ((mp, ec'), w1)"
    and "install_state u t mp w1 = Inr w'"
  shows "R w w'"
  using assms(1)
proof (cases rule: maybe_create_cases)
  case 1
  with assms(2) show ?thesis by (auto intro: install_state_kept [OF place_null_kept])
next
  case (2 i)
  then have "install_state u t (Some i) (upd_mux i take_ref w) = Inr w'" and "shared i w"
    using assms(2) by (auto simp: shared_def)
  then show ?thesis
    by (elim install_state_kept [rotated]) (intro place_shared_kept; simp add: upd_mux_def)
next
  case (3 ep')
  then have "install_state u t (Some m) (listed_mux m ep' w) = Inr w'" and "unused_mux m w" using assms(2) by auto
  then show ?thesis
    by (elim install_state_kept [rotated]) (intro place_listed_kept; simp add: listed_mux_def mux_create_def)
qed

lemma keeps_multiplexer_bind: "keeps_val R (multiplexer_bind E u t m ep ec)"
proof (rule keeps_valI)
  fix w w' :: "'a udp_world_scheme" and r
  assume "multiplexer_bind E u t m ep ec w = Inr (r, w')"
  then obtain mp ec1 w1 where
    w1: "maybe_create_udp_multiplexer E m ep ec w = Inr ((mp, ec1), w1)"
    and rest: "ec1 \<noteq> no_error \<and> (case mp of None \<Rightarrow> Inr (ec1, w1)
        | Some i \<Rightarrow> and_then (mux_drop E i w1) (\<lambda>w. Inr (ec1, w))) = Inr (r, w')
      \<or> install_state u t mp w1 = Inr w'"
    by (auto simp: multiplexer_bind_def and_then_Inr_iff split: if_splits)
  then show "R w w'" using rejected_kept [OF w1] installed_kept [OF w1] by blast
qed

lemma keeps_multiplexer_bind_other: "keeps R (multiplexer_bind_other E u other t)"
proof (rule keepsI)
  fix w w' :: "'a udp_world_scheme"
  assume "multiplexer_bind_other E u other t w = Inr w'"
  then obtain w1 where "w1 = w \<or> (\<exists>r. multiplexer_close E u no_error w = Inr (r, w1))"
    "multiplexer_copy u other t w1 = Inr w'"
    by (auto simp: multiplexer_bind_other_def and_then_Inr_iff split: if_splits)
  then show "R w w'"
    using keeps_valD [OF keeps_multiplexer_close] keepsD [OF keeps_multiplexer_copy] kept_trans
    by blast
qed

lemma keeps_multiplexer_bind_socket: "keeps R (multiplexer_bind_socket E u t m ep)"
proof (rule keepsI)
  fix w w' :: "'a udp_world_scheme"
  assume "multiplexer_bind_socket E u t m ep w = Inr w'"
  then have "unused_mux m w" "install_state u t (Some m) (mux_create m ep w) = Inr w'"
    by (auto simp: multiplexer_bind_socket_def new_multiplexer_def and_then_Inr_iff split: if_splits)
  then show "R w w'"
    by (elim install_state_kept [rotated]) (intro place_new_kept; simp add: mux_create_def)
qed

lemma tx_started_kept:
  "R w (log_call x ((upd_mstate t (\<lambda>x. x\<lparr>tx_handler := new_handler f, tx_lambdas := k x\<rparr>) w)
     \<lparr>sends := ss\<rparr>))"
  by (rule kept_trans [OF kept_trans [OF mstate_kept sends_kept] log_kept])
     (simp add: plain_update_def plain_handlers_def)

lemma ms_buffers_kept:
  "R w (upd_mstate t (\<lambda>x. x\<lparr>ms_tx_buffers := bufs\<rparr>) w)"
  "R w (upd_mstate t (\<lambda>x. x\<lparr>ms_rx_buffers := bufs\<rparr>) w)"
  by (rule mstate_kept, simp add: plain_update_def plain_handlers_def)+

lemma keeps_do_send: "keeps R (multiplexer_do_send u dst (new_handler f))"
proof (rule keepsI)
  fix w w' :: "'a udp_world_scheme"
  assume "multiplexer_do_send u dst (new_handler f) w = Inr w'"
  then show "R w w'"
    using tx_started_kept
    by (auto simp: multiplexer_do_send_def and_then_Inr_iff Let_def split: option.splits
        dest: keepsD [OF plain_post_kept])
qed

lemma keeps_async_send_to: "keeps R (async_send_to u bufs dst f)"
proof (rule keepsI)
  fix w w' :: "'a udp_world_scheme"
  assume "async_send_to u bufs dst f w = Inr w'"
  then show "R w w'"
    by (auto simp: async_send_to_def state_tx_buffers_def split: option.splits
        intro: kept_trans [OF ms_buffers_kept(1) keepsD [OF keeps_do_send]] keepsD [OF keeps_do_send])
qed

lemma keeps_do_receive: "keeps R (multiplexer_do_receive u a (new_handler f))"
proof -
  have "keeps R (\<lambda>w. and_then (state_impl t w) (\<lambda>m. register_recv_handler m (state_entry t) w))" for t
    by (rule keepsI) (auto simp: and_then_Inr_iff dest: keepsD [OF link_kept])
  then have "keeps R (steps
      [assert_that ''!_state->rx_handler'' (\<lambda>w. rx_handler (mstates w t) = None),
       \<lambda>w. Inr (upd_mstate t (\<lambda>x. x\<lparr>rx_ep := Some a, rx_handler := new_handler f\<rparr>) w),
       \<lambda>w. and_then (state_impl t w) (\<lambda>m. register_recv_handler m (state_entry t) w)])" for t
    by (auto intro!: keeps_steps keeps_assert_that keeps_update mstate_kept simp: plain_update_def plain_handlers_def)
  then show ?thesis
    by (intro keepsI) (auto simp: multiplexer_do_receive_def simp del: steps.simps
        split: option.splits dest: keepsD keepsD [OF plain_post_kept])
qed

lemma keeps_async_receive_from: "keeps R (async_receive_from u bufs a f)"
proof (rule keepsI)
  fix w w' :: "'a udp_world_scheme"
  assume "async_receive_from u bufs a f w = Inr w'"
  then show "R w w'"
    by (auto simp: async_receive_from_def state_rx_buffers_def split: option.splits
        intro: kept_trans [OF ms_buffers_kept(2) keepsD [OF keeps_do_receive]]
          keepsD [OF keeps_do_receive])
qed

lemma keeps_send_completed: "keeps R (send_completed E x ec n)"
proof -
  have finished: "keeps R (send_finished t ec n)" for t ec n
    unfolding send_finished_def by (rule post_tx_kept)
  have "keeps R (\<lambda>w. emit (\<lambda>w. send_to_signal (muxes w m))
      (\<lambda>f. slot E f (gather (mem w) (ms_tx_buffers (mstates w t))) n (eps w d) ec) (emission_bound E) w)" for t m d
    by (rule keepsI) (erule keepsD [OF keeps_emit [OF slot_kept]])
  with finished have "keeps R (with_lock (mux_drop E) m (steps
      [\<lambda>w. emit (\<lambda>w. send_to_signal (muxes w m))
             (\<lambda>f. slot E f (gather (mem w) (ms_tx_buffers (mstates w t))) n (eps w d) ec) (emission_bound E) w,
       send_finished t ec n]))" for t m d
    by (auto intro!: keeps_with_lock keeps_steps)
  with finished show ?thesis
    unfolding send_completed_def Let_def
    by (intro keeps_steps)
       (auto intro!: keeps_if keeps_update mstate_kept keeps_release_state simp: plain_update_def plain_handlers_def
         simp del: steps.simps)
qed

lemma keeps_handle_read: "keeps R (handle_read E t ec ep bs)"
proof (rule keepsI)
  fix w w' :: "'a udp_world_scheme"
  assume a: "handle_read E t ec ep bs w = Inr w'"
  show "R w w'"
  proof (cases "rx_handler (mstates w t)")
    case None
    with a show ?thesis by (simp add: handle_read_def kept_refl)
  next
    case (Some h)
    with a obtain a m n where w': "handler_post (Some h) ec [n]
        (upd_mstate t (\<lambda>x. x\<lparr>rx_ep := None, rx_handler := None\<rparr>) (w\<lparr>eps := (eps w)(a := ep), mem := m\<rparr>))
        = Inr w'"
      by (auto simp: handle_read_def split: option.splits prod.splits)
    let ?w = "upd_mstate t (\<lambda>x. x\<lparr>rx_ep := None\<rparr>) (w\<lparr>eps := (eps w)(a := ep), mem := m\<rparr>)"
    have "post_rx_handler t ec [n] ?w = Inr w'"
      using w' Some by (simp add: post_rx_handler_def upd_mstate_def)
    moreover have "R w (w\<lparr>eps := (eps w)(a := ep), mem := m\<rparr>)"
      using kept_trans [OF eps_kept [of w] mem_kept] .
    moreover have "R (w\<lparr>eps := (eps w)(a := ep), mem := m\<rparr>) ?w"
      by (rule mstate_kept) (simp add: plain_update_def plain_handlers_def)
    ultimately show ?thesis using keepsD [OF post_rx_kept] kept_trans by blast
  qed
qed

lemma keeps_run_op: "keeps R (run_op E op)"
proof (cases op)
  case (Multiplexer_move u other)
  then show ?thesis
    by (auto intro!: keeps_update kept_trans [OF set_state_kept set_state_kept]
        simp: multiplexer_move_def Let_def)
next
  case (On_send_to u c f)
  then show ?thesis
    by (auto intro!: keepsI signal_kept simp: multiplexer_on_send_to_def mux_on_send_to_def
        and_then_Inr_iff split: option.splits)
qed (auto intro!: keeps_drop_value keeps_socket_bind keeps_socket_bind_multiplexer keeps_socket_close
    keeps_socket_destroy keeps_move_construct keeps_move_assign keeps_async_connect keeps_async_accept
    keeps_async_write keeps_async_read keeps_multiplexer_bind keeps_multiplexer_bind_other
    keeps_multiplexer_bind_socket keeps_multiplexer_copy keeps_multiplexer_close keeps_async_send_to
    keeps_async_receive_from keeps_update signal_kept mem_kept)

lemma keeps_run_prog: "keeps R (run_prog E p)"
proof (induction p)
  case Done
  show ?case by (simp add: keeps_Inr)
next
  case (Call op k)
  show ?case
  proof (rule keepsI)
    fix w w' :: "'a udp_world_scheme"
    assume "run_prog E (Call op k) w = Inr w'"
    then obtain w1 where "run_op E op w = Inr w1" "run_prog E (k w1) w1 = Inr w'"
      by (auto simp: and_then_Inr_iff)
    with keepsD [OF keeps_run_op] keepsD [OF Call [OF rangeI]] show "R w w'"
      by (blast intro: kept_trans)
  qed
qed

end


section \<open>Events\<close>

text \<open>
  A relation that keeps the ticker and the registration of entries is kept by the functions of
  the receive entries.
\<close>

locale kept_reads = kept_ops R E
  for R :: "'a udp_world_scheme \<Rightarrow> 'a udp_world_scheme \<Rightarrow> bool"
    and E :: "('a udp_world_scheme) env" +
  assumes ticking_kept: "(running (tk (ticking (ctxs w c)))
        \<Longrightarrow> running (ticking (ctxs w c)) \<or> outstanding_op_count (ctxs w c) \<noteq> 0)
      \<Longrightarrow> R w (upd_ctx c (\<lambda>x. x\<lparr>ticking := tk (ticking x)\<rparr>) w)"
    and register_kept: "keeps R (register_recv_handler m e)"
begin

lemma log_ticking_kept:
  assumes "running (tk (ticking (ctxs w c))) \<Longrightarrow> running (ticking (ctxs w c)) \<or> outstanding_op_count (ctxs w c) \<noteq> 0"
  shows "R w (upd_ctx c (\<lambda>x. x\<lparr>ticking := tk (ticking x)\<rparr>) (log_call a w))"
  using assms by (intro kept_trans [OF log_kept ticking_kept]) (simp add: log_call_def)

lemma keeps_busy_start: "keeps R (guarded (\<lambda>w. outstanding_op_count (ctxs w c) \<noteq> 0) (ctx_start_receiving c))"
proof (rule keepsI)
  fix w w' :: "'a udp_world_scheme"
  assume a: "guarded (\<lambda>w. outstanding_op_count (ctxs w c) \<noteq> 0) (ctx_start_receiving c) w = Inr w'"
  show "R w w'"
  proof (cases "w' = w")
    case False
    with a have busy: "outstanding_op_count (ctxs w c) \<noteq> 0" and s: "ctx_start_receiving c w = Inr w'"
      by (auto simp: guarded_def split: if_splits)
    from s False obtain w1 where w1: "ctx_ticker_start c w = Inr w1"
      and w': "guarded (\<lambda>w. \<not> hook_linked (ctx_entry c) w) (register_recv_handler c (ctx_entry c)) w1 = Inr w'"
      unfolding ctx_start_receiving_def by (auto simp: guarded_def and_then_Inr_iff split: if_splits)
    from w1 busy have "R w w1"
      by (auto simp: ctx_ticker_start_def split: if_splits intro: ticking_kept log_ticking_kept)
    with keepsD [OF keeps_guarded [OF register_kept] w'] show ?thesis by (blast intro: kept_trans)
  qed (simp add: kept_refl)
qed

lemma keeps_ctx_on_read: "keeps R (ctx_on_read E c ec ep bs)"
proof -
  have acks: "keeps R (issue_acks_if_idle E c)"
    unfolding issue_acks_if_idle_def by (intro keeps_guarded keeps_do)
  have "keeps R (\<lambda>w. and_then (to_sockaddr (host_abi E) ep) (\<lambda>src_addr.
      and_then (sockaddr_size (host_abi E) src_addr) (\<lambda>sz.
        utp_do E (utp_process_udp c bs src_addr sz) w)))"
    by (intro keeps_and_then_pure keeps_do)
  with acks show ?thesis
    unfolding ctx_on_read_def
    by (auto intro!: keeps_with_lock keeps_steps keeps_busy_start simp del: neq0_conv)
qed

lemma keeps_recv_call: "keeps R (recv_call E f ec ep bs)"
  by (cases f) (simp_all add: recv_call_def keeps_ctx_on_read keeps_handle_read)

end

text \<open>
  Relations that do not look at how a multiplexer listens are kept by the completions of
  receives, sends and timer waits too.
\<close>

locale kept_inputs = kept_reads R E
  for R :: "'a udp_world_scheme \<Rightarrow> 'a udp_world_scheme \<Rightarrow> bool"
    and E :: "('a udp_world_scheme) env" +
  assumes mux_kept: "(\<And>x. life (f x) = life x) \<Longrightarrow> (\<And>x. local_endpoint (f x) = local_endpoint x)
      \<Longrightarrow> R w (upd_mux m f w)"
begin

lemma keeps_mux_start: "keeps R (mux_start_receiving m)"
  unfolding mux_start_receiving_def
  by (auto intro!: keeps_steps keeps_assert_that keeps_update kept_trans [OF log_kept mux_kept])

lemma flush_loop_kept: "flush_loop (recv_call E) k m ec sz w = Inr w' \<Longrightarrow> R w w'"
proof (induction k arbitrary: w)
  case 0
  then show ?case by (auto simp: kept_refl split: if_splits)
next
  case (Suc k)
  show ?case
  proof (cases "flushing (muxes w m)")
    case Nil
    with Suc.prems show ?thesis by (simp add: kept_refl)
  next
    case (Cons e es)
    with Suc.prems obtain f w1 where
      "recv_call E f ec (rx_endpoint (muxes w m)) (take sz (rx_buffer (muxes w m)))
        (upd_mux m (\<lambda>x. x\<lparr>flushing := es\<rparr>) w) = Inr w1"
      and rest: "flush_loop (recv_call E) k m ec sz w1 = Inr w'"
      by (auto simp: and_then_Inr_iff split: option.splits)
    then have "R (upd_mux m (\<lambda>x. x\<lparr>flushing := es\<rparr>) w) w1" using keepsD [OF keeps_recv_call] by blast
    moreover have "R w (upd_mux m (\<lambda>x. x\<lparr>flushing := es\<rparr>) w)" by (rule mux_kept) simp_all
    ultimately show ?thesis using Suc.IH [OF rest] kept_trans by blast
  qed
qed

lemma keeps_receive_completed: "keeps R (receive_completed E m ec dgram ep)"
proof -
  have "keeps R (flush_handlers (recv_call E) m ec sz)" for sz
    unfolding flush_handlers_def Let_def
    by (rule keepsI) (rule kept_trans [OF mux_kept flush_loop_kept], simp_all)
  then have body: "keeps R (with_lock (mux_drop E) m (steps
      [assert_that ''_is_receiving'' (\<lambda>w. is_receiving (muxes w m)),
       guarded (\<lambda>w. \<not> (ec = operation_aborted \<and> udp_is_open E m w))
         (flush_handlers (recv_call E) m ec (length dgram)),
       \<lambda>w. Inr (upd_mux m (\<lambda>x. x\<lparr>is_receiving := False\<rparr>) w),
       guarded (\<lambda>w. recv_handlers (muxes w m) \<noteq> []) (mux_start_receiving m)]))"
    by (auto intro!: keeps_with_lock keeps_steps keeps_assert_that keeps_guarded keeps_update
        mux_kept keeps_mux_start)
  show ?thesis
  proof (rule keepsI)
    fix w w' :: "'a udp_world_scheme"
    assume "receive_completed E m ec dgram ep w = Inr w'"
    then have "R (mux_received m dgram ep w) w'"
      unfolding receive_completed_def mux_on_receive_def by (rule keepsD [OF body])
    moreover have "R w (mux_received m dgram ep w)"
      unfolding mux_received_def by (rule mux_kept) simp_all
    ultimately show "R w w'" by (rule kept_trans [rotated])
  qed
qed

lemma keeps_ctx_on_timer: "keeps R (ctx_on_timer E c)"
proof -
  let ?waited = "upd_ctx c (\<lambda>x. x\<lparr>ticking := (ticking x)\<lparr>waits := waits (ticking x) - 1, outstanding := False\<rparr>\<rparr>)"
  let ?halt = "upd_ctx c (\<lambda>x. x\<lparr>ticking := (ticking x)\<lparr>running := False\<rparr>\<rparr>)"
  have upd: "R w (?waited w)" "R w (?halt w)" for w by (rule ticking_kept; simp)+
  have tick: "keeps R (ctx_on_tick E c)"
    unfolding ctx_on_tick_def by (auto intro!: keeps_steps keeps_assert_that keeps_do)
  have restart: "keeps R (\<lambda>w. if \<not> running (ticking (ctxs w c)) then Inr w else ctx_ticker_start c (?halt w))"
  proof (rule keepsI)
    fix w w' :: "'a udp_world_scheme"
    let ?again = "upd_ctx c (\<lambda>x. x\<lparr>ticking := ticker_start ((ticking x)\<lparr>running := False\<rparr>)\<rparr>)"
    assume a: "(if \<not> running (ticking (ctxs w c)) then Inr w else ctx_ticker_start c (?halt w)) = Inr w'"
    show "R w w'"
    proof (cases "running (ticking (ctxs w c))")
      case True
      with a have "w' = ?again w \<or> w' = ?again (log_call (TimerWait c 500) w)"
        by (auto simp: ctx_ticker_start_def upd_ctx_def log_call_def split: if_splits)
      with True show ?thesis by (auto intro!: ticking_kept log_ticking_kept)
    qed (use a in \<open>simp add: kept_refl\<close>)
  qed
  have "keeps R (\<lambda>w. if \<not> running (ticking (ctxs w c)) then Inr w
      else and_then (ctx_on_tick E c w) (\<lambda>w. if \<not> running (ticking (ctxs w c)) then Inr w
        else ctx_ticker_start c (?halt w)))"
    by (intro keeps_if keeps_Inr keeps_and_then tick restart)
  then show ?thesis
    unfolding ctx_on_timer_def ticker_on_wait_def Let_def
    by (intro keepsI) (auto dest!: keepsD split: if_splits
        intro: kept_trans [OF upd(1)] kept_trans [OF kept_trans [OF upd(1) upd(2)]])
qed

end

locale kept_events = kept_inputs R E
  for R :: "'a udp_world_scheme \<Rightarrow> 'a udp_world_scheme \<Rightarrow> bool"
    and E :: "('a udp_world_scheme) env" +
  assumes run_posted_kept: "keeps R (run_posted E)"


section \<open>Programs and scripts\<close>

lemma run_script_kept:
  assumes "kept_relation R" and "\<And>w l. R w (w\<lparr>lib := l\<rparr>)" and "\<And>cb. keeps_val R (h cb)"
  shows "keeps_val R (run_script h p)"
proof (induction p)
  case (Return l r)
  show ?case using assms(2) by (intro keeps_valI) auto
next
  case (Invoke l cb k)
  show ?case
  proof (rule keeps_valI)
    fix w r w'
    assume "run_script h (Invoke l cb k) w = Inr (r, w')"
    then obtain r1 w1 where "h cb (w\<lparr>lib := l\<rparr>) = Inr (r1, w1)"
      and rest: "run_script h (k r1 (lib w1)) w1 = Inr (r, w')"
      by (auto simp: and_then_Inr_iff)
    then have "R (w\<lparr>lib := l\<rparr>) w1" using assms(3) by (blast dest: keeps_valD)
    moreover have "R w1 w'"
      using Invoke [OF rangeI rangeI] rest by (blast dest: keeps_valD)
    ultimately show "R w w'"
      using assms(1,2) by (metis kept_relation.kept_trans)
  qed
qed

text \<open>
  A relation whose building blocks are kept as soon as the user's functions keep it is kept by
  everything that happens inside a library call, at every nesting depth.
\<close>

lemma tie_kept:
  assumes core: "\<And>E. (\<And>f ec args. keeps R (user E f ec args)) \<Longrightarrow>
      (\<And>f bs k dst ec. keeps R (slot E f bs k dst ec)) \<Longrightarrow> kept_lib R E"
    and lib: "\<And>w l. R w (w\<lparr>lib := l\<rparr>)"
  shows "kept_ops R (tie X n)"
proof (induction n)
  case 0
  have "kept_lib R (tie X 0)" by (rule core) (simp_all add: keeps_def)
  then show ?case
    by (simp add: kept_ops_def kept_blocks_def kept_blocks_axioms_def kept_lib_def keeps_val_def)
next
  case (Suc n)
  have prog: "keeps R (run_prog (tie X n) p)" for p
    by (rule kept_ops.keeps_run_prog [OF Suc])
  then have lib': "kept_lib R (tie X (Suc n))" by (intro core) simp_all
  have "keeps_val R (run_callback (tie X n) cb)" for cb
    using Suc by (intro kept_blocks.keeps_run_callback) (simp add: kept_ops_def)
  moreover have "kept_relation R"
    using lib' by (simp add: kept_lib_def kept_core_def)
  ultimately have "keeps_val R (run_script (run_callback (tie X n)) p)" for p
    using lib by (intro run_script_kept) simp_all
  then have "keeps_val R (utp (tie X (Suc n)) c)" for c
    by (simp add: keeps_val_def)
  with lib' show ?case
    by (simp add: kept_ops_def kept_blocks_def kept_blocks_axioms_def kept_lib_def)
qed

text \<open>
  What the building blocks keep is kept by every event but the run of a posted function; what
  that keeps too is kept by whole steps.
\<close>

lemma input_kept:
  assumes k: "kept_inputs R E" and "ev \<noteq> Run_posted" and "run_event E ev w = Inr w'"
  shows "R w w'"
proof -
  note ops = kept_reads.axioms(1) [OF kept_inputs.axioms(1) [OF k]]
  note rel = ops [THEN kept_ops.axioms(1), THEN kept_lib.axioms(1), THEN kept_core.axioms(1)]
  show ?thesis
  proof (cases ev)
    case (Run_user p)
    with assms show ?thesis by (auto dest: keepsD [OF kept_ops.keeps_run_prog [OF ops]])
  next
    case (Timer_expired c)
    with assms show ?thesis by (auto dest: keepsD [OF kept_inputs.keeps_ctx_on_timer [OF k]])
  next
    case (Received m ec dgram ep)
    with assms show ?thesis by (auto dest: keepsD [OF kept_inputs.keeps_receive_completed [OF k]])
  next
    case (Sent i ec n')
    with assms have "R (w\<lparr>sends := remove_nth i (sends w)\<rparr>) w'"
      by (auto dest: keepsD [OF kept_ops.keeps_send_completed [OF ops]])
    then show ?thesis
      using kept_lib.sends_kept [OF kept_ops.axioms(1) [OF ops]] kept_relation.kept_trans [OF rel]
      by blast
  qed (use assms(2) in simp)
qed

lemma sys_step_kept:
  assumes "\<And>n. kept_events R (tie X n)" and "sys_step X w w'"
  shows "R w w'"
  using assms(2)
proof cases
  case (step ev n)
  note k = assms(1) [of n]
  show ?thesis
  proof (cases "ev = Run_posted")
    case True
    with step show ?thesis by (auto dest: keepsD [OF kept_events.run_posted_kept [OF k]])
  next
    case False
    with step show ?thesis using input_kept [OF kept_events.axioms(1) [OF k]] by blast
  qed
qed

end
