(* ===== verification/Accounting.thy ===== *)
theory Accounting
  imports Closure
begin

text \<open>
  Accounting of outstanding operations. The context listens on the multiplexer while
  \<open>_outstanding_op_count\<close> is not zero. What the count stands for: the handlers stored in the
  sockets of the context, the posted functions that will decrement the count after the
  user's function, and the sockets whose close is in progress. \<open>gap\<close> is the count minus that
  number. The relation \<open>acct\<close> says that the gap did not fall; it is kept by every building
  block, so by every operation, callback and libutp call (\<open>Contracts\<close>).
\<close>

section \<open>What the count stands for\<close>

definition sock_pending :: "socket_impl \<Rightarrow> nat" where
  "sock_pending x =
     of_bool (handlers x op_connect \<noteq> None) + of_bool (handlers x op_accept \<noteq> None)
     + of_bool (handlers x op_send \<noteq> None) + of_bool (handlers x op_recv \<noteq> None)
     + of_bool (decrement_close x)"

definition stored :: "nat \<Rightarrow> (nat \<Rightarrow> socket_impl) \<Rightarrow> nat" where
  "stored c f = (\<Sum>s \<in> {s. sock_context (f s) = c \<and> sock_pending (f s) \<noteq> 0}. sock_pending (f s))"

definition pending :: "nat \<Rightarrow> 'a udp_world_scheme \<Rightarrow> nat" where
  "pending c w = stored c (socks w) + hooks (decrement_of c) (posted w)"

definition gap :: "nat \<Rightarrow> 'a udp_world_scheme \<Rightarrow> int" where
  "gap c w = int (outstanding_op_count (ctxs w c)) - int (pending c w)"

text \<open>
  Finitely many sockets are busy, a stored handler decrements its socket's context, and the
  handlers of a user-facing multiplexer decrement nothing.
\<close>

definition socks_wf :: "(nat \<Rightarrow> socket_impl) \<Rightarrow> bool" where
  "socks_wf f \<longleftrightarrow> finite {s. sock_pending (f s) \<noteq> 0}
     \<and> (\<forall>s k i. handlers (f s) k = Some i
          \<longrightarrow> after i = Some (decrement_of (sock_context (f s))))"

definition states_wf :: "(nat \<Rightarrow> mux_state) \<Rightarrow> bool" where
  "states_wf f \<longleftrightarrow> (\<forall>t. plain (rx_handler (f t)) \<and> plain (tx_handler (f t)))"

definition ops_wf :: "'a udp_world_scheme \<Rightarrow> bool" where
  "ops_wf w \<longleftrightarrow> socks_wf (socks w) \<and> states_wf (mstates w)"

definition acct :: "'a udp_world_scheme \<Rightarrow> 'a udp_world_scheme \<Rightarrow> bool" where
  "acct w w' \<longleftrightarrow> (ops_wf w \<longrightarrow> ops_wf w' \<and> (\<forall>c. gap c w \<le> gap c w'))
     \<and> (\<forall>m. life (muxes w m) = destroyed \<longrightarrow> life (muxes w' m) = destroyed)"

text \<open>Everything the accounting depends on is unchanged.\<close>

definition acct_frame :: "'a udp_world_scheme \<Rightarrow> 'a udp_world_scheme \<Rightarrow> bool" where
  "acct_frame w w' \<longleftrightarrow> socks w' = socks w \<and> posted w' = posted w \<and> mstates w' = mstates w
     \<and> mem w' = mem w \<and> fronts w' = fronts w \<and> multiplexers w' = multiplexers w
     \<and> (\<forall>m. life (muxes w' m) = life (muxes w m) \<and> local_endpoint (muxes w' m) = local_endpoint (muxes w m))
     \<and> (\<forall>c. outstanding_op_count (ctxs w' c) = outstanding_op_count (ctxs w c)
          \<and> accepting_sockets (ctxs w' c) = accepting_sockets (ctxs w c)
          \<and> registered_sockets (ctxs w' c) = registered_sockets (ctxs w c))"


section \<open>Sums over the busy sockets\<close>

lemma stored_split:
  assumes "finite {s. sock_pending (f s) \<noteq> 0}"
  shows "stored c f =
    (\<Sum>s' \<in> {s'. s' \<noteq> s \<and> sock_context (f s') = c \<and> sock_pending (f s') \<noteq> 0}. sock_pending (f s'))
    + (if sock_context (f s) = c then sock_pending (f s) else 0)"
proof -
  let ?A = "{s. sock_context (f s) = c \<and> sock_pending (f s) \<noteq> 0}"
  let ?B = "{s'. s' \<noteq> s \<and> sock_context (f s') = c \<and> sock_pending (f s') \<noteq> 0}"
  have fin: "finite ?A" by (rule finite_subset [OF _ assms]) auto
  show ?thesis
  proof (cases "s \<in> ?A")
    case True
    then have "?A = insert s ?B" by auto
    moreover have "finite ?B" by (rule finite_subset [OF _ fin]) auto
    ultimately have "stored c f = sock_pending (f s) + (\<Sum>s' \<in> ?B. sock_pending (f s'))"
      by (simp add: stored_def)
    with True show ?thesis by simp
  next
    case False
    then have "?A = ?B" by auto
    then have "stored c f = (\<Sum>s' \<in> ?B. sock_pending (f s'))" by (simp add: stored_def)
    with False show ?thesis by auto
  qed
qed

lemma finite_busy_upd:
  "finite {s. sock_pending (f s) \<noteq> 0} \<Longrightarrow> finite {s'. sock_pending ((f(s := x)) s') \<noteq> 0}"
  by (rule finite_subset [of _ "insert s {s. sock_pending (f s) \<noteq> 0}"]) auto

lemma stored_upd:
  assumes "finite {s. sock_pending (f s) \<noteq> 0}" and "sock_context x = sock_context (f s)"
  shows "int (stored c (f(s := x))) = int (stored c f)
    + (if sock_context (f s) = c then int (sock_pending x) - int (sock_pending (f s)) else 0)"
proof -
  define S where "S = (\<Sum>s' \<in> {s'. s' \<noteq> s \<and> sock_context (f s') = c \<and> sock_pending (f s') \<noteq> 0}.
    sock_pending (f s'))"
  have "(\<Sum>s' \<in> {s'. s' \<noteq> s \<and> sock_context ((f(s := x)) s') = c \<and> sock_pending ((f(s := x)) s') \<noteq> 0}.
      sock_pending ((f(s := x)) s')) = S"
    unfolding S_def by (rule sum.cong) auto
  with stored_split [OF finite_busy_upd [OF assms(1), of s x], of c s] assms(2)
  have "stored c (f(s := x)) = S + (if sock_context (f s) = c then sock_pending x else 0)"
    by (simp only: fun_upd_same)
  moreover have "stored c f = S + (if sock_context (f s) = c then sock_pending (f s) else 0)"
    using stored_split [OF assms(1), of c s] by (simp only: S_def)
  ultimately show ?thesis by (cases "sock_context (f s) = c") simp_all
qed

lemma stored_same:
  assumes "\<And>s. sock_pending (g s) = sock_pending (f s)"
    and "\<And>s. sock_context (g s) = sock_context (f s)"
  shows "stored c g = stored c f"
  using assms by (simp add: stored_def)

lemma sock_pending_set:
  "int (sock_pending (x\<lparr>handlers := (handlers x)(k := h)\<rparr>))
     = int (sock_pending x) - of_bool (handlers x k \<noteq> None) + of_bool (h \<noteq> None)"
  by (cases k) (auto simp: sock_pending_def)

lemma sock_pending_mark:
  "int (sock_pending (x\<lparr>decrement_close := b\<rparr>))
     = int (sock_pending x) - of_bool (decrement_close x) + of_bool b"
  by (auto simp: sock_pending_def)


section \<open>Frames of the context and multiplexer operations\<close>

interpretation frame: kept_relation acct_frame
  by unfold_locales (auto simp: acct_frame_def)

lemma frame_upd:
  "(\<And>x. life (f x) = life x) \<Longrightarrow> (\<And>x. local_endpoint (f x) = local_endpoint x) \<Longrightarrow>
     acct_frame w (upd_mux m f w)"
  "acct_frame w (upd_entry e g w)" "acct_frame w (log_call x w)"
  by (simp_all add: acct_frame_def upd_mux_def upd_entry_def log_call_def)

lemma frame_ticking: "acct_frame w (upd_ctx c (\<lambda>x. x\<lparr>ticking := f x\<rparr>) w)"
  by (simp add: acct_frame_def upd_ctx_def)

lemma keeps_frame_mux_start: "keeps acct_frame (mux_start_receiving m)"
  unfolding mux_start_receiving_def
  by (auto intro!: keeps_intros frame.keeps_update frame.kept_trans [OF frame_upd(3) frame_upd(1)])

lemma keeps_frame_register: "keeps acct_frame (register_recv_handler m e)"
  unfolding register_recv_handler_def
  by (auto intro!: keeps_intros frame.keeps_update keeps_frame_mux_start
      frame.kept_trans [OF frame_upd(2) frame_upd(1)])

lemma keeps_frame_ticker:
  "keeps acct_frame (ctx_ticker_start c)" "keeps acct_frame (ctx_ticker_stop c)"
proof -
  show "keeps acct_frame (ctx_ticker_start c)"
    unfolding ctx_ticker_start_def
    by (rule frame.keeps_update) (auto intro: frame_ticking frame.kept_trans [OF frame_upd(3) frame_ticking])
  show "keeps acct_frame (ctx_ticker_stop c)"
    unfolding ctx_ticker_stop_def
    by (rule frame.keeps_update) (auto intro: frame_ticking frame.kept_trans [OF frame_upd(3) frame_ticking])
qed

lemma keeps_frame_ctx_start: "keeps acct_frame (ctx_start_receiving c)"
proof -
  show ?thesis
    unfolding ctx_start_receiving_def
    by (auto intro!: keeps_intros keeps_frame_ticker keeps_frame_register)
qed

lemma keeps_frame_unlink: "keeps acct_frame (entry_unlink E e)"
proof -
  have "keeps acct_frame (on_recv_entry_unlinked E m)" for m
    unfolding on_recv_entry_unlinked_def
    by (intro frame.keeps_guarded keepsI) (auto simp: frame_upd split: if_splits)
  moreover have "acct_frame w (hook_unlink m e w)" for m and w :: "'a udp_world_scheme"
    unfolding hook_unlink_def by (rule frame_upd(1)) simp_all
  ultimately have "keeps acct_frame (\<lambda>w. on_recv_entry_unlinked E m (hook_unlink m e w))" for m
    by (rule frame.keeps_after_update [rotated])
  then show ?thesis
    unfolding entry_unlink_def by (intro keeps_intros)
qed

lemma keeps_frame_ctx_stop: "keeps acct_frame (ctx_stop_receiving E c)"
  unfolding ctx_stop_receiving_def
  by (auto intro!: keeps_intros keeps_frame_ticker keeps_frame_unlink)

text \<open>What the accounting does not look at, and what an operation leaves alone of the rest.\<close>

definition rest_same :: "'a udp_world_scheme \<Rightarrow> 'a udp_world_scheme \<Rightarrow> bool" where
  "rest_same w w' \<longleftrightarrow> mstates w' = mstates w \<and> mem w' = mem w \<and> fronts w' = fronts w
     \<and> multiplexers w' = multiplexers w
     \<and> (\<forall>m. life (muxes w' m) = life (muxes w m) \<and> local_endpoint (muxes w' m) = local_endpoint (muxes w m))
     \<and> (\<forall>c. registered_sockets (ctxs w' c) = registered_sockets (ctxs w c))"

lemma rest_same_upd [simp]:
  "rest_same w (upd_sock s f w)" "rest_same w (set_handler s k h w)"
  "(\<And>x. registered_sockets (g x) = registered_sockets x) \<Longrightarrow> rest_same w (upd_ctx c g w)"
  "rest_same w (w\<lparr>posted := p\<rparr>)" "rest_same w w"
  by (simp_all add: rest_same_def upd_sock_def set_handler_def upd_ctx_def)

lemma rest_same_trans: "rest_same w w' \<Longrightarrow> rest_same w' w'' \<Longrightarrow> rest_same w w''"
  by (simp add: rest_same_def)

text \<open>The effect of the two counting operations.\<close>

lemma increment_effect:
  assumes "increment_outstanding_ops c w = Inr w'"
  shows "socks w' = socks w" "posted w' = posted w"
    "outstanding_op_count (ctxs w' c') = outstanding_op_count (ctxs w c') + of_bool (c' = c)"
    "rest_same w w'"
    "accepting_sockets (ctxs w' c') = accepting_sockets (ctxs w c')"
proof -
  let ?w = "upd_ctx c (\<lambda>x. x\<lparr>outstanding_op_count := outstanding_op_count (ctxs w c) + 1\<rparr>) w"
  from assms have "acct_frame ?w w'"
    using keepsD [OF keeps_frame_ctx_start]
    by (auto simp: increment_outstanding_ops_def Let_def frame.kept_refl split: if_splits)
  then show "socks w' = socks w" "posted w' = posted w"
    "outstanding_op_count (ctxs w' c') = outstanding_op_count (ctxs w c') + of_bool (c' = c)"
    "rest_same w w'"
    "accepting_sockets (ctxs w' c') = accepting_sockets (ctxs w c')"
    by (simp_all add: acct_frame_def rest_same_def upd_ctx_def)
qed

lemma decrement_effect:
  assumes "decrement_outstanding_ops E c w = Inr w'"
  shows "socks w' = socks w" "posted w' = posted w"
    "outstanding_op_count (ctxs w' c') = (if c' = c
       then size_t_decrement (outstanding_op_count (ctxs w c)) else outstanding_op_count (ctxs w c'))"
    "rest_same w w'"
proof -
  let ?w = "upd_ctx c (\<lambda>x. x\<lparr>outstanding_op_count :=
    size_t_decrement (outstanding_op_count (ctxs w c))\<rparr>) w"
  from assms have "acct_frame ?w w'"
    using keepsD [OF keeps_frame_ctx_stop]
    by (auto simp: decrement_outstanding_ops_def Let_def frame.kept_refl split: if_splits)
  then show "socks w' = socks w" "posted w' = posted w"
    "outstanding_op_count (ctxs w' c') = (if c' = c
       then size_t_decrement (outstanding_op_count (ctxs w c)) else outstanding_op_count (ctxs w c'))"
    "rest_same w w'"
    by (simp_all add: acct_frame_def rest_same_def upd_ctx_def)
qed

lemma size_t_decrement_ge: "int n - 1 \<le> int (size_t_decrement n)"
  by (auto simp: size_t_decrement_def)


section \<open>The building blocks keep the accounting\<close>

lemma acct_refl: "acct w w"
  by (simp add: acct_def)

lemma acct_trans: "acct w w' \<Longrightarrow> acct w' w'' \<Longrightarrow> acct w w''"
  unfolding acct_def by (meson order_trans)

lemma acct_relation: "kept_relation acct"
  by unfold_locales (rule acct_refl, erule (1) acct_trans)

lemma acctI:
  assumes "\<And>m. life (muxes w m) = destroyed \<Longrightarrow> life (muxes w' m) = destroyed"
    and "ops_wf w \<Longrightarrow> ops_wf w'" and "\<And>c. ops_wf w \<Longrightarrow> gap c w \<le> gap c w'"
  shows "acct w w'"
  using assms by (simp add: acct_def)

lemma acct_restI:
  assumes "rest_same w w'" and "ops_wf w \<Longrightarrow> socks_wf (socks w')"
    and "\<And>c. ops_wf w \<Longrightarrow> gap c w \<le> gap c w'"
  shows "acct w w'"
  using assms by (intro acctI) (simp_all add: rest_same_def ops_wf_def)

lemma socks_wf_cong:
  assumes "\<And>s. handlers (g s) = handlers (f s)"
    and "\<And>s. decrement_close (g s) = decrement_close (f s)"
    and "\<And>s. sock_context (g s) = sock_context (f s)"
  shows "socks_wf g = socks_wf f" and "stored c g = stored c f"
  using assms by (simp_all add: socks_wf_def sock_pending_def stored_def)

text \<open>Nothing of the accounting changes.\<close>

lemma acct_same_ops:
  assumes "\<And>s. same_ops (socks w s) (socks w' s)" and "posted w' = posted w"
    and "\<And>c. outstanding_op_count (ctxs w' c) = outstanding_op_count (ctxs w c)"
    and "\<And>m. life (muxes w m) = destroyed \<Longrightarrow> life (muxes w' m) = destroyed"
    and "states_wf (mstates w) \<Longrightarrow> states_wf (mstates w')"
  shows "acct w w'"
proof -
  have same: "handlers (socks w' s) = handlers (socks w s)"
    "decrement_close (socks w' s) = decrement_close (socks w s)"
    "sock_context (socks w' s) = sock_context (socks w s)" for s
    using assms(1) [of s] by (simp_all add: same_ops_def)
  have "socks_wf (socks w') = socks_wf (socks w)" "stored c (socks w') = stored c (socks w)" for c
    by (rule socks_wf_cong(1) [OF same], rule socks_wf_cong(2) [OF same])
  with assms(2-) show ?thesis by (intro acctI) (simp_all add: ops_wf_def gap_def pending_def)
qed

lemma acct_of_frame: "acct_frame w w' \<Longrightarrow> acct w w'"
  by (rule acct_same_ops) (simp_all add: acct_frame_def same_ops_def)

lemma keeps_acct_of_frame: "keeps acct_frame f \<Longrightarrow> keeps acct f"
  by (rule keepsI) (rule acct_of_frame, erule (1) keepsD)

text \<open>A socket changes in one handler or in its close mark.\<close>

lemma ops_wf_finite: "ops_wf w \<Longrightarrow> finite {s. sock_pending (socks w s) \<noteq> 0}"
  by (simp add: ops_wf_def socks_wf_def)

lemma socks_wf_set:
  assumes "socks_wf f" and "\<And>i. h = Some i \<Longrightarrow> after i = Some (decrement_of (sock_context (f s)))"
  shows "socks_wf (f(s := (f s)\<lparr>handlers := (handlers (f s))(k := h)\<rparr>))"
proof -
  let ?g = "f(s := (f s)\<lparr>handlers := (handlers (f s))(k := h)\<rparr>)"
  have "finite {s. sock_pending (?g s) \<noteq> 0}"
    using assms(1) unfolding socks_wf_def by (intro finite_busy_upd) simp
  moreover have "after i = Some (decrement_of (sock_context (?g s')))"
    if "handlers (?g s') k' = Some i" for s' k' i
    using that assms by (auto simp: socks_wf_def split: if_splits)
  ultimately show ?thesis unfolding socks_wf_def by blast
qed

lemma socks_wf_mark:
  assumes "socks_wf f"
  shows "socks_wf (f(s := (f s)\<lparr>decrement_close := b\<rparr>))"
proof -
  let ?g = "f(s := (f s)\<lparr>decrement_close := b\<rparr>)"
  have "finite {s. sock_pending (?g s) \<noteq> 0}"
    using assms unfolding socks_wf_def by (intro finite_busy_upd) simp
  moreover have "after i = Some (decrement_of (sock_context (?g s')))"
    if "handlers (?g s') k' = Some i" for s' k' i
    using that assms by (auto simp: socks_wf_def split: if_splits)
  ultimately show ?thesis unfolding socks_wf_def by blast
qed

lemma stored_set:
  assumes "ops_wf w"
  shows "int (stored c ((socks w)(s := (socks w s)\<lparr>handlers := (handlers (socks w s))(k := h)\<rparr>)))
    = int (stored c (socks w)) + (if sock_context (socks w s) = c
        then of_bool (h \<noteq> None) - of_bool (handlers (socks w s) k \<noteq> None) else 0)"
  using stored_upd [OF ops_wf_finite [OF assms], where s = s and c = c
      and x = "(socks w s)\<lparr>handlers := (handlers (socks w s))(k := h)\<rparr>"]
    sock_pending_set [of "socks w s" k h]
  by simp

lemma stored_mark:
  assumes "ops_wf w"
  shows "int (stored c ((socks w)(s := (socks w s)\<lparr>decrement_close := b\<rparr>)))
    = int (stored c (socks w)) + (if sock_context (socks w s) = c
        then of_bool b - of_bool (decrement_close (socks w s)) else 0)"
  using stored_upd [OF ops_wf_finite [OF assms], where s = s and c = c
      and x = "(socks w s)\<lparr>decrement_close := b\<rparr>"]
    sock_pending_mark [where x = "socks w s" and b = b]
  by simp

text \<open>A handler is stored and counted.\<close>

lemma acct_stored:
  assumes "socks w' = (socks w)(s := (socks w s)\<lparr>handlers := (handlers (socks w s))
       (k := Some (i\<lparr>after := Some (decrement_of (sock_context (socks w s)))\<rparr>))\<rparr>)"
    and "posted w' = posted w" and "rest_same w w'"
    and "\<And>c. outstanding_op_count (ctxs w' c) = outstanding_op_count (ctxs w c)
       + of_bool (c = sock_context (socks w s))"
  shows "acct w w'"
proof (rule acct_restI [OF assms(3)])
  show "ops_wf w \<Longrightarrow> socks_wf (socks w')"
    unfolding assms(1) by (rule socks_wf_set) (auto simp: ops_wf_def)
  show "gap c w \<le> gap c w'" if "ops_wf w" for c
    using stored_set [OF that, of c s k "Some (i\<lparr>after := Some (decrement_of (sock_context (socks w s)))\<rparr>)"]
      assms(4) [of c]
    by (auto simp: gap_def pending_def assms(1,2))
qed

lemma setup_op_effect:
  assumes "setup_op s k h w = Inr w'"
  obtains i where "h = Some i"
    "socks w' = (socks w)(s := (socks w s)\<lparr>handlers := (handlers (socks w s))
       (k := Some (i\<lparr>after := Some (decrement_of (sock_context (socks w s)))\<rparr>))\<rparr>)"
    "posted w' = posted w" "rest_same w w'"
    "\<And>c. outstanding_op_count (ctxs w' c) = outstanding_op_count (ctxs w c)
       + of_bool (c = sock_context (socks w s))"
proof -
  from assms obtain w1 i where
    w1: "increment_outstanding_ops (sock_context (socks w s)) w = Inr w1" and "h = Some i"
    "w' = set_handler s k (Some (i\<lparr>after := Some (decrement_of (sock_context (socks w1 s)))\<rparr>)) w1"
    by (auto simp: setup_op_def exec_after_def and_then_Inr_iff split: option.splits)
  moreover from this have "rest_same w w'"
    using increment_effect(4) [OF w1] rest_same_trans by (auto intro: rest_same_trans)
  ultimately show thesis
    using increment_effect [OF w1]
    by (intro that [of i]) (simp_all add: set_handler_def upd_sock_def)
qed

lemma setup_op_accepting:
  fixes w :: "'a udp_world_scheme"
  assumes "setup_op s k h w = Inr w'"
  shows "accepting_sockets (ctxs w' c) = accepting_sockets (ctxs w c)"
  using assms increment_effect(5) [of _ w] by (auto simp: setup_op_def and_then_Inr_iff)

lemma acct_setup: "keeps acct (setup_op s k h)"
proof (rule keepsI)
  fix w w' :: "'a udp_world_scheme"
  assume "setup_op s k h w = Inr w'"
  then show "acct w w'" by (elim setup_op_effect) (rule acct_stored)
qed

lemma socks_set_handler:
  "socks (set_handler s k h w)
     = (socks w)(s := (socks w s)\<lparr>handlers := (handlers (socks w s))(k := h)\<rparr>)"
  by (simp add: set_handler_def upd_sock_def)

lemma mstates_set_handler [simp]: "mstates (set_handler s k h w) = mstates w"
  by (simp add: set_handler_def upd_sock_def)

lemma restart_send_effect:
  assumes "restart_send s w = Inr w'"
  obtains i where "handler_of s op_send w = Some i"
    "socks w' = (socks w)(s := (socks w s)\<lparr>handlers := (handlers (socks w s))
       (op_send := Some (i\<lparr>after := Some (decrement_of (sock_context (socks w s)))\<rparr>))\<rparr>)"
    "posted w' = posted w" "rest_same w w'"
    "\<And>c. outstanding_op_count (ctxs w' c) = outstanding_op_count (ctxs w c)
       + of_bool (c = sock_context (socks w s))"
proof -
  let ?w = "set_handler s op_send None w"
  obtain i where i: "handler_of s op_send w = Some i"
    "socks w' = (socks ?w)(s := (socks ?w s)\<lparr>handlers := (handlers (socks ?w s))(op_send :=
        Some (i\<lparr>after := Some (decrement_of (sock_context (socks ?w s)))\<rparr>))\<rparr>)"
    "posted w' = posted ?w" "rest_same ?w w'"
    "\<And>c. outstanding_op_count (ctxs w' c) = outstanding_op_count (ctxs ?w c)
      + of_bool (c = sock_context (socks ?w s))"
    by (rule setup_op_effect [OF assms [unfolded restart_send_def]]) blast
  then show thesis
    by (intro that [of i])
       (auto simp: set_handler_def upd_sock_def rest_same_def)
qed

lemma acct_restart: "keeps acct (restart_send s)"
proof (rule keepsI)
  fix w w' :: "'a udp_world_scheme"
  assume "restart_send s w = Inr w'"
  then show "acct w w'" by (elim restart_send_effect) (rule acct_stored)
qed

text \<open>A handler is completed.\<close>

lemma post_op_effect:
  assumes "post_op s k ec args w = Inr w'"
  obtains i where "handler_of s k w = Some i"
    "w' = (set_handler s k None w)\<lparr>posted := posted w @ [Work (func i) ec args (after i)]\<rparr>"
  using assms
  by (cases "handler_of s k w") (auto simp: post_op_def set_handler_def upd_sock_def)

lemma ops_wf_after:
  "ops_wf w \<Longrightarrow> handler_of s k w = Some i \<Longrightarrow> after i = Some (decrement_of (sock_context (socks w s)))"
  by (simp add: ops_wf_def socks_wf_def)

lemma ops_wf_drop_handler: "ops_wf w \<Longrightarrow> ops_wf (set_handler s k None w)"
  using socks_wf_set [of "socks w" None s k] by (simp add: ops_wf_def socks_set_handler)

lemma gap_drop_handler:
  assumes "ops_wf w" and "handler_of s k w = Some i"
  shows "gap c (set_handler s k None w) = gap c w + of_bool (c = sock_context (socks w s))"
  using stored_set [OF assms(1), of c s k None] assms(2)
  by (auto simp: gap_def pending_def socks_set_handler)

lemma acct_post: "keeps acct (post_op s k ec args)"
proof (rule keepsI)
  fix w w' :: "'a udp_world_scheme"
  let ?w = "set_handler s k None w"
  assume "post_op s k ec args w = Inr w'"
  then obtain i where i: "handler_of s k w = Some i"
    "w' = ?w\<lparr>posted := posted w @ [Work (func i) ec args (after i)]\<rparr>"
    by (rule post_op_effect)
  show "acct w w'"
  proof (rule acctI)
    show "life (muxes w m) = destroyed \<Longrightarrow> life (muxes w' m) = destroyed" for m by (simp add: i(2))
    show "ops_wf w \<Longrightarrow> ops_wf w'"
      using ops_wf_drop_handler [of w s k] by (simp add: i(2) ops_wf_def)
    show "gap c w \<le> gap c w'" if "ops_wf w" for c
      using gap_drop_handler [OF that i(1), of c] ops_wf_after [OF that i(1)]
      by (auto simp: i(2) gap_def pending_def)
  qed
qed

lemma gap_decrement:
  assumes "decrement_outstanding_ops E c w = Inr w'"
  shows "gap c' w - of_bool (c' = c) \<le> gap c' w'"
  using decrement_effect [OF assms] size_t_decrement_ge [of "outstanding_op_count (ctxs w c)"]
  by (auto simp: gap_def pending_def)

lemma ops_wf_decrement:
  assumes "decrement_outstanding_ops E c w = Inr w'"
  shows "ops_wf w' = ops_wf w"
  using decrement_effect(1,4) [OF assms] by (simp add: ops_wf_def rest_same_def)

lemma acct_dispatch:
  assumes user: "\<And>f ec args. keeps acct (user E f ec args)"
  shows "keeps acct (dispatch_op E s k ec args)"
proof (rule keepsI)
  fix w w' :: "'a udp_world_scheme"
  let ?w = "set_handler s k None w" and ?c = "sock_context (socks w s)"
  assume a: "dispatch_op E s k ec args w = Inr w'"
  show "acct w w'"
  proof (cases "inline E ?w")
    case False
    with a have "post_op s k ec args w = Inr w'"
      by (auto simp: dispatch_op_def handler_dispatch_def impl_dispatch_def post_op_def
          split: option.splits)
    then show ?thesis by (rule keepsD [OF acct_post])
  next
    case True
    with a obtain i w1 where i: "handler_of s k w = Some i"
      and w1: "user E (func i) ec args ?w = Inr w1"
      and dec: "(case after i of None \<Rightarrow> Inr w1 | Some x \<Rightarrow> run_after E x w1) = Inr w'"
      by (auto simp: dispatch_op_def handler_dispatch_def impl_dispatch_def run_work_def
          and_then_Inr_iff split: option.splits)
    note user1 = keepsD [OF user w1, unfolded acct_def]
    have gone: "life (muxes w1 m) = destroyed \<Longrightarrow> life (muxes w' m) = destroyed" for m
      using dec
      by (auto simp: run_after_def rest_same_def split: option.splits after_fn.splits
          dest!: decrement_effect(4))
    have dec': "decrement_outstanding_ops E ?c w1 = Inr w'" if "ops_wf w"
      using dec ops_wf_after [OF that i] by (simp add: run_after_def)
    show ?thesis
    proof (rule acctI)
      show "life (muxes w m) = destroyed \<Longrightarrow> life (muxes w' m) = destroyed" for m
        using user1 gone by simp
      show "ops_wf w'" if "ops_wf w"
        using user1 ops_wf_drop_handler [OF that] ops_wf_decrement [OF dec' [OF that]] by simp
      show "gap c w \<le> gap c w'" if wf: "ops_wf w" for c
      proof -
        have "gap c ?w \<le> gap c w1" using user1 ops_wf_drop_handler [OF wf] by simp
        then show ?thesis
          using gap_drop_handler [OF wf i, of c] gap_decrement [OF dec' [OF wf], of c] by simp
      qed
    qed
  qed
qed

text \<open>A close begins and ends.\<close>

lemma acct_begin_close: "keeps acct (begin_close s)"
proof (rule keepsI)
  fix w w' :: "'a udp_world_scheme"
  assume "begin_close s w = Inr w'"
  then obtain w1 where w1: "increment_outstanding_ops (sock_context (socks w s)) w = Inr w1"
    and w': "w' = upd_sock s (\<lambda>x. x\<lparr>decrement_close := True\<rparr>) w1"
    by (auto simp: begin_close_def and_then_Inr_iff)
  note eff = increment_effect [OF w1]
  have s': "socks w' = (socks w)(s := (socks w s)\<lparr>decrement_close := True\<rparr>)"
    by (simp add: w' upd_sock_def eff(1))
  show "acct w w'"
  proof (rule acct_restI)
    show "rest_same w w'" unfolding w' by (rule rest_same_trans [OF eff(4)]) simp
    show "ops_wf w \<Longrightarrow> socks_wf (socks w')"
      unfolding s' by (rule socks_wf_mark) (simp add: ops_wf_def)
    show "gap c w \<le> gap c w'" if "ops_wf w" for c
      using stored_mark [OF that, of c s True] eff(3) [of c]
      by (auto simp: gap_def pending_def s') (simp_all add: w' upd_sock_def eff(2))
  qed
qed

lemma acct_end_close: "keeps acct (end_close E s)"
proof (rule keepsI)
  fix w w' :: "'a udp_world_scheme"
  assume a: "end_close E s w = Inr w'"
  show "acct w w'"
  proof (cases "decrement_close (socks w s)")
    case False
    with a show ?thesis by (simp add: end_close_def acct_refl)
  next
    case True
    with a obtain w1 where w1: "decrement_outstanding_ops E (sock_context (socks w s)) w = Inr w1"
      and w': "w' = upd_sock s (\<lambda>x. x\<lparr>decrement_close := False\<rparr>) w1"
      by (auto simp: end_close_def and_then_Inr_iff)
    note eff = decrement_effect [OF w1]
    have s': "socks w' = (socks w)(s := (socks w s)\<lparr>decrement_close := False\<rparr>)"
      by (simp add: w' upd_sock_def eff(1))
    show ?thesis
    proof (rule acct_restI)
      show "rest_same w w'" unfolding w' by (rule rest_same_trans [OF eff(4)]) simp
      show "ops_wf w \<Longrightarrow> socks_wf (socks w')"
        unfolding s' by (rule socks_wf_mark) (simp add: ops_wf_def)
      show "gap c w \<le> gap c w'" if "ops_wf w" for c
        using stored_mark [OF that, of c s False] eff(3) [of c] True
          size_t_decrement_ge [of "outstanding_op_count (ctxs w c)"]
        by (auto simp: gap_def pending_def s') (simp_all add: w' upd_sock_def eff(2))
    qed
  qed
qed

text \<open>A handler without an \<open>after\<close> hook is posted.\<close>

lemma acct_post_plain:
  assumes "handler_post h ec args w1 = Inr w'" and "acct w w1" and "ops_wf w \<Longrightarrow> plain h"
  shows "acct w w'"
proof -
  from assms(1) obtain i where h: "h = Some i"
    and w': "w' = w1\<lparr>posted := posted w1 @ [Work (func i) ec args (after i)]\<rparr>"
    by (cases h) auto
  from assms(3) h have "after i = None" if "ops_wf w" using that by (simp add: plain_def)
  then have "gap c w' = gap c w1" if "ops_wf w" for c
    using that by (simp add: w' gap_def pending_def)
  moreover have "ops_wf w' = ops_wf w1" "muxes w' = muxes w1" by (simp_all add: w' ops_wf_def)
  ultimately show ?thesis using assms(2) by (simp add: acct_def)
qed

lemma acct_plain_post: "keeps acct (handler_post (new_handler fn) ec args)"
  by (rule keepsI) (erule acct_post_plain, simp_all add: acct_refl)


section \<open>The library keeps the accounting\<close>

lemma stored_new_impl:
  assumes "ops_wf w" and "sock_pending (socks w s) = 0" and "sock_pending x = 0"
  shows "stored c ((socks w)(s := x)) = stored c (socks w)"
proof -
  have "{s'. sock_context (((socks w)(s := x)) s') = c \<and> sock_pending (((socks w)(s := x)) s') \<noteq> 0}
      = {s'. sock_context (socks w s') = c \<and> sock_pending (socks w s') \<noteq> 0}"
    using assms(2,3) by auto
  then show ?thesis unfolding stored_def using assms(2) by (intro sum.cong) auto
qed

lemma unused_impl_pending: "unused_impl s w \<Longrightarrow> sock_pending (socks w s) = 0"
  by (auto simp: unused_impl_def sock_pending_def)

lemma acct_new_impl:
  assumes "unused_impl s w"
  shows "acct w (upd_sock s (\<lambda>_. new_socket_impl o' c) w)"
proof -
  have 0: "sock_pending (socks w s) = 0" "sock_pending (new_socket_impl o' c) = 0"
    using assms by (simp_all add: unused_impl_pending, simp add: sock_pending_def new_socket_impl_def)
  show ?thesis
  proof (rule acct_restI)
    show "rest_same w (upd_sock s (\<lambda>_. new_socket_impl o' c) w)" by simp
    show "socks_wf (socks (upd_sock s (\<lambda>_. new_socket_impl o' c) w))" if wf: "ops_wf w"
    proof -
      have "finite {s'. sock_pending (((socks w)(s := new_socket_impl o' c)) s') \<noteq> 0}"
        using wf by (intro finite_busy_upd ops_wf_finite)
      with wf show ?thesis
        by (auto simp: upd_sock_def socks_wf_def ops_wf_def new_socket_impl_def)
    qed
    show "gap c' w \<le> gap c' (upd_sock s (\<lambda>_. new_socket_impl o' c) w)" if "ops_wf w" for c'
      using stored_new_impl [OF that 0, of c'] by (simp add: gap_def pending_def upd_sock_def)
  qed
qed

lemma acct_new_mux: "unused_mux m w \<Longrightarrow> acct w (mux_create m ep w)"
  by (rule acct_same_ops) (auto simp: mux_create_def unused_mux_def same_ops_def new_context_def)

lemma acct_mstate:
  assumes "\<And>x. plain_handlers x (f x)"
  shows "acct w (upd_mstate t f w)"
  by (rule acct_same_ops)
     (use assms in \<open>auto simp: upd_mstate_def same_ops_def states_wf_def plain_handlers_def\<close>, metis+)

lemma acct_plain_mstate: "(\<And>x. plain_update x (f x)) \<Longrightarrow> acct w (upd_mstate t f w)"
  by (rule acct_mstate) (simp add: plain_update_def)

lemma acct_post_rx: "keeps acct (post_rx_handler t ec args)"
proof -
  have upd: "acct w (upd_mstate t (\<lambda>x. x\<lparr>rx_handler := None\<rparr>) w)" for w :: "'a udp_world_scheme"
    by (rule acct_mstate) (simp add: plain_handlers_def)
  have wf: "ops_wf w \<Longrightarrow> plain (rx_handler (mstates w t))" for w :: "'a udp_world_scheme"
    by (simp add: ops_wf_def states_wf_def)
  show ?thesis
    unfolding post_rx_handler_def
    by (intro kept_relation.keeps_guarded [OF acct_relation] keepsI)
       (erule acct_post_plain, rule upd, erule wf)
qed

lemma acct_post_tx: "keeps acct (post_tx_handler t ec args)"
proof -
  have upd: "acct w (upd_mstate t (\<lambda>x. x\<lparr>tx_handler := None\<rparr>) w)" for w :: "'a udp_world_scheme"
    by (rule acct_mstate) (simp add: plain_handlers_def)
  have wf: "ops_wf w \<Longrightarrow> plain (tx_handler (mstates w t))" for w :: "'a udp_world_scheme"
    by (simp add: ops_wf_def states_wf_def)
  show ?thesis
    unfolding post_tx_handler_def
    by (intro kept_relation.keeps_guarded [OF acct_relation] keepsI)
       (erule acct_post_plain, rule upd, erule wf)
qed

lemma acct_mux:
  "(\<And>x. life x = destroyed \<Longrightarrow> life (f x) = destroyed) \<Longrightarrow> acct w (upd_mux m f w)"
  by (rule acct_same_ops) (auto simp: same_ops_def upd_mux_def)

lemma acct_refs: "acct w (upd_mux m take_ref w)" "acct w (upd_mux m drop_ref w)"
  by (rule acct_mux, simp add: take_ref_def drop_ref_def)+

interpretation acct_free: kept_free acct
proof
  fix w w' w'' :: "'a udp_world_scheme" and t m
  show "acct w w" by (rule acct_refl)
  show "acct w w' \<Longrightarrow> acct w' w'' \<Longrightarrow> acct w w''" by (rule acct_trans)
  show "acct w (upd_front fr g w)" for fr g
    by (rule acct_same_ops) (simp_all add: same_ops_def upd_front_def)
  show "acct w (w\<lparr>multiplexers := ms\<rparr>)" for ms by (rule acct_same_ops) (simp_all add: same_ops_def)
  show "acct w (upd_mstate t (\<lambda>_. new_state mi) w)" for mi
    by (rule acct_mstate) (simp add: plain_handlers_def new_state_def)
  show "acct w (upd_mstate t (\<lambda>x. x\<lparr>ms_impl := None\<rparr>) w)"
    by (rule acct_mstate) (simp add: plain_handlers_def)
qed (fact acct_refs acct_new_mux)+

lemma acct_kept_core:
  assumes user: "\<And>f ec args. keeps acct (user E f ec args)"
    and slot: "\<And>sl bs n dst ec. keeps acct (slot E sl bs n dst ec)"
  shows "kept_core acct E"
proof
  fix w w' w'' :: "'a udp_world_scheme" and f :: "socket_impl \<Rightarrow> socket_impl" and s
  show "(\<And>x. same_ops x (f x)) \<Longrightarrow> acct w (upd_sock s f w)"
    by (rule acct_same_ops) (auto simp: upd_sock_def same_ops_def)
  show "keeps acct (dispatch_op E s k ec args)" for s k ec args
    by (rule acct_dispatch) (rule user)
  show "life (muxes w' m) = destroyed" if "acct w w'" "life (muxes w m) = destroyed" for m
    using that by (simp add: acct_def)
  show "ctx_stop_receiving E c w = Inr w' \<Longrightarrow> acct w w'" for c
    by (rule acct_of_frame) (rule keepsD [OF keeps_frame_ctx_stop])
  show "acct w (upd_mux m (\<lambda>x. x\<lparr>recv_handlers := []\<rparr>) w)" for m
    by (rule acct_mux) simp
  show "acct w (release_ref m w')" if "alive (muxes w m)" "acct (upd_mux m take_ref w) w'" for m
    using that(2) by (rule acct_free.free_lock_kept)
qed (rule slot keeps_start [OF acct_free.kept_relation_axioms acct_setup] acct_restart acct_post acct_begin_close acct_end_close acct_plain_post
    | rule acct_same_ops; simp add: same_ops_def upd_front_def log_call_def upd_ctx_def)+

lemma acct_kept_lib:
  assumes user: "\<And>f ec args. keeps acct (user E f ec args)"
    and slot: "\<And>sl bs n dst ec. keeps acct (slot E sl bs n dst ec)"
  shows "kept_lib acct E"
proof -
  have "kept_lib_axioms acct E"
    by unfold_locales
       (rule user acct_new_impl acct_plain_mstate acct_post_rx acct_post_tx acct_mux
          keeps_acct_of_frame [OF keeps_frame_unlink] keeps_acct_of_frame [OF keeps_frame_register]
        | assumption
        | rule acct_same_ops; simp add: same_ops_def upd_ctx_def upd_entry_def
        | simp)+
  then show ?thesis
    using acct_kept_core [OF user slot] acct_free.kept_refs_axioms by (simp add: kept_lib_def)
qed

interpretation acct_tie: kept_ops acct "tie X n" for X :: "'l outside" and n
  by (rule tie_kept [OF acct_kept_lib])
     (auto intro: acct_same_ops simp: same_ops_def)


section \<open>Runs\<close>

lemma acct_run_posted:
  assumes user: "\<And>f ec args. keeps acct (user E f ec args)"
  shows "keeps acct (run_posted E)"
proof (rule keepsI)
  fix w w' :: "'a udp_world_scheme"
  assume a: "run_posted E w = Inr w'"
  show "acct w w'"
  proof (cases "posted w")
    case Nil
    with a show ?thesis by (simp add: run_posted_def acct_refl)
  next
    case (Cons x xs)
    let ?w = "w\<lparr>posted := xs\<rparr>"
    from a Cons obtain w1 where w1: "user E (work_fn x) (work_ec x) (work_args x) ?w = Inr w1"
      and rest: "(case work_after x of None \<Rightarrow> Inr w1 | Some k \<Rightarrow> run_after E k w1) = Inr w'"
      by (auto simp: run_posted_def run_work_def and_then_Inr_iff)
    note user1 = keepsD [OF user w1, unfolded acct_def]
    have wf: "ops_wf ?w = ops_wf w" by (simp add: ops_wf_def)
    have gap: "gap c ?w = gap c w + of_bool (work_after x = Some (decrement_of c))" for c
      using Cons by (simp add: gap_def pending_def)
    show ?thesis
    proof (cases "work_after x")
      case None
      with rest user1 wf gap show ?thesis by (intro acctI) (auto split: if_splits)
    next
      case (Some k)
      then obtain c where k: "work_after x = Some (decrement_of c)" by (cases k) simp
      with rest have dec: "decrement_outstanding_ops E c w1 = Inr w'" by (simp add: run_after_def)
      show ?thesis
      proof (rule acctI)
        show "life (muxes w m) = destroyed \<Longrightarrow> life (muxes w' m) = destroyed" for m
          using user1 decrement_effect(4) [OF dec] by (simp add: rest_same_def)
        show "ops_wf w \<Longrightarrow> ops_wf w'" using user1 wf ops_wf_decrement [OF dec] by simp
        show "gap c' w \<le> gap c' w'" if "ops_wf w" for c'
        proof -
          have "gap c' ?w \<le> gap c' w1" using user1 wf that by simp
          then show ?thesis using gap [of c'] gap_decrement [OF dec, of c'] k by (cases "c' = c") auto
        qed
      qed
    qed
  qed
qed

interpretation acct_events: kept_events acct "tie X n" for X :: "'l outside" and n
proof unfold_locales
  show "keeps acct (run_posted (tie X n))"
    by (rule acct_run_posted) (rule acct_tie.user_kept)
  show "keeps acct (register_recv_handler m e)" for m e
    by (rule keeps_acct_of_frame [OF keeps_frame_register])
  show "(\<And>x. life (f x) = life x) \<Longrightarrow> acct w (upd_mux m f w)" for f w m
    by (rule acct_mux) simp
  show "acct w (upd_ctx c (\<lambda>x. x\<lparr>ticking := tk (ticking x)\<rparr>) w)" for w c tk
    by (rule acct_of_frame) (simp add: acct_frame_def upd_ctx_def)
qed

definition counted :: "'a udp_world_scheme \<Rightarrow> bool" where
  "counted w \<longleftrightarrow> ops_wf w \<and> (\<forall>c. 0 \<le> gap c w)"

lemma acct_counted: "acct w w' \<Longrightarrow> counted w \<Longrightarrow> counted w'"
  unfolding acct_def counted_def by (meson order_trans)

lemma counted_start: "counted (start_world l)"
proof -
  have 0: "sock_pending blank_impl = 0"
    by (simp add: sock_pending_def blank_impl_def new_socket_impl_def)
  then show ?thesis
    by (simp add: counted_def ops_wf_def socks_wf_def states_wf_def gap_def pending_def stored_def
        start_world_def new_state_def blank_impl_def new_socket_impl_def new_context_def)
qed

lemma reachable_counted: "reachable X w \<Longrightarrow> counted w"
proof (induction rule: reachable.induct)
  case (start l)
  show ?case by (rule counted_start)
next
  case (step w w')
  have "acct w w'" by (rule sys_step_kept [OF _ step.hyps(2)]) (rule acct_events.kept_events_axioms)
  then show ?case using step.IH by (rule acct_counted)
qed

end
