(* ===== verification/Liveness.thy ===== *)
theory Liveness
  imports Accounting
begin

text \<open>
  A context that has operations outstanding listens: its ticker runs and its receive entry is
  registered with the multiplexer, and a multiplexer with registered entries has a receive
  pending at the UDP socket. The relation \<open>live\<close> says how a statement inside a library call
  may change this; with the accounting (a decrement does not wrap) it is kept by everything
  that runs inside a library call. The completions of receives and timer waits, which take the
  entry out of the list and stop the ticker for a while, re-establish it.
\<close>

section \<open>The relation\<close>

definition has_receive :: "mux_impl \<Rightarrow> bool" where
  "has_receive x \<longleftrightarrow> (recv_handlers x \<noteq> [] \<longrightarrow> is_receiving x)"

definition mux_live :: "mux_impl \<Rightarrow> mux_impl \<Rightarrow> bool" where
  "mux_live x y \<longleftrightarrow> (has_receive x \<longrightarrow> has_receive y)
     \<and> int (rx_ops y) - of_bool (is_receiving y) = int (rx_ops x) - of_bool (is_receiving x)
     \<and> (is_receiving x \<longrightarrow> is_receiving y)
     \<and> (\<exists>P. flushing y = filter P (flushing x))
     \<and> (life x = destroyed \<longrightarrow> life y = destroyed)"

definition registered :: "nat \<Rightarrow> 'a udp_world_scheme \<Rightarrow> bool" where
  "registered c w \<longleftrightarrow> re_multiplexer (entries w (ctx_entry c)) = Some c
     \<and> (ctx_entry c \<in> set (recv_handlers (muxes w c)) \<or> ctx_entry c \<in> set (flushing (muxes w c)))"

definition listening :: "nat \<Rightarrow> 'a udp_world_scheme \<Rightarrow> bool" where
  "listening c w \<longleftrightarrow> running (ticking (ctxs w c)) \<and> registered c w"

definition live_ctx :: "nat \<Rightarrow> 'a udp_world_scheme \<Rightarrow> bool" where
  "live_ctx c w \<longleftrightarrow> (alive (muxes w c) \<and> outstanding_op_count (ctxs w c) \<noteq> 0 \<longrightarrow> listening c w)"

definition ticker_live :: "ticker \<Rightarrow> ticker \<Rightarrow> bool" where
  "ticker_live t u \<longleftrightarrow> (ticker_mid t \<longrightarrow> ticker_mid u) \<and> (ticker_ok t \<longrightarrow> ticker_ok u)"

definition live :: "'a udp_world_scheme \<Rightarrow> 'a udp_world_scheme \<Rightarrow> bool" where
  "live w w' \<longleftrightarrow> (\<forall>m. mux_live (muxes w m) (muxes w' m))
     \<and> (\<forall>c. ticker_live (ticking (ctxs w c)) (ticking (ctxs w' c)))
     \<and> (\<forall>c. live_ctx c w \<longrightarrow> live_ctx c w')"

lemma liveI:
  assumes "\<And>m. mux_live (muxes w m) (muxes w' m)"
    and "\<And>c. ticker_live (ticking (ctxs w c)) (ticking (ctxs w' c))"
    and "\<And>c. live_ctx c w \<Longrightarrow> live_ctx c w'"
  shows "live w w'"
  using assms by (simp add: live_def)

lemma mux_live_refl [simp]: "mux_live x x"
proof -
  have "\<exists>P. flushing x = filter P (flushing x)" by (rule exI [of _ "\<lambda>_. True"]) simp
  then show ?thesis by (simp add: mux_live_def)
qed

lemma ticker_live_refl [simp]: "ticker_live t t"
  by (simp add: ticker_live_def)

lemma mux_live_trans: "mux_live x y \<Longrightarrow> mux_live y z \<Longrightarrow> mux_live x z"
  unfolding mux_live_def by (metis filter_filter)

interpretation live: kept_relation live
proof
  fix w w' w'' :: "'a udp_world_scheme"
  show "live w w" by (simp add: live_def)
  show "live w w' \<Longrightarrow> live w' w'' \<Longrightarrow> live w w''"
    unfolding live_def ticker_live_def by (blast intro: mux_live_trans)
qed

text \<open>Nothing it looks at changes.\<close>

lemma live_frame:
  assumes "muxes w' = muxes w" and "\<And>c. re_multiplexer (entries w' (ctx_entry c)) = re_multiplexer (entries w (ctx_entry c))"
    and "\<And>c. ticking (ctxs w' c) = ticking (ctxs w c)"
    and "\<And>c. outstanding_op_count (ctxs w' c) = outstanding_op_count (ctxs w c)"
  shows "live w w'"
  using assms by (simp add: live_def live_ctx_def listening_def registered_def)


section \<open>Multiplexers and tickers\<close>

lemma live_log: "live w (log_call x w)"
  by (rule live_frame) (simp_all add: log_call_def)

text \<open>One multiplexer changes and keeps the entries of its context.\<close>

lemma live_mux:
  assumes "mux_live (muxes w m) (f (muxes w m))"
    and "alive (f (muxes w m)) \<Longrightarrow> alive (muxes w m)"
    and "ctx_entry m \<in> set (recv_handlers (muxes w m)) \<union> set (flushing (muxes w m)) \<Longrightarrow>
      alive (f (muxes w m)) \<Longrightarrow>
      ctx_entry m \<in> set (recv_handlers (f (muxes w m))) \<union> set (flushing (f (muxes w m)))"
  shows "live w (upd_mux m f w)"
  using assms by (intro liveI) (auto simp: upd_mux_def live_ctx_def listening_def registered_def)

lemma live_refs: "live w (upd_mux m take_ref w)" "live w (upd_mux m drop_ref w)"
  by (rule live_mux; auto simp: mux_live_def has_receive_def take_ref_def drop_ref_def alive_def
      split: ownership.splits intro!: exI [of _ "\<lambda>_. True"])+

lemma live_mux_start: "keeps live (mux_start_receiving m)"
proof (rule keepsI)
  fix w w' :: "'a udp_world_scheme"
  assume "mux_start_receiving m w = Inr w'"
  then have n: "\<not> is_receiving (muxes w m)" and
    w': "w' = upd_mux m (\<lambda>x. x\<lparr>is_receiving := True, rx_ops := Suc (rx_ops x)\<rparr>)
      (log_call (AsyncReceiveFrom m) w)"
    by (auto simp: mux_start_receiving_def and_then_Inr_iff)
  have "live (log_call (AsyncReceiveFrom m) w) w'"
    unfolding w' using n
    by (intro live_mux) (auto simp: mux_live_def has_receive_def log_call_def alive_def
        intro!: exI [of _ "\<lambda>_. True"])
  with live_log show "live w w'" by (rule live.kept_trans)
qed

text \<open>A context's entry is only registered with the context's own multiplexer.\<close>

lemma live_register:
  assumes "\<And>c. e = ctx_entry c \<Longrightarrow> c = m"
  shows "keeps live (register_recv_handler m e)"
proof (rule keepsI)
  fix w w' :: "'a udp_world_scheme"
  let ?w1 = "upd_entry e (\<lambda>r. r\<lparr>re_multiplexer := Some m\<rparr>) w"
  let ?w2 = "upd_mux m (\<lambda>x. x\<lparr>recv_handlers := recv_handlers x @ [e]\<rparr>) ?w1"
  let ?w3 = "upd_mux m (\<lambda>x. x\<lparr>recv_handlers := recv_handlers x @ [e], is_receiving := True,
    rx_ops := (if is_receiving x then rx_ops x else Suc (rx_ops x))\<rparr>) ?w1"
  assume a: "register_recv_handler m e w = Inr w'"
  have "live w ?w1"
    using assms by (intro liveI)
      (auto simp: upd_entry_def live_ctx_def listening_def registered_def)

  moreover have "live ?w1 ?w3"
    by (rule live_mux) (auto simp: mux_live_def has_receive_def alive_def
        intro!: exI [of _ "\<lambda>_. True"])
  ultimately have "live w ?w3" by (rule live.kept_trans)
  moreover have "live ?w3 w'"
  proof -
    from a have "muxes w' = muxes ?w3" "entries w' = entries ?w3" "ctxs w' = ctxs ?w3"
      by (auto simp: register_recv_handler_def mux_start_receiving_def and_then_Inr_iff guarded_def
          upd_mux_def upd_entry_def log_call_def split: if_splits)
    then show ?thesis by (intro live_frame) simp_all
  qed
  ultimately show "live w w'" by (rule live.kept_trans)
qed

lemma live_ticking:
  assumes "ticker_live (ticking (ctxs w c)) (f (ticking (ctxs w c)))"
    and "running (ticking (ctxs w c)) \<Longrightarrow> running (f (ticking (ctxs w c)))"
  shows "live w (upd_ctx c (\<lambda>x. x\<lparr>ticking := f (ticking x)\<rparr>) w)"
  using assms by (intro liveI) (auto simp: upd_ctx_def live_ctx_def listening_def registered_def)

lemma ticker_live_start: "ticker_live t (ticker_start t)" "ticker_live t (ticker_stop t)"
  using ticker_mid_do [of t Start] ticker_mid_do [of t Stop] ticker_ok_do [of t Start]
    ticker_ok_do [of t Stop]
  by (simp_all add: ticker_live_def)

lemma running_start [simp]: "running (ticker_start t)"
  by (simp add: ticker_start_def)

lemma live_ticker_start: "keeps live (ctx_ticker_start c)"
proof -
  have "live w (upd_ctx c (\<lambda>x. x\<lparr>ticking := ticker_start (ticking x)\<rparr>) w)"
    for w :: "'a udp_world_scheme"
    by (rule live_ticking) (simp_all add: ticker_live_start)
  then show ?thesis
    unfolding ctx_ticker_start_def
    by (intro live.keeps_update) (auto intro: live.kept_trans [OF live_log])
qed

lemma live_ctx_start: "keeps live (ctx_start_receiving c)"
  unfolding ctx_start_receiving_def
  by (auto intro!: keeps_intros live_ticker_start live_register)


section \<open>Counting\<close>

text \<open>
  While its context counts, the context starts and stops listening: those statements look at
  the other contexts only.
\<close>

definition live_except :: "nat \<Rightarrow> 'a udp_world_scheme \<Rightarrow> 'a udp_world_scheme \<Rightarrow> bool" where
  "live_except c0 w w' \<longleftrightarrow> (\<forall>m. mux_live (muxes w m) (muxes w' m))
     \<and> (\<forall>c. ticker_live (ticking (ctxs w c)) (ticking (ctxs w' c)))
     \<and> (\<forall>c. c \<noteq> c0 \<longrightarrow> live_ctx c w \<longrightarrow> live_ctx c w')"

interpretation live_except: kept_relation "live_except c0" for c0
proof
  fix w w' w'' :: "'a udp_world_scheme"
  show "live_except c0 w w" by (simp add: live_except_def)
  show "live_except c0 w w' \<Longrightarrow> live_except c0 w' w'' \<Longrightarrow> live_except c0 w w''"
    unfolding live_except_def ticker_live_def by (blast intro: mux_live_trans)
qed

lemma live_except_live: "live w w' \<Longrightarrow> live_except c w w'"
  by (simp add: live_def live_except_def)

lemma live_of_except: "live_except c w w' \<Longrightarrow> (live_ctx c w \<Longrightarrow> live_ctx c w') \<Longrightarrow> live w w'"
  unfolding live_def live_except_def by metis

lemma live_except_count:
  "live_except c w (upd_ctx c (\<lambda>x. x\<lparr>outstanding_op_count := n\<rparr>) w)"
  by (auto simp: live_except_def upd_ctx_def live_ctx_def listening_def registered_def)

text \<open>
  A context's receive entry is only ever registered with the context's multiplexer, and its
  function is the context's \<open>on_read\<close>.
\<close>

definition own_entries :: "'a udp_world_scheme \<Rightarrow> bool" where
  "own_entries w \<longleftrightarrow> (\<forall>c m. re_multiplexer (entries w (ctx_entry c)) = Some m \<longrightarrow> m = c)
     \<and> (\<forall>c f. re_handler (entries w (ctx_entry c)) = Some f \<longrightarrow> f = context_on_read c)"

lemma own_linked: "own_entries w \<Longrightarrow> hook_linked (ctx_entry c) w \<Longrightarrow> registered c w"
  by (auto simp: own_entries_def hook_linked_def registered_def split: option.splits)

text \<open>\<open>start_receiving\<close> makes the context listen, if its multiplexer is there.\<close>

lemma register_effect:
  assumes "register_recv_handler m e w = Inr w'"
  shows "re_multiplexer (entries w' e) = Some m" "e \<in> set (recv_handlers (muxes w' m))"
    "ctxs w' = ctxs w" "\<And>e'. e' \<noteq> e \<Longrightarrow> entries w' e' = entries w e'"
    "life (muxes w' m') = life (muxes w m')" "re_handler (entries w' e') = re_handler (entries w e')"
  using assms
  by (auto simp: register_recv_handler_def mux_start_receiving_def and_then_Inr_iff guarded_def
      upd_mux_def upd_entry_def log_call_def split: if_splits)

lemma ctx_start_establishes:
  assumes "ctx_start_receiving c w = Inr w'" and "own_entries w"
  shows "live_ctx c w'"
proof (cases "mux_locked c w")
  case False
  with assms show ?thesis by (simp add: ctx_start_receiving_def live_ctx_def mux_locked_def)
next
  case True
  let ?w1 = "upd_ctx c (\<lambda>x. x\<lparr>ticking := ticker_start (ticking x)\<rparr>)
    (if ticker_arms (ticking (ctxs w c)) then log_call (TimerWait c 500) w else w)"
  have run: "running (ticking (ctxs ?w1 c))" by (simp add: upd_ctx_def)
  have same: "muxes ?w1 = muxes w" "entries ?w1 = entries w" by (simp_all add: upd_ctx_def log_call_def)
  from assms(1) True have b: "guarded (\<lambda>w. \<not> hook_linked (ctx_entry c) w)
      (register_recv_handler c (ctx_entry c)) ?w1 = Inr w'"
    by (auto simp: ctx_start_receiving_def ctx_ticker_start_def and_then_Inr_iff)
  show ?thesis
  proof (cases "hook_linked (ctx_entry c) ?w1")
    case True
    then have "hook_linked (ctx_entry c) w"
      using same by (simp add: hook_linked_def split: option.splits)
    then have "registered c w" by (rule own_linked [OF assms(2)])
    with True b run same show ?thesis
      by (simp add: live_ctx_def listening_def registered_def)
  next
    case False
    with b have "register_recv_handler c (ctx_entry c) ?w1 = Inr w'" by simp
    from register_effect [OF this] run show ?thesis
      by (simp add: live_ctx_def listening_def registered_def)
  qed
qed

lemma live_increment:
  assumes "own_entries w" and "increment_outstanding_ops c w = Inr w'"
  shows "live w w'"
proof -
  let ?n = "outstanding_op_count (ctxs w c)"
  let ?w = "upd_ctx c (\<lambda>x. x\<lparr>outstanding_op_count := ?n + 1\<rparr>) w"
  have own: "own_entries ?w" using assms(1) by (simp add: own_entries_def upd_ctx_def)
  show ?thesis
  proof (cases "?n = 0")
    case True
    with assms(2) have start: "ctx_start_receiving c ?w = Inr w'"
      by (simp add: increment_outstanding_ops_def Let_def)
    have "live_except c w w'"
      by (rule live_except.kept_trans [OF live_except_count live_except_live])
         (rule keepsD [OF live_ctx_start start])
    then show ?thesis using ctx_start_establishes [OF start own] by (rule live_of_except)
  next
    case False
    with assms(2) have w': "w' = ?w" by (simp add: increment_outstanding_ops_def Let_def)
    show ?thesis
      unfolding w' by (rule live_of_except [OF live_except_count])
        (use False in \<open>auto simp: upd_ctx_def live_ctx_def listening_def registered_def\<close>)
  qed
qed

text \<open>Unlinking an entry takes only this entry out of the lists.\<close>

lemma live_except_unlink:
  assumes "\<And>c'. e = ctx_entry c' \<Longrightarrow> c' = c"
  shows "keeps (live_except c) (entry_unlink E e)"
proof -
  have hook: "live_except c w (hook_unlink m e w)" for m and w :: "'a udp_world_scheme"
  proof -
    have "mux_live x (x\<lparr>recv_handlers := removeAll e (recv_handlers x),
        flushing := removeAll e (flushing x)\<rparr>)" for x
      by (auto simp: mux_live_def has_receive_def removeAll_filter_not_eq)
    then show ?thesis
      using assms by (auto simp: live_except_def hook_unlink_def upd_mux_def live_ctx_def listening_def
          registered_def alive_def)
  qed
  have "keeps (live_except c) (on_recv_entry_unlinked E m)" for m
    unfolding on_recv_entry_unlinked_def
    by (intro live_except.keeps_guarded keepsI)
       (auto intro: live_except_live live_log split: if_splits)
  then have "keeps (live_except c) (\<lambda>w. on_recv_entry_unlinked E m (hook_unlink m e w))" for m
    by (rule live_except.keeps_after_update [OF hook])
  then show ?thesis
    unfolding entry_unlink_def by (intro keeps_intros)
qed

lemma live_unlink_state: "keeps live (entry_unlink E (state_entry t))"
proof (rule keepsI)
  fix w w' :: "'a udp_world_scheme"
  assume a: "entry_unlink E (state_entry t) w = Inr w'"
  have "live_except c w w'" for c
    by (rule keepsD [OF live_except_unlink a]) simp
  then show "live w w'"
    unfolding live_def live_except_def by (metis n_not_Suc_n)
qed

lemma live_except_ticker_stop: "keeps (live_except c) (ctx_ticker_stop c)"
proof -
  have stop: "live_except c w (upd_ctx c (\<lambda>x. x\<lparr>ticking := ticker_stop (ticking x)\<rparr>) w)"
    for w :: "'a udp_world_scheme"
    by (auto simp: live_except_def upd_ctx_def live_ctx_def listening_def registered_def
        ticker_live_start)
  then show ?thesis
    unfolding ctx_ticker_stop_def
    by (intro live_except.keeps_update)
       (auto intro: live_except.kept_trans [OF live_except_live [OF live_log] stop])
qed

lemma live_except_ctx_stop: "keeps (live_except c) (ctx_stop_receiving E c)"
  unfolding ctx_stop_receiving_def
  by (auto intro!: live_except.keeps_steps live_except_unlink live_except_ticker_stop)

lemma live_decrement:
  assumes "outstanding_op_count (ctxs w c) \<noteq> 0" and "decrement_outstanding_ops E c w = Inr w'"
  shows "live w w'"
proof -
  let ?n = "outstanding_op_count (ctxs w c) - 1"
  let ?w = "upd_ctx c (\<lambda>x. x\<lparr>outstanding_op_count := ?n\<rparr>) w"
  show ?thesis
  proof (cases "?n = 0")
    case True
    with assms have stop: "ctx_stop_receiving E c ?w = Inr w'"
      by (simp add: decrement_outstanding_ops_def Let_def size_t_decrement_def)
    have "live_except c w w'"
      by (rule live_except.kept_trans [OF live_except_count keepsD [OF live_except_ctx_stop stop]])
    moreover have "live_ctx c w'"
      using decrement_effect(3) [OF assms(2), of c] assms(1) True
      by (simp add: size_t_decrement_def live_ctx_def)
    ultimately show ?thesis by (rule live_of_except)
  next
    case False
    with assms have w': "w' = ?w"
      by (simp add: decrement_outstanding_ops_def Let_def size_t_decrement_def)
    show ?thesis
      unfolding w' by (rule live_of_except [OF live_except_count])
        (use assms(1) in \<open>auto simp: upd_ctx_def live_ctx_def listening_def registered_def\<close>)
  qed
qed


section \<open>Accounting and listening together\<close>

definition sound :: "'a udp_world_scheme \<Rightarrow> 'a udp_world_scheme \<Rightarrow> bool" where
  "sound w w' \<longleftrightarrow> acct w w' \<and> (own_entries w \<longrightarrow> own_entries w')
     \<and> (counted w \<longrightarrow> own_entries w \<longrightarrow> live w w')"

lemma soundI:
  assumes "acct w w'" and "own_entries w \<Longrightarrow> own_entries w'"
    and "counted w \<Longrightarrow> own_entries w \<Longrightarrow> live w w'"
  shows "sound w w'"
  using assms by (simp add: sound_def)

lemma sound_acct: "sound w w' \<Longrightarrow> acct w w'"
  by (simp add: sound_def)

lemma keeps_sound_acct: "keeps sound f \<Longrightarrow> keeps acct f"
  by (simp add: keeps_def sound_def)

interpretation sound: kept_relation sound
proof
  fix w w' w'' :: "'a udp_world_scheme"
  show "sound w w" by (simp add: sound_def acct_refl live.kept_refl)
  show "sound w w' \<Longrightarrow> sound w' w'' \<Longrightarrow> sound w w''"
    unfolding sound_def by (meson acct_trans acct_counted live.kept_trans)
qed

lemma sound_frame:
  assumes "acct w w'" and "muxes w' = muxes w"
    and "\<And>c. entries w' (ctx_entry c) = entries w (ctx_entry c)"
    and "\<And>c. ticking (ctxs w' c) = ticking (ctxs w c)"
    and "\<And>c. outstanding_op_count (ctxs w' c) = outstanding_op_count (ctxs w c)"
  shows "sound w w'"
  using assms by (intro soundI live_frame) (simp_all add: own_entries_def)

text \<open>The entries: counting up registers the context's own entry, counting down none.\<close>

lemma own_register:
  assumes "register_recv_handler m e w = Inr w'" and "\<And>c. e = ctx_entry c \<Longrightarrow> c = m"
    and "own_entries w"
  shows "own_entries w'"
proof -
  have "m' = c" if "re_multiplexer (entries w' (ctx_entry c)) = Some m'" for c m'
    using that assms(2,3) register_effect(1,4) [OF assms(1)]
    by (cases "ctx_entry c = e") (auto simp: own_entries_def)
  moreover have "f = context_on_read c" if "re_handler (entries w' (ctx_entry c)) = Some f" for c f
    using that assms(3) register_effect(6) [OF assms(1), of "ctx_entry c"] by (simp add: own_entries_def)
  ultimately show ?thesis by (simp add: own_entries_def)
qed

lemma own_increment:
  assumes "increment_outstanding_ops c w = Inr w'" and "own_entries w"
  shows "own_entries w'"
proof -
  have own: "own_entries (upd_ctx c f w)" "own_entries (log_call x w)"
    if "own_entries w" for f x and w :: "'a udp_world_scheme"
    using that by (simp_all add: own_entries_def upd_ctx_def log_call_def)
  have "own_entries w'" if "ctx_start_receiving c w = Inr w'" "own_entries w"
    for w :: "'a udp_world_scheme"
    using that
    by (auto simp: ctx_start_receiving_def ctx_ticker_start_def and_then_Inr_iff guarded_def
        own split: if_splits dest: own_register)
  then show ?thesis
    using assms by (auto simp: increment_outstanding_ops_def Let_def own split: if_splits)
qed

lemma entries_unlink: "entry_unlink E e w = Inr w' \<Longrightarrow> entries w' = entries w"
  by (auto simp: entry_unlink_def on_recv_entry_unlinked_def guarded_def hook_unlink_def upd_mux_def
      log_call_def split: option.splits if_splits)

lemma entries_ctx_stop: "ctx_stop_receiving E c w = Inr w' \<Longrightarrow> entries w' = entries w"
  by (auto simp: ctx_stop_receiving_def ctx_ticker_stop_def and_then_Inr_iff upd_ctx_def log_call_def
      dest!: entries_unlink)

lemma entries_decrement: "decrement_outstanding_ops E c w = Inr w' \<Longrightarrow> entries w' = entries w"
  by (auto simp: decrement_outstanding_ops_def Let_def upd_ctx_def split: if_splits
      dest!: entries_ctx_stop)

text \<open>An increment followed by a change of a socket, and a decrement.\<close>

lemma sound_increment:
  assumes "acct w w'" and "increment_outstanding_ops c w = Inr w1"
    and "muxes w' = muxes w1" "entries w' = entries w1" "ctxs w' = ctxs w1"
  shows "sound w w'"
proof (rule soundI [OF assms(1)])
  show "own_entries w \<Longrightarrow> own_entries w'"
    using own_increment [OF assms(2)] assms(4) by (simp add: own_entries_def)
  show "live w w'" if "own_entries w"
    using live_increment [OF that assms(2)] live_frame [of w' w1] assms(3-)
    by (auto intro: live.kept_trans)
qed

lemma sound_setup: "keeps sound (setup_op s k h)"
proof (rule keepsI)
  fix w w' :: "'a udp_world_scheme"
  assume a: "setup_op s k h w = Inr w'"
  then obtain w1 h' where "increment_outstanding_ops (sock_context (socks w s)) w = Inr w1"
    "w' = set_handler s k h' w1"
    by (auto simp: setup_op_def and_then_Inr_iff)
  then show "sound w w'"
    using keepsD [OF acct_setup a] by (auto intro: sound_increment simp: set_handler_def upd_sock_def)
qed

lemma sound_upd_sock: "acct w (upd_sock s f w) \<Longrightarrow> sound w (upd_sock s f w)"
  by (erule sound_frame) (simp_all add: upd_sock_def)

lemma sound_restart: "keeps sound (restart_send s)"
proof (rule keepsI)
  fix w w' :: "'a udp_world_scheme"
  let ?w = "set_handler s op_send None w"
  assume a: "restart_send s w = Inr w'"
  then obtain w1 h' where inc: "increment_outstanding_ops (sock_context (socks ?w s)) ?w = Inr w1"
    and w': "w' = set_handler s op_send h' w1"
    by (auto simp: restart_send_def setup_op_def and_then_Inr_iff)
  show "sound w w'"
  proof (rule soundI)
    show "acct w w'" by (rule keepsD [OF acct_restart a])
    have own: "own_entries ?w = own_entries w" by (simp add: own_entries_def set_handler_def upd_sock_def)
    show "own_entries w \<Longrightarrow> own_entries w'"
      using own_increment [OF inc] own by (simp add: w' own_entries_def set_handler_def upd_sock_def)
    show "live w w'" if "own_entries w"
    proof -
      have "live w ?w" "live w1 w'"
        by (rule live_frame; simp add: w' set_handler_def upd_sock_def)+
      moreover have "live ?w w1" using live_increment [OF _ inc] that own by simp
      ultimately show ?thesis by (blast intro: live.kept_trans)
    qed
  qed
qed

lemma sound_post: "keeps sound (post_op s k ec args)"
proof (rule keepsI)
  fix w w' :: "'a udp_world_scheme"
  assume a: "post_op s k ec args w = Inr w'"
  show "sound w w'"
    by (rule sound_frame [OF keepsD [OF acct_post a]])
       (use a in \<open>auto elim!: post_op_effect simp: set_handler_def upd_sock_def\<close>)
qed

lemma sound_begin_close: "keeps sound (begin_close s)"
proof (rule keepsI)
  fix w w' :: "'a udp_world_scheme"
  assume a: "begin_close s w = Inr w'"
  then obtain w1 where "increment_outstanding_ops (sock_context (socks w s)) w = Inr w1"
    "w' = upd_sock s (\<lambda>x. x\<lparr>decrement_close := True\<rparr>) w1"
    by (auto simp: begin_close_def and_then_Inr_iff)
  then show "sound w w'"
    using keepsD [OF acct_begin_close a] by (auto intro: sound_increment simp: upd_sock_def)
qed

lemma counted_pos: "counted w \<Longrightarrow> 0 < pending c w \<Longrightarrow> outstanding_op_count (ctxs w c) \<noteq> 0"
  by (auto simp: counted_def gap_def dest: spec [of _ c])

lemma pending_stored:
  assumes "ops_wf w" and "sock_pending (socks w s) \<noteq> 0"
  shows "0 < pending (sock_context (socks w s)) w"
  using stored_split [OF ops_wf_finite [OF assms(1)], of "sock_context (socks w s)" s] assms(2)
  by (simp add: pending_def)

lemma sound_end_close: "keeps sound (end_close E s)"
proof (rule keepsI)
  fix w w' :: "'a udp_world_scheme"
  assume a: "end_close E s w = Inr w'"
  show "sound w w'"
  proof (cases "decrement_close (socks w s)")
    case False
    with a show ?thesis by (simp add: end_close_def sound.kept_refl)
  next
    case True
    with a obtain w1 where w1: "decrement_outstanding_ops E (sock_context (socks w s)) w = Inr w1"
      and w': "w' = upd_sock s (\<lambda>x. x\<lparr>decrement_close := False\<rparr>) w1"
      by (auto simp: end_close_def and_then_Inr_iff)
    have frame: "live w1 w'" by (rule live_frame) (simp_all add: w' upd_sock_def)
    show ?thesis
    proof (rule soundI)
      show "acct w w'" by (rule keepsD [OF acct_end_close a])
      show "own_entries w \<Longrightarrow> own_entries w'"
        using entries_decrement [OF w1] by (simp add: w' own_entries_def upd_sock_def)
      show "live w w'" if "counted w"
      proof -
        have "0 < pending (sock_context (socks w s)) w"
          by (rule pending_stored) (use that True in \<open>simp_all add: counted_def sock_pending_def\<close>)
        from live_decrement [OF counted_pos [OF that this] w1] frame
        show ?thesis by (rule live.kept_trans)
      qed
    qed
  qed
qed

text \<open>
  A completion function has run and the count goes down: the count was not zero, for the
  operation had been counted and the function did not lower the gap.
\<close>

lemma sound_completion:
  assumes user: "sound w0 w1" and dec: "decrement_outstanding_ops E c w1 = Inr w'"
    and own: "own_entries w \<Longrightarrow> own_entries w0"
    and wf: "counted w \<Longrightarrow> counted w0 \<and> 1 \<le> gap c w0" and live: "live w w0"
  shows "own_entries w \<Longrightarrow> own_entries w'" and "counted w \<Longrightarrow> own_entries w \<Longrightarrow> live w w'"
proof -
  show "own_entries w \<Longrightarrow> own_entries w'"
    using own user entries_decrement [OF dec] by (simp add: sound_def own_entries_def)
  show "live w w'" if "counted w" "own_entries w"
  proof -
    have "live w0 w1" using user own wf that by (simp add: sound_def)
    moreover have "1 \<le> gap c w1"
      using wf [OF that(1)] user by (auto simp: sound_def acct_def counted_def intro: order_trans)
    then have "outstanding_op_count (ctxs w1 c) \<noteq> 0" by (auto simp: gap_def)
    then have "live w1 w'" using dec by (rule live_decrement)
    ultimately show ?thesis using live by (blast intro: live.kept_trans)
  qed
qed

lemma sound_dispatch:
  assumes user: "\<And>f ec args. keeps sound (user E f ec args)"
  shows "keeps sound (dispatch_op E s k ec args)"
proof (rule keepsI)
  fix w w' :: "'a udp_world_scheme"
  let ?w = "set_handler s k None w" and ?c = "sock_context (socks w s)"
  assume a: "dispatch_op E s k ec args w = Inr w'"
  show "sound w w'"
  proof (cases "inline E ?w")
    case False
    with a have "post_op s k ec args w = Inr w'"
      by (auto simp: dispatch_op_def handler_dispatch_def impl_dispatch_def post_op_def
          split: option.splits)
    then show ?thesis by (rule keepsD [OF sound_post])
  next
    case True
    with a obtain i w1 where i: "handler_of s k w = Some i"
      and w1: "user E (func i) ec args ?w = Inr w1"
      and rest: "(case after i of None \<Rightarrow> Inr w1 | Some x \<Rightarrow> run_after E x w1) = Inr w'"
      by (auto simp: dispatch_op_def handler_dispatch_def impl_dispatch_def run_work_def
          and_then_Inr_iff split: option.splits)
    have frame: "live w ?w" by (rule live_frame) (simp_all add: set_handler_def upd_sock_def)
    have own: "own_entries ?w = own_entries w" by (simp add: own_entries_def set_handler_def upd_sock_def)
    have wf: "counted ?w \<and> 1 \<le> gap ?c ?w" if "counted w"
      using that gap_drop_handler [OF _ i] ops_wf_drop_handler [of w s k]
      by (auto simp: counted_def)
    have acct: "acct w w'" by (rule keepsD [OF acct_dispatch [OF keeps_sound_acct [OF user]] a])
    show ?thesis
    proof (cases "after i")
      case None
      with rest keepsD [OF user w1] frame own wf acct show ?thesis
        by (auto simp: sound_def intro: live.kept_trans)
    next
      case (Some x)
      then obtain c where x: "after i = Some (decrement_of c)" by (cases x) simp
      with rest have dec: "decrement_outstanding_ops E c w1 = Inr w'" by (simp add: run_after_def)
      have "c = ?c" if "counted w" using that x ops_wf_after [OF _ i] by (auto simp: counted_def)
      then show ?thesis
        using own wf by (intro soundI acct sound_completion [OF keepsD [OF user w1] dec _ _ frame]) auto
    qed
  qed
qed

lemma sound_run_posted:
  assumes user: "\<And>f ec args. keeps sound (user E f ec args)"
  shows "keeps sound (run_posted E)"
proof (rule keepsI)
  fix w w' :: "'a udp_world_scheme"
  assume a: "run_posted E w = Inr w'"
  have acct: "acct w w'" by (rule keepsD [OF acct_run_posted [OF keeps_sound_acct [OF user]] a])
  show "sound w w'"
  proof (cases "posted w")
    case Nil
    with a show ?thesis by (simp add: run_posted_def sound.kept_refl)
  next
    case (Cons x xs)
    let ?w = "w\<lparr>posted := xs\<rparr>"
    from a Cons obtain w1 where w1: "user E (work_fn x) (work_ec x) (work_args x) ?w = Inr w1"
      and rest: "(case work_after x of None \<Rightarrow> Inr w1 | Some k \<Rightarrow> run_after E k w1) = Inr w'"
      by (auto simp: run_posted_def run_work_def and_then_Inr_iff)
    have frame: "live w ?w" by (rule live_frame) simp_all
    have own: "own_entries ?w = own_entries w" by (simp add: own_entries_def)
    have gap: "gap c ?w = gap c w + of_bool (work_after x = Some (decrement_of c))" for c
      using Cons by (simp add: gap_def pending_def)
    then have wf: "counted w \<Longrightarrow> counted ?w" by (auto simp: counted_def ops_wf_def)
    show ?thesis
    proof (cases "work_after x")
      case None
      with rest keepsD [OF user w1] frame own wf acct show ?thesis
        by (auto simp: sound_def intro: live.kept_trans)
    next
      case (Some k)
      then obtain c where x: "work_after x = Some (decrement_of c)" by (cases k) simp
      with rest have dec: "decrement_outstanding_ops E c w1 = Inr w'" by (simp add: run_after_def)
      have "counted w \<Longrightarrow> counted ?w \<and> 1 \<le> gap c ?w"
        using wf gap [of c] x by (auto simp: counted_def)
      then show ?thesis
        using own by (intro soundI acct sound_completion [OF keepsD [OF user w1] dec _ _ frame]) auto
    qed
  qed
qed

lemma sound_live: "acct w w' \<Longrightarrow> entries w' = entries w \<Longrightarrow> live w w' \<Longrightarrow> sound w w'"
  by (rule soundI) (simp_all add: own_entries_def)

lemma sound_new_mux:
  assumes "unused_mux m w"
  shows "sound w (mux_create m ep w)"
proof (rule soundI)
  show "acct w (mux_create m ep w)" by (rule acct_new_mux [OF assms])
  show "own_entries w \<Longrightarrow> own_entries (mux_create m ep w)"
    by (auto simp: own_entries_def mux_create_def)
  show "live w (mux_create m ep w)"
    using assms by (intro liveI) (auto simp: mux_create_def unused_mux_def mux_live_def has_receive_def
        new_mux_def new_context_def new_ticker_def ticker_live_def ticker_ok_def ticker_mid_def
        live_ctx_def listening_def registered_def intro!: exI [of _ "\<lambda>_. True"])
qed

interpretation sound_free: kept_free sound
proof
  fix w :: "'a udp_world_scheme" and t m
  show "sound w (upd_front fr g w)" for fr g
    by (rule sound_frame [OF acct_free.any_front_kept]) (simp_all add: upd_front_def)
  show "sound w (upd_mux m take_ref w)"
    by (rule sound_live [OF acct_refs(1) _ live_refs(1)]) (simp add: upd_mux_def)
  show "sound w (upd_mux m drop_ref w)"
    by (rule sound_live [OF acct_refs(2) _ live_refs(2)]) (simp add: upd_mux_def)
  show "sound w (w\<lparr>multiplexers := ms\<rparr>)" for ms
    by (rule sound_frame [OF acct_free.service_kept]) simp_all
  show "sound w (upd_mstate t (\<lambda>_. new_state mi) w)" for mi
    by (rule sound_frame [OF acct_free.new_state_kept]) (simp_all add: upd_mstate_def)
  show "sound w (upd_mstate t (\<lambda>x. x\<lparr>ms_impl := None\<rparr>) w)"
    by (rule sound_frame [OF acct_free.ms_impl_kept]) (simp_all add: upd_mstate_def)
qed (fact sound_new_mux)

lemma sound_kept_core:
  assumes user: "\<And>f ec args. keeps sound (user E f ec args)"
    and slot: "\<And>sl bs n dst ec. keeps sound (slot E sl bs n dst ec)"
  shows "kept_core sound E"
proof
  note acct = acct_kept_core [OF keeps_sound_acct [OF user] keeps_sound_acct [OF slot]]
  fix w w' w'' :: "'a udp_world_scheme" and f :: "socket_impl \<Rightarrow> socket_impl" and s k ec args
  show "(\<And>x. same_ops x (f x)) \<Longrightarrow> sound w (upd_sock s f w)"
    by (rule sound_upd_sock) (rule kept_core.sock_kept [OF acct])
  show "keeps sound (dispatch_op E s k ec args)" by (rule sound_dispatch) (rule user)
  show "life (muxes w' m) = destroyed" if "sound w w'" "life (muxes w m) = destroyed" for m
    using kept_core.gone_kept [OF acct sound_acct] that by blast
  show "sound w w'" if "life (muxes w c) = destroyed" "ctx_stop_receiving E c w = Inr w'" for c
  proof (rule sound_live)
    show "acct w w'" by (rule kept_core.stop_kept [OF acct that])
    show "entries w' = entries w" by (rule entries_ctx_stop [OF that(2)])
    have "live_except c w w'" by (rule keepsD [OF live_except_ctx_stop that(2)])
    moreover from this have "live_ctx c w'"
      using that(1) by (simp add: live_except_def mux_live_def live_ctx_def alive_def)
    ultimately show "live w w'" by (rule live_of_except)
  qed
  show "sound w (upd_mux m (\<lambda>x. x\<lparr>recv_handlers := []\<rparr>) w)" if "life (muxes w m) = destroyed" for m
  proof (rule sound_live)
    show "acct w (upd_mux m (\<lambda>x. x\<lparr>recv_handlers := []\<rparr>) w)"
      by (rule kept_core.unlinked_kept [OF acct that])
    show "live w (upd_mux m (\<lambda>x. x\<lparr>recv_handlers := []\<rparr>) w)"
      using that by (intro live_mux) (auto simp: mux_live_def has_receive_def alive_def
          intro!: exI [of _ "\<lambda>_. True"])
  qed (simp add: upd_mux_def)
  show "sound w (release_ref m w')" if "alive (muxes w m)" "sound (upd_mux m take_ref w) w'" for m
    using that(2) by (rule sound_free.free_lock_kept)
  show "sound w (upd_front fr g w)" for fr g by (rule sound_free.any_front_kept)
  show "sound w (log_call xc w)" for xc
    by (rule sound_frame [OF kept_core.log_kept [OF acct]]) (simp_all add: log_call_def)
  show "sound w (upd_ctx c (\<lambda>x. x\<lparr>accepting_sockets := a\<rparr>) w)" for c a
    by (rule sound_frame [OF kept_core.accepting_kept [OF acct]]) (simp_all add: upd_ctx_def)
  show "sound w (upd_ctx c (\<lambda>x. x\<lparr>utp_ctx := False\<rparr>) w)" for c
    by (rule sound_frame [OF kept_core.utp_ctx_kept [OF acct]]) (simp_all add: upd_ctx_def)
  show "keeps sound (handler_post (new_handler fn) ec args)" for fn ec args
    by (rule keepsI, rule sound_frame [OF keepsD [OF acct_plain_post]]) (auto simp: new_handler_def)
qed (rule slot keeps_start [OF sound.kept_relation_axioms sound_setup] sound_restart sound_post sound_begin_close sound_end_close
    sound_frame acct_same_ops | simp add: same_ops_def)+

lemma sound_register:
  assumes "\<And>c. e = ctx_entry c \<Longrightarrow> c = m"
  shows "keeps sound (register_recv_handler m e)"
proof (rule keepsI)
  fix w w' :: "'a udp_world_scheme"
  assume a: "register_recv_handler m e w = Inr w'"
  show "sound w w'"
  proof (rule soundI)
    show "acct w w'" by (rule keepsD [OF keeps_acct_of_frame [OF keeps_frame_register] a])
    show "own_entries w \<Longrightarrow> own_entries w'" by (rule own_register [OF a assms])
    show "live w w'" by (rule keepsD [OF live_register [OF assms] a])
  qed
qed

lemma sound_ticker_start: "keeps sound (ctx_ticker_start c)"
proof (rule keepsI)
  fix w w' :: "'a udp_world_scheme"
  assume a: "ctx_ticker_start c w = Inr w'"
  show "sound w w'"
  proof (rule sound_live)
    show "acct w w'" by (rule keepsD [OF keeps_acct_of_frame [OF keeps_frame_ticker(1)] a])
    show "live w w'" by (rule keepsD [OF live_ticker_start a])
    show "entries w' = entries w" using a by (auto simp: ctx_ticker_start_def upd_ctx_def log_call_def)
  qed
qed

lemma sound_ctx_start: "keeps sound (ctx_start_receiving c)"
  unfolding ctx_start_receiving_def
  by (auto intro!: sound.keeps_guarded sound.keeps_steps sound.keeps_assert_that sound_ticker_start
      sound_register)

lemma sound_post_state:
  "keeps sound (post_rx_handler t ec args)" "keeps sound (post_tx_handler t ec args)"
  by (rule keepsI, rule sound_frame, erule keepsD [OF acct_post_rx],
      auto simp: post_rx_handler_def guarded_def upd_mstate_def split: if_splits)
     (rule keepsI, rule sound_frame, erule keepsD [OF acct_post_tx],
      auto simp: post_tx_handler_def guarded_def upd_mstate_def split: if_splits)

lemma sound_kept_lib:
  assumes user: "\<And>f ec args. keeps sound (user E f ec args)"
    and slot: "\<And>sl bs n dst ec. keeps sound (slot E sl bs n dst ec)"
  shows "kept_lib sound E"
proof -
  note acct = acct_kept_lib [OF keeps_sound_acct [OF user] keeps_sound_acct [OF slot]]
  have "kept_lib_axioms sound E"
  proof
    fix w w' :: "'a udp_world_scheme" and s c t m o' ec args
    show "keeps sound (user E fn ec args)" for fn by (rule user)
    show "unused_impl s w \<Longrightarrow> sound w (upd_sock s (\<lambda>_. new_socket_impl o' c) w)"
      by (rule sound_upd_sock) (rule kept_lib.new_impl_kept [OF acct])
    show "sound w (upd_ctx c (\<lambda>x. x\<lparr>registered_sockets := registered_sockets x @ [s]\<rparr>) w)"
      by (rule sound_frame [OF kept_lib.registered_kept [OF acct]]) (simp_all add: upd_ctx_def)
    show "(\<And>x. plain_update x (f x)) \<Longrightarrow> sound w (upd_mstate t f w)" for f
      by (rule sound_frame [OF kept_lib.mstate_kept [OF acct]]) (simp_all add: upd_mstate_def)
    show "sound w (w\<lparr>mfronts := mf\<rparr>)" for mf
      by (rule sound_frame [OF kept_lib.mfronts_kept [OF acct]]) simp_all
    show "sound w (w\<lparr>eps := ee\<rparr>)" for ee
      by (rule sound_frame [OF kept_lib.eps_kept [OF acct]]) simp_all
    show "sound w (w\<lparr>sends := ss\<rparr>)" for ss
      by (rule sound_frame [OF kept_lib.sends_kept [OF acct]]) simp_all
    show "free_entry t w \<Longrightarrow> sound w (upd_entry (state_entry t) (\<lambda>_. r) w)" for r
      by (rule sound_frame [OF kept_lib.new_entry_kept [OF acct]]) (simp_all add: upd_entry_def)
    show "sound w (upd_entry (state_entry t) (\<lambda>r. r\<lparr>re_handler := None\<rparr>) w)"
      by (rule sound_frame [OF kept_lib.clear_entry_kept [OF acct]]) (simp_all add: upd_entry_def)
    show "keeps sound (entry_unlink E (state_entry t))"
      by (rule keepsI, rule sound_live) (erule keepsD [OF kept_lib.unlink_kept [OF acct]]
        entries_unlink keepsD [OF live_unlink_state])+
    show "keeps sound (register_recv_handler m (state_entry t))" by (rule sound_register) simp
    show "sound w (upd_mux m (\<lambda>x. x\<lparr>send_to_signal := sg x\<rparr>) w)" for sg
      by (rule sound_live [OF kept_lib.signal_kept [OF acct]])
         (simp add: upd_mux_def, rule live_mux, auto simp: mux_live_def has_receive_def alive_def
           intro!: exI [of _ "\<lambda>_. True"])
    show "keeps sound (post_rx_handler t ec args)" "keeps sound (post_tx_handler t ec args)"
      by (rule sound_post_state)+
  qed
  then show ?thesis
    using sound_kept_core [OF user slot] sound_free.kept_refs_axioms by (simp add: kept_lib_def)
qed

interpretation sound_tie: kept_ops sound "tie X n" for X :: "'l outside" and n
  by (rule tie_kept [OF sound_kept_lib])
     (auto intro!: sound_frame acct_same_ops simp: same_ops_def)


section \<open>The invariant between steps\<close>

text \<open>What holds of a multiplexer and of a context when no library call is in progress.\<close>

definition mux_ok :: "mux_impl \<Rightarrow> bool" where
  "mux_ok x \<longleftrightarrow> flushing x = [] \<and> has_receive x
     \<and> (life x \<noteq> destroyed \<longrightarrow> rx_ops x = of_bool (is_receiving x))"

definition ctx_ok :: "nat \<Rightarrow> 'a udp_world_scheme \<Rightarrow> bool" where
  "ctx_ok c w \<longleftrightarrow> live_ctx c w \<and> ticker_ok (ticking (ctxs w c))"

definition base_ok :: "'a udp_world_scheme \<Rightarrow> bool" where
  "base_ok w \<longleftrightarrow> counted w \<and> own_entries w"

definition system_ok :: "'a udp_world_scheme \<Rightarrow> bool" where
  "system_ok w \<longleftrightarrow> base_ok w \<and> (\<forall>m. mux_ok (muxes w m)) \<and> (\<forall>c. ctx_ok c w)"

lemma base_sound: "sound w w' \<Longrightarrow> base_ok w \<Longrightarrow> base_ok w' \<and> live w w'"
  by (auto simp: sound_def base_ok_def intro: acct_counted)

lemma mux_ok_live: "mux_live x y \<Longrightarrow> mux_ok x \<Longrightarrow> mux_ok y"
  by (auto simp: mux_live_def mux_ok_def)

lemma ctx_ok_live: "live w w' \<Longrightarrow> ctx_ok c w \<Longrightarrow> ctx_ok c w'"
  by (simp add: live_def ctx_ok_def ticker_live_def)

lemma system_sound: "sound w w' \<Longrightarrow> system_ok w \<Longrightarrow> system_ok w'"
  using base_sound [of w w'] by (auto simp: system_ok_def live_def intro: mux_ok_live ctx_ok_live)

text \<open>In the timer function of a context its ticker may be running with no wait pending.\<close>

definition ticking_ok :: "nat \<Rightarrow> 'a udp_world_scheme \<Rightarrow> bool" where
  "ticking_ok c w \<longleftrightarrow> base_ok w \<and> (\<forall>m. mux_ok (muxes w m)) \<and> (\<forall>c'. c' \<noteq> c \<longrightarrow> ctx_ok c' w)
     \<and> live_ctx c w \<and> ticker_mid (ticking (ctxs w c))"

lemma ticking_sound: "sound w w' \<Longrightarrow> ticking_ok c w \<Longrightarrow> ticking_ok c w'"
  using base_sound [of w w']
  by (auto simp: ticking_ok_def live_def ticker_live_def intro: mux_ok_live ctx_ok_live)

lemma ticking_stopped: "ticking_ok c w \<Longrightarrow> \<not> running (ticking (ctxs w c)) \<Longrightarrow> system_ok w"
  unfolding ticking_ok_def system_ok_def ctx_ok_def by (metis ticker_stopped_ok)

text \<open>While the receive of a multiplexer completes, its entries may be in the local list.\<close>

definition receiving_mid :: "nat \<Rightarrow> 'a udp_world_scheme \<Rightarrow> bool" where
  "receiving_mid m w \<longleftrightarrow> base_ok w \<and> (\<forall>m'. m' \<noteq> m \<longrightarrow> mux_ok (muxes w m'))
     \<and> is_receiving (muxes w m) \<and> rx_ops (muxes w m) = 0 \<and> (\<forall>c. c \<noteq> m \<longrightarrow> ctx_ok c w)
     \<and> ticker_ok (ticking (ctxs w m))"

lemma receiving_sound:
  assumes "sound w w'" and "receiving_mid m w"
  shows "receiving_mid m w'" and "live_ctx m w \<Longrightarrow> live_ctx m w'"
proof -
  have b: "base_ok w'" "live w w'" using base_sound [OF assms(1)] assms(2) by (simp_all add: receiving_mid_def)
  then have "mux_live (muxes w m) (muxes w' m)" by (simp add: live_def)
  then have "is_receiving (muxes w' m) \<and> rx_ops (muxes w' m) = 0"
    using assms(2) by (auto simp: mux_live_def receiving_mid_def)
  moreover have "mux_ok (muxes w' m')" if "m' \<noteq> m" for m'
    using b(2) assms(2) that by (auto simp: receiving_mid_def live_def intro: mux_ok_live)
  moreover have "ticker_ok (ticking (ctxs w' m))"
    using b(2) assms(2) by (simp add: receiving_mid_def live_def ticker_live_def)
  ultimately show "receiving_mid m w'"
    using b assms(2) by (auto simp: receiving_mid_def intro: ctx_ok_live)
  show "live_ctx m w \<Longrightarrow> live_ctx m w'" using b(2) by (simp add: live_def)
qed

text \<open>Changes of the two lists of entries.\<close>

lemma receiving_lists:
  assumes "receiving_mid m w"
  shows "receiving_mid m (upd_mux m (\<lambda>x. x\<lparr>recv_handlers := a, flushing := b\<rparr>) w)"
proof -
  let ?w = "upd_mux m (\<lambda>x. x\<lparr>recv_handlers := a, flushing := b\<rparr>) w"
  have "acct w ?w" by (rule acct_mux) simp
  then have "base_ok ?w"
    using assms acct_counted [of w ?w]
    by (auto simp: receiving_mid_def base_ok_def own_entries_def upd_mux_def)
  with assms show ?thesis
    by (auto simp: receiving_mid_def upd_mux_def ctx_ok_def live_ctx_def listening_def registered_def)
qed

lemma live_ctx_lists:
  assumes "live_ctx m w" and "ctx_entry m \<in> set (recv_handlers (muxes w m)) \<union> set (flushing (muxes w m))
    \<Longrightarrow> ctx_entry m \<in> set a \<union> set b"
  shows "live_ctx m (upd_mux m (\<lambda>x. x\<lparr>recv_handlers := a, flushing := b\<rparr>) w)"
  using assms by (auto simp: live_ctx_def listening_def registered_def upd_mux_def alive_def)


section \<open>Every step re-establishes the invariant\<close>

text \<open>\<open>on_read\<close> up to the point where the context listens again.\<close>

definition read_datagram ::
  "('a udp_world_scheme) env \<Rightarrow> nat \<Rightarrow> endpoint \<Rightarrow> byte list \<Rightarrow> 'a udp_world_scheme \<Rightarrow> 'a udp_world_scheme result" where
  "read_datagram E c ep bs =
     steps
       [issue_acks_if_idle E c,
        \<lambda>w. and_then (to_sockaddr (host_abi E) ep) (\<lambda>src_addr.
            and_then (sockaddr_size (host_abi E) src_addr) (\<lambda>sz.
              utp_do E (utp_process_udp c bs src_addr sz) w)),
        issue_acks_if_idle E c]"

lemma on_read_eq:
  "ctx_on_read E c ec ep bs = with_lock (mux_drop E) c
     (\<lambda>w. and_then (read_datagram E c ep bs w)
        (guarded (\<lambda>w. outstanding_op_count (ctxs w c) \<noteq> 0) (ctx_start_receiving c)))"
  unfolding ctx_on_read_def read_datagram_def steps_snoc [symmetric] append.simps ..

locale sound_env = kept_ops sound E
  for E :: "('a udp_world_scheme) env"
begin

text \<open>
  \<open>on_read\<close> is sound and leaves its context listening if operations are outstanding, even
  though its entry was taken out of the list before.
\<close>

lemma sound_drop: "keeps sound (mux_drop E m)"
  by (rule keepsI) (rule drop_kept [OF sound_free.release_ref_kept])

lemma sound_read_datagram: "keeps sound (read_datagram E c ep bs)"
proof -
  have "keeps sound (issue_acks_if_idle E c)"
    unfolding issue_acks_if_idle_def by (intro keeps_guarded keeps_do)
  moreover have "keeps sound (\<lambda>w. and_then (to_sockaddr (host_abi E) ep) (\<lambda>src_addr.
      and_then (sockaddr_size (host_abi E) src_addr) (\<lambda>sz.
        utp_do E (utp_process_udp c bs src_addr sz) w)))"
    by (intro keeps_and_then_pure keeps_do)
  ultimately show ?thesis
    unfolding read_datagram_def by (auto intro!: keeps_steps)
qed

lemma sound_on_read: "keeps sound (ctx_on_read E c ec ep bs)"
  unfolding on_read_eq
  by (intro keeps_with_lock keeps_and_then keeps_guarded sound_read_datagram sound_ctx_start)

lemma on_read_listens:
  assumes "ctx_on_read E c ec ep bs w = Inr w'" and "base_ok w"
  shows "live_ctx c w'"
proof (cases "alive (muxes w c)")
  case False
  with assms(1) show ?thesis by (simp add: on_read_eq with_lock_def live_ctx_def)
next
  case True
  let ?w = "upd_mux c take_ref w"
  from assms(1) True obtain w1 w2 where w1: "read_datagram E c ep bs ?w = Inr w1"
    and w2: "guarded (\<lambda>w. outstanding_op_count (ctxs w c) \<noteq> 0) (ctx_start_receiving c) w1 = Inr w2"
    and w': "mux_drop E c w2 = Inr w'"
    by (auto simp: on_read_eq with_lock_def and_then_Inr_iff)
  have "base_ok w1"
    using base_sound [OF kept_trans [OF sound_free.take_ref_kept keepsD [OF sound_read_datagram w1]]] assms(2)
    by blast
  moreover from this have "live_ctx c w2"
    using w2 ctx_start_establishes [of c w1 w2]
    by (cases "outstanding_op_count (ctxs w1 c) = 0") (auto simp: live_ctx_def base_ok_def)
  moreover have "sound w1 w2"
    using keepsD [OF keeps_guarded [OF sound_ctx_start] w2] .
  ultimately show ?thesis
    using base_sound [of w1 w2] base_sound [OF keepsD [OF sound_drop w']] by (simp add: live_def)
qed

lemma sound_handle_read: "keeps sound (handle_read E t ec ep bs)"
  by (rule keeps_handle_read)

lemma sound_recv_call: "keeps sound (recv_call E f ec ep bs)"
  by (cases f) (simp_all add: recv_call_def sound_on_read sound_handle_read)

text \<open>The loop over the entries.\<close>

lemma flush_loop_ok:
  assumes "flush_loop (recv_call E) k m ec sz w = Inr w'" and "receiving_mid m w" and "live_ctx m w"
  shows "receiving_mid m w' \<and> live_ctx m w' \<and> flushing (muxes w' m) = []"
  using assms
proof (induction k arbitrary: w)
  case 0
  then show ?case by (auto split: if_splits)
next
  case (Suc k)
  show ?case
  proof (cases "flushing (muxes w m)")
    case Nil
    with Suc.prems show ?thesis by simp
  next
    case (Cons e es)
    let ?w = "upd_mux m (\<lambda>x. x\<lparr>recv_handlers := recv_handlers (muxes w m), flushing := es\<rparr>) w"
    have w0: "upd_mux m (\<lambda>x. x\<lparr>flushing := es\<rparr>) w = ?w" by (simp add: upd_mux_def)
    from Cons Suc.prems(1) obtain f w1 where f: "re_handler (entries w e) = Some f"
      and call: "recv_call E f ec (rx_endpoint (muxes w m)) (take sz (rx_buffer (muxes w m))) ?w = Inr w1"
      and rest: "flush_loop (recv_call E) k m ec sz w1 = Inr w'"
      unfolding flush_loop.simps Cons list.case w0
      by (auto simp: and_then_Inr_iff split: option.splits)
    have mid: "receiving_mid m ?w" by (rule receiving_lists [OF Suc.prems(2)])
    have snd: "sound ?w w1" by (rule keepsD [OF sound_recv_call call])
    have "live_ctx m w1"
    proof (cases "e = ctx_entry m")
      case True
      then have "f = context_on_read m"
        using f Suc.prems(2) by (auto simp: receiving_mid_def base_ok_def own_entries_def)
      then show ?thesis
        using call mid by (auto simp: recv_call_def receiving_mid_def intro: on_read_listens)
    next
      case False
      have "live_ctx m ?w"
        by (rule live_ctx_lists [OF Suc.prems(3)]) (use Cons False in auto)
      then show ?thesis by (rule receiving_sound(2) [OF snd mid])
    qed
    with Suc.IH [OF rest] receiving_sound(1) [OF snd mid] show ?thesis by blast
  qed
qed

text \<open>The completion of a receive.\<close>

lemma received_mid:
  assumes "system_ok w" and "life (muxes w m) \<noteq> not_created" and "rx_ops (muxes w m) > 0"
    and "alive (muxes w m)"
  shows "receiving_mid m (mux_received m dgram ep w)" and "live_ctx m (mux_received m dgram ep w)"
    and "flushing (muxes (mux_received m dgram ep w) m) = []"
proof -
  let ?w = "mux_received m dgram ep w"
  have "acct w ?w" unfolding mux_received_def by (rule acct_mux) simp
  then have "base_ok ?w"
    using assms(1) acct_counted [of w ?w]
    by (auto simp: system_ok_def base_ok_def own_entries_def mux_received_def upd_mux_def)
  moreover have "mux_ok (muxes w m)" using assms(1) by (simp add: system_ok_def)
  then have "is_receiving (muxes w m)" "rx_ops (muxes w m) = 1" "flushing (muxes w m) = []"
    using assms(3,4) by (auto simp: mux_ok_def alive_def split: ownership.splits if_splits)
  ultimately show "receiving_mid m ?w" "live_ctx m ?w" "flushing (muxes ?w m) = []"
    using assms(1)
    by (auto simp: receiving_mid_def system_ok_def mux_received_def upd_mux_def ctx_ok_def live_ctx_def
        listening_def registered_def alive_def)
qed

lemma receive_done_ok:
  assumes "receiving_mid m w" and "live_ctx m w" and "flushing (muxes w m) = []"
    and "guarded (\<lambda>w. recv_handlers (muxes w m) \<noteq> []) (mux_start_receiving m)
      (upd_mux m (\<lambda>x. x\<lparr>is_receiving := False\<rparr>) w) = Inr w'"
  shows "system_ok w'"
proof -
  have "keeps acct_frame (guarded (\<lambda>w. recv_handlers (muxes w m) \<noteq> []) (mux_start_receiving m))"
    by (intro frame.keeps_guarded keeps_frame_mux_start)
  from acct_of_frame [OF keepsD [OF this assms(4)]]
  have "acct w w'" by (rule acct_trans [rotated]) (rule acct_mux, simp)
  then have "counted w'" using assms(1) by (auto simp: receiving_mid_def base_ok_def intro: acct_counted)
  moreover have same: "ctxs w' = ctxs w" "entries w' = entries w"
    and mux: "muxes w' = (muxes w)(m := (muxes w m)\<lparr>is_receiving := recv_handlers (muxes w m) \<noteq> [],
      rx_ops := rx_ops (muxes w m) + of_bool (recv_handlers (muxes w m) \<noteq> [])\<rparr>)"
    using assms(4)
    by (auto simp: guarded_def mux_start_receiving_def and_then_Inr_iff upd_mux_def log_call_def
        split: if_splits)
  moreover have "own_entries w'"
    using assms(1) same by (simp add: receiving_mid_def base_ok_def own_entries_def)
  moreover have "mux_ok (muxes w' m')" for m'
    using assms(1,3) by (simp add: mux receiving_mid_def mux_ok_def has_receive_def)
  moreover have "live_ctx c w' = live_ctx c w" for c
    by (simp add: live_ctx_def listening_def registered_def mux same alive_def)
  then have "ctx_ok c w'" for c
    using assms(1,2) same by (cases "c = m") (auto simp: ctx_ok_def receiving_mid_def)
  ultimately show ?thesis by (simp add: system_ok_def base_ok_def)
qed

lemma receive_completed_ok:
  assumes "system_ok w" and "life (muxes w m) \<noteq> not_created" and "rx_ops (muxes w m) > 0"
    and "receive_completed E m ec dgram ep w = Inr w'"
  shows "system_ok w'"
proof (cases "alive (muxes w m)")
  case False
  with assms(2,3) have gone: "life (muxes w m) = destroyed"
    by (auto simp: alive_def split: ownership.splits)
  have w': "w' = mux_received m dgram ep w"
    using assms(4) False
    by (simp add: receive_completed_def mux_on_receive_def with_lock_def mux_received_def upd_mux_def alive_def)
  have "acct w w'" unfolding w' mux_received_def by (rule acct_mux) simp
  then have "counted w'" using assms(1) by (auto simp: system_ok_def base_ok_def intro: acct_counted)
  moreover have "live_ctx c w' = live_ctx c w" for c
    by (simp add: w' mux_received_def upd_mux_def live_ctx_def listening_def registered_def alive_def)
  moreover have "mux_ok (muxes w' m')" for m'
    using assms(1) gone by (simp add: w' mux_received_def upd_mux_def system_ok_def mux_ok_def has_receive_def)
  ultimately show ?thesis
    using assms(1) by (simp add: w' mux_received_def upd_mux_def system_ok_def base_ok_def ctx_ok_def
        own_entries_def)
next
  case True
  let ?r = "mux_received m dgram ep w"
  let ?t = "upd_mux m take_ref ?r"
  let ?canceled = "ec = operation_aborted \<and> udp_is_open E m ?t"
  from assms(2,3) True have r: "receiving_mid m ?r" "live_ctx m ?r" "flushing (muxes ?r m) = []"
    by (auto intro!: received_mid [OF assms(1)])
  have alive': "alive (muxes ?r m)" using True by (simp add: mux_received_def upd_mux_def alive_def)
  have t: "receiving_mid m ?t" "live_ctx m ?t" "flushing (muxes ?t m) = []"
    using receiving_sound [OF sound_free.take_ref_kept r(1)] r(2,3) by (simp_all add: upd_mux_def take_ref_def)
  from assms(4) alive' obtain w1 w2 where
    w1: "guarded (\<lambda>w. \<not> (ec = operation_aborted \<and> udp_is_open E m w))
      (flush_handlers (recv_call E) m ec (length dgram)) ?t = Inr w1"
    and w2: "guarded (\<lambda>w. recv_handlers (muxes w m) \<noteq> []) (mux_start_receiving m)
      (upd_mux m (\<lambda>x. x\<lparr>is_receiving := False\<rparr>) w1) = Inr w2"
    and w': "mux_drop E m w2 = Inr w'"
    by (auto simp: receive_completed_def mux_on_receive_def with_lock_def and_then_Inr_iff
        simp del: flush_loop.simps)
  have "receiving_mid m w1 \<and> live_ctx m w1 \<and> flushing (muxes w1 m) = []"
  proof (cases ?canceled)
    case True
    with w1 t show ?thesis by simp
  next
    case False
    let ?hs = "recv_handlers (muxes ?t m)"
    let ?f = "upd_mux m (\<lambda>x. x\<lparr>recv_handlers := [], flushing := ?hs\<rparr>) ?t"
    have "receiving_mid m ?f" by (rule receiving_lists [OF t(1)])
    moreover have "live_ctx m ?f" by (rule live_ctx_lists [OF t(2)]) (use t(3) in auto)
    moreover from False w1 have "flush_loop (recv_call E) (length ?hs) m ec
        (if ec = no_error then length dgram else 0) ?f = Inr w1"
      by (simp add: flush_handlers_def Let_def)
    ultimately show ?thesis by (intro flush_loop_ok)
  qed
  then have "system_ok w2" using w2 by (intro receive_done_ok) auto
  then show ?thesis by (rule system_sound [OF keepsD [OF sound_drop w']])
qed

text \<open>The end of a timer wait.\<close>

lemma timer_ok:
  assumes "system_ok w" and "waits (ticking (ctxs w c)) > 0" and "ctx_on_timer E c w = Inr w'"
  shows "system_ok w'"
proof -
  define t where "t = ticking (ctxs w c)"
  define v where "v = t\<lparr>waits := waits t - 1, outstanding := False\<rparr>"
  define u where "u = (if mux_locked c w then v else v\<lparr>running := False\<rparr>)"
  let ?w = "upd_ctx c (\<lambda>x. x\<lparr>ticking := u\<rparr>) w"
  have "ticker_ok t" using assms(1) by (simp add: system_ok_def ctx_ok_def t_def)
  then have "ticker_mid u" using assms(2)
    by (auto simp: ticker_ok_def ticker_mid_def u_def v_def t_def split: if_splits)
  have frame: "muxes ?w = muxes w" "entries ?w = entries w" "ctxs ?w = (ctxs w)(c := (ctxs w c)\<lparr>ticking := u\<rparr>)"
    by (simp_all add: upd_ctx_def)
  have ticking: "ticking_ok c ?w"
  proof -
    have "acct w ?w" by (rule acct_of_frame) (simp add: acct_frame_def upd_ctx_def)
    then have "counted ?w" using assms(1) by (auto simp: system_ok_def base_ok_def intro: acct_counted)
    moreover have "live_ctx c ?w"
      using assms(1) frame
      by (auto simp: system_ok_def ctx_ok_def live_ctx_def listening_def registered_def u_def v_def t_def mux_locked_def)
    ultimately show ?thesis
      using assms(1) frame \<open>ticker_mid u\<close>
      by (simp add: ticking_ok_def system_ok_def base_ok_def own_entries_def ctx_ok_def live_ctx_def
          listening_def registered_def)
  qed
  have run: "(if \<not> running u then Inr ?w else and_then (ctx_on_tick E c ?w) (\<lambda>w.
      if \<not> running (ticking (ctxs w c)) then Inr w
      else ctx_ticker_start c (upd_ctx c (\<lambda>x. x\<lparr>ticking := (ticking x)\<lparr>running := False\<rparr>\<rparr>) w))) = Inr w'"
  proof -
    let ?a = "upd_ctx c (\<lambda>x. x\<lparr>ticking := (ticking x)\<lparr>waits := waits (ticking x) - 1, outstanding := False\<rparr>\<rparr>) w"
    have "(if mux_locked c ?a then ?a
        else upd_ctx c (\<lambda>x. x\<lparr>ticking := (ticking x)\<lparr>running := False\<rparr>\<rparr>) ?a) = ?w"
      by (simp add: u_def v_def t_def upd_ctx_def mux_locked_def)
    moreover have "ticking (ctxs ?w c) = u" by (simp add: upd_ctx_def)
    ultimately show ?thesis
      using assms(3) unfolding ctx_on_timer_def ticker_on_wait_def Let_def by (simp only:)
  qed
  show ?thesis
  proof (cases "running u")
    case False
    with run have "w' = ?w" by simp
    then show ?thesis using ticking_stopped [OF ticking] False frame by simp
  next
    case True
    with run obtain w1 where w1: "ctx_on_tick E c ?w = Inr w1"
      and rest: "(if \<not> running (ticking (ctxs w1 c)) then Inr w1
        else ctx_ticker_start c (upd_ctx c (\<lambda>x. x\<lparr>ticking := (ticking x)\<lparr>running := False\<rparr>\<rparr>) w1)) = Inr w'"
      by (auto simp: and_then_Inr_iff)
    have "keeps sound (ctx_on_tick E c)"
      unfolding ctx_on_tick_def by (auto intro!: keeps_steps keeps_assert_that keeps_do)
    then have ok1: "ticking_ok c w1" using ticking w1 by (blast intro: ticking_sound dest: keepsD)
    show ?thesis
    proof (cases "running (ticking (ctxs w1 c))")
      case False
      with rest ticking_stopped [OF ok1] show ?thesis by simp
    next
      case True
      let ?t = "ticker_start ((ticking (ctxs w1 c))\<lparr>running := False\<rparr>)"
      from rest True have c: "ctxs w' = (ctxs w1)(c := (ctxs w1 c)\<lparr>ticking := ?t\<rparr>)"
        and same: "muxes w' = muxes w1" "entries w' = entries w1"
        by (auto simp: ctx_ticker_start_def upd_ctx_def log_call_def)
      have "acct w1 w'"
        using rest True by (intro acct_of_frame)
          (auto simp: acct_frame_def ctx_ticker_start_def upd_ctx_def log_call_def)
      then have "counted w'" using ok1 by (auto simp: ticking_ok_def base_ok_def intro: acct_counted)
      moreover have "ticker_ok ?t" using ok1 by (intro ticker_start_after_tick) (simp add: ticking_ok_def)
      ultimately show ?thesis
        using ok1 c same
        by (auto simp: ticking_ok_def system_ok_def base_ok_def own_entries_def ctx_ok_def live_ctx_def
            listening_def registered_def)
    qed
  qed
qed

end

interpretation sound_steps: sound_env "tie X n" for X :: "'l outside" and n
  by unfold_locales

lemma sys_step_ok:
  assumes "sys_step X w w'" and "system_ok w"
  shows "system_ok w'"
  using assms(1)
proof cases
  case (step ev n)
  show ?thesis
  proof (cases ev)
    case (Run_user p)
    with step have "sound w w'" by (auto dest: keepsD [OF sound_tie.keeps_run_prog])
    then show ?thesis using assms(2) by (rule system_sound)
  next
    case Run_posted
    with step have "sound w w'"
      by (auto dest: keepsD [OF sound_run_posted [OF sound_tie.user_kept]])
    then show ?thesis using assms(2) by (rule system_sound)
  next
    case (Timer_expired c)
    with step assms(2) show ?thesis by (auto intro: sound_steps.timer_ok)
  next
    case (Received m ec dgram ep)
    with step assms(2) show ?thesis by (auto intro: sound_steps.receive_completed_ok)
  next
    case (Sent i ec k)
    with step have "sound (w\<lparr>sends := remove_nth i (sends w)\<rparr>) w'"
      by (auto dest: keepsD [OF sound_tie.keeps_send_completed])
    then have "sound w w'" by (rule sound.kept_trans [OF sound_tie.sends_kept])
    then show ?thesis using assms(2) by (rule system_sound)
  qed
qed

lemma system_ok_start: "system_ok (start_world l)"
proof -
  have "own_entries (start_world l)" by (simp add: own_entries_def start_world_def)
  moreover have "mux_ok (muxes (start_world l) m)" for m
    by (simp add: start_world_def blank_mux_def new_mux_def mux_ok_def has_receive_def)
  moreover have "ctx_ok c (start_world l)" for c
    by (simp add: start_world_def ctx_ok_def live_ctx_def new_context_def ticker_ok_def
        ticker_mid_def new_ticker_def)
  ultimately show ?thesis by (simp add: system_ok_def base_ok_def counted_start)
qed

lemma reachable_ok: "reachable X w \<Longrightarrow> system_ok w"
  by (induction rule: reachable.induct) (auto intro: system_ok_start sys_step_ok)

end
