(* ===== verification/Frames.thy ===== *)
theory Frames
  imports Accounting
begin

text \<open>
  What most building blocks of the library leave alone: who owns which multiplexer, the map of
  the service, which sockets exist and whether they are closed. A relation that only looks at
  this (\<open>calm_relation\<close>) is kept by the library as soon as it is kept by the few building
  blocks that change it.
\<close>

definition calm :: "'a udp_world_scheme \<Rightarrow> 'a udp_world_scheme \<Rightarrow> bool" where
  "calm w w' \<longleftrightarrow> fronts w' = fronts w \<and> multiplexers w' = multiplexers w
     \<and> (\<forall>t. ms_impl (mstates w' t) = ms_impl (mstates w t))
     \<and> (\<forall>m. life (muxes w' m) = life (muxes w m) \<and> local_endpoint (muxes w' m) = local_endpoint (muxes w m))
     \<and> (\<forall>s. allocated (socks w' s) = allocated (socks w s)
          \<and> sock_context (socks w' s) = sock_context (socks w s)
          \<and> closed (socks w' s) = closed (socks w s) \<and> got_eof (socks w' s) = got_eof (socks w s))"

lemma calm_refl [simp]: "calm w w"
  by (simp add: calm_def)

lemma calm_trans: "calm w w' \<Longrightarrow> calm w' w'' \<Longrightarrow> calm w w''"
  by (simp add: calm_def)

lemma calm_of_frame: "acct_frame w w' \<Longrightarrow> calm w w'"
  by (simp add: acct_frame_def calm_def)

lemma calm_rest:
  assumes "rest_same w w'" and "socks w' = (socks w)(s := x)"
    and "allocated x = allocated (socks w s)" and "sock_context x = sock_context (socks w s)"
    and "closed x = closed (socks w s)" and "got_eof x = got_eof (socks w s)"
  shows "calm w w'"
  using assms by (simp add: rest_same_def calm_def)

lemma calm_same_socks: "rest_same w w' \<Longrightarrow> socks w' = socks w \<Longrightarrow> calm w w'"
  by (simp add: rest_same_def calm_def)

lemma calm_setup: "keeps calm (setup_op s k h)"
  by (rule keepsI) (erule setup_op_effect, erule calm_rest, assumption, simp_all)

lemma calm_restart: "keeps calm (restart_send s)"
  by (rule keepsI) (erule restart_send_effect, erule calm_rest, assumption, simp_all)

lemma calm_set_handler: "calm w (set_handler s k h w)"
  by (simp add: calm_def set_handler_def upd_sock_def)

lemma calm_post: "keeps calm (post_op s k ec args)"
  by (rule keepsI) (erule post_op_effect, simp add: calm_def set_handler_def upd_sock_def)

lemma calm_decrement: "keeps calm (decrement_outstanding_ops E c)"
  by (rule keepsI) (rule calm_same_socks, erule decrement_effect(4), erule decrement_effect(1))

lemma calm_begin_close: "keeps calm (begin_close s)"
proof (rule keepsI)
  fix w w' :: "'a udp_world_scheme"
  assume "begin_close s w = Inr w'"
  then obtain w1 where w1: "increment_outstanding_ops (sock_context (socks w s)) w = Inr w1"
    and w': "w' = upd_sock s (\<lambda>x. x\<lparr>decrement_close := True\<rparr>) w1"
    by (auto simp: begin_close_def and_then_Inr_iff)
  have "calm w w1" by (rule calm_same_socks [OF increment_effect(4,1) [OF w1]])
  then show "calm w w'" by (rule calm_trans) (simp add: w' calm_def upd_sock_def)
qed

lemma calm_end_close: "keeps calm (end_close E s)"
proof (rule keepsI)
  fix w w' :: "'a udp_world_scheme"
  assume "end_close E s w = Inr w'"
  then consider "w' = w" | w1 where "decrement_outstanding_ops E (sock_context (socks w s)) w = Inr w1"
      "w' = upd_sock s (\<lambda>x. x\<lparr>decrement_close := False\<rparr>) w1"
    by (auto simp: end_close_def guarded_def and_then_Inr_iff split: if_splits)
  then show "calm w w'"
  proof cases
    case 2
    from keepsD [OF calm_decrement 2(1)] show ?thesis
      by (rule calm_trans) (simp add: 2(2) calm_def upd_sock_def)
  qed simp
qed

lemma calm_post_state:
  "keeps calm (post_rx_handler t ec args)" "keeps calm (post_tx_handler t ec args)"
  by (rule keepsI, auto simp: calm_def post_rx_handler_def post_tx_handler_def guarded_def upd_mstate_def
      split: if_splits)+

text \<open>Completions, for a relation that decrements and the queue of the executor keep.\<close>

locale work_relation = kept_relation R
  for R :: "'a udp_world_scheme \<Rightarrow> 'a udp_world_scheme \<Rightarrow> bool" +
  assumes decrement_kept: "keeps R (decrement_outstanding_ops E c)"
    and posted_kept: "R w (w\<lparr>posted := xs\<rparr>)"
    and set_handler_kept: "R w (set_handler s k h w)"
begin

lemma completion_kept:
  assumes "keeps R (user E (work_fn x) (work_ec x) (work_args x))"
  shows "keeps R (run_work (user E) (run_after E) x)"
proof -
  have after: "keeps R (\<lambda>w. case work_after x of None \<Rightarrow> Inr w | Some k \<Rightarrow> run_after E k w)"
  proof (cases "work_after x")
    case (Some k)
    then show ?thesis by (cases k) (simp add: run_after_def decrement_kept)
  qed (simp add: keeps_Inr)
  show ?thesis unfolding run_work_def by (intro keeps_and_then assms after)
qed

lemma run_posted_kept:
  assumes "\<And>f ec args. keeps R (user E f ec args)"
  shows "keeps R (run_posted E)"
proof (rule keepsI)
  fix w w' :: "'a udp_world_scheme"
  assume a: "run_posted E w = Inr w'"
  show "R w w'"
  proof (cases "posted w")
    case (Cons x xs)
    with a keepsD [OF completion_kept [OF assms]] show ?thesis
      by (auto simp: run_posted_def intro: kept_trans [OF posted_kept])
  qed (use a in \<open>simp add: run_posted_def kept_refl\<close>)
qed

lemma dispatch_kept:
  assumes "\<And>f ec args. keeps R (user E f ec args)"
  shows "keeps R (dispatch_op E s k ec args)"
proof (rule keepsI)
  fix w w' :: "'a udp_world_scheme"
  let ?w = "set_handler s k None w"
  assume a: "dispatch_op E s k ec args w = Inr w'"
  then obtain i where i: "handler_of s k w = Some i"
    by (cases "handler_of s k w") (simp_all add: dispatch_op_def handler_dispatch_def)
  show "R w w'"
  proof (cases "inline E ?w")
    case True
    with a i have "run_work (user E) (run_after E) (Work (func i) ec args (after i)) ?w = Inr w'"
      by (simp add: dispatch_op_def handler_dispatch_def impl_dispatch_def)
    from keepsD [OF completion_kept [OF assms] this] show ?thesis by (rule kept_trans [OF set_handler_kept])
  next
    case False
    with a i have "w' = ?w\<lparr>posted := posted ?w @ [Work (func i) ec args (after i)]\<rparr>"
      by (simp add: dispatch_op_def handler_dispatch_def impl_dispatch_def)
    then show ?thesis using kept_trans [OF set_handler_kept posted_kept] by simp
  qed
qed

lemma plain_post_kept: "keeps R (handler_post (new_handler fn) ec args)"
  by (rule keepsI) (auto simp: new_handler_def intro: posted_kept)

end

locale calm_relation = kept_relation R
  for R :: "'a udp_world_scheme \<Rightarrow> 'a udp_world_scheme \<Rightarrow> bool" +
  assumes calm_kept: "calm w w' \<Longrightarrow> R w w'"
begin

lemma keeps_calm: "keeps calm f \<Longrightarrow> keeps R f"
  by (auto simp: keeps_def intro: calm_kept)

end

sublocale calm_relation \<subseteq> work_relation
  by unfold_locales (simp_all add: keeps_calm calm_decrement calm_kept calm_set_handler, simp add: calm_kept calm_def)

context calm_relation
begin

lemma calm_kept_core:
  assumes "\<And>f ec args. keeps R (user E f ec args)" and "\<And>sl bs n dst ec. keeps R (slot E sl bs n dst ec)"
    and "\<And>f w s. (\<And>x. same_ops x (f x)) \<Longrightarrow> R w (upd_sock s f w)"
    and "\<And>g w fr. (\<And>x. multiplexer (g x) = multiplexer x) \<Longrightarrow> R w (upd_front fr g w)"
    and "\<And>w m w'. alive (muxes w m) \<Longrightarrow> R (upd_mux m take_ref w) w' \<Longrightarrow> R w (release_ref m w')"
    and "\<And>w w' m. R w w' \<Longrightarrow> life (muxes w m) = destroyed \<Longrightarrow> life (muxes w' m) = destroyed"
  shows "kept_core R E"
proof unfold_locales
  show "ctx_stop_receiving E c w = Inr w' \<Longrightarrow> R w w'" for c w w'
    by (rule calm_kept [OF calm_of_frame]) (rule keepsD [OF keeps_frame_ctx_stop])
qed (fact assms dispatch_kept [OF assms(1)] keeps_start [OF kept_relation_axioms calm_setup [THEN keeps_calm]] calm_restart [THEN keeps_calm]
    calm_post [THEN keeps_calm] calm_begin_close [THEN keeps_calm] calm_end_close [THEN keeps_calm]
  | rule calm_kept, simp add: calm_def log_call_def upd_ctx_def upd_mux_def
  | rule keepsI calm_kept, auto simp: calm_def new_handler_def)+

lemma calm_kept_lib:
  assumes "kept_core R E" and "\<And>f ec args. keeps R (user E f ec args)" and "kept_refs R"
    and "\<And>s w fr c. unused_impl s w \<Longrightarrow> R w (upd_sock s (\<lambda>_. new_socket_impl fr c) w)"
  shows "kept_lib R E"
proof -
  have "kept_lib_axioms R E"
  proof
    show "keeps R (entry_unlink E (state_entry t))" "keeps R (register_recv_handler m (state_entry t))" for t m
      by (rule keeps_calm, rule keepsI, rule calm_of_frame, erule keepsD [OF keeps_frame_unlink])
         (rule keeps_calm, rule keepsI, rule calm_of_frame, erule keepsD [OF keeps_frame_register])
    show "(\<And>x. plain_update x (f x)) \<Longrightarrow> R w (upd_mstate t f w)" for f w t
      by (rule calm_kept) (simp add: calm_def upd_mstate_def plain_update_def)
  qed (fact assms calm_post_state [THEN keeps_calm]
    | rule calm_kept, simp add: calm_def upd_ctx_def upd_entry_def upd_mux_def)+
  then show ?thesis using assms(1,3) by (simp add: kept_lib_def)
qed

lemma calm_kept_events:
  assumes "kept_ops R E"
  shows "kept_events R E"
proof -
  have "kept_reads_axioms R"
  proof
    show "keeps R (register_recv_handler m e)" for m e
      by (rule keeps_calm, rule keepsI, rule calm_of_frame, erule keepsD [OF keeps_frame_register])
  qed (rule calm_kept, simp add: calm_def upd_mux_def upd_ctx_def)
  moreover have "kept_inputs_axioms R"
    by unfold_locales (rule calm_kept, simp add: calm_def upd_mux_def)
  moreover have "kept_events_axioms R E"
  proof
    show "keeps R (run_posted E)"
      by (rule run_posted_kept) (rule kept_lib.user_kept [OF kept_ops.axioms(1) [OF assms]])
  qed
  ultimately show ?thesis using assms by (simp add: kept_events_def kept_inputs_def kept_reads_def)
qed

end

end
