(* ===== verification/History.thy ===== *)
theory History
  imports Frames
begin

text \<open>
  What never changes back: a socket keeps its context, stays closed once closed and keeps the
  end of the stream once seen; a destroyed multiplexer stays destroyed.
\<close>

definition sock_older :: "socket_impl \<Rightarrow> socket_impl \<Rightarrow> bool" where
  "sock_older x y \<longleftrightarrow> (allocated x \<longrightarrow> allocated y \<and> sock_context y = sock_context x
     \<and> (closed x \<longrightarrow> closed y) \<and> (got_eof x \<longrightarrow> got_eof y))"

definition older :: "'a udp_world_scheme \<Rightarrow> 'a udp_world_scheme \<Rightarrow> bool" where
  "older w w' \<longleftrightarrow> (\<forall>s. sock_older (socks w s) (socks w' s))
     \<and> (\<forall>m. life (muxes w m) = destroyed \<longrightarrow> life (muxes w' m) = destroyed)"

lemma older_calm: "calm w w' \<Longrightarrow> older w w'"
  by (simp add: older_def calm_def sock_older_def)

lemma older_same: "socks w' = socks w \<Longrightarrow> (\<And>m. life (muxes w m) = destroyed \<Longrightarrow> life (muxes w' m) = destroyed)
    \<Longrightarrow> older w w'"
  by (simp add: older_def sock_older_def)

lemma older_sock: "sock_older (socks w s) (f (socks w s)) \<Longrightarrow> older w (upd_sock s f w)"
  by (simp add: older_def upd_sock_def sock_older_def)

interpretation older: calm_relation older
proof
  fix w w' w'' :: "'a udp_world_scheme"
  show "older w w" by (simp add: older_def sock_older_def)
  show "older w w' \<Longrightarrow> older w' w'' \<Longrightarrow> older w w''" by (auto simp: older_def sock_older_def)
qed (rule older_calm)

interpretation older_free: kept_free older
  by unfold_locales
     (rule older_same;
      auto simp: upd_front_def upd_mux_def take_ref_def drop_ref_def upd_mstate_def mux_create_def unused_mux_def)+

lemma older_kept_lib:
  fixes E :: "'a udp_world_scheme env"
  assumes "\<And>f ec args. keeps older (user E f ec args)" and "\<And>sl bs n dst ec. keeps older (slot E sl bs n dst ec)"
  shows "kept_lib older E"
proof (rule older.calm_kept_lib)
  show "kept_core older E"
  proof (rule older.calm_kept_core)
    show "(\<And>x. same_ops x (f x)) \<Longrightarrow> older w (upd_sock s f w)" for f w s
      by (rule older_sock) (simp add: same_ops_def sock_older_def)
    show "older (upd_mux m take_ref w) w' \<Longrightarrow> older w (release_ref m w')" for w m w'
      by (rule older_free.free_lock_kept)
    show "older w (upd_front fr g w)" for g fr and w :: "'a udp_world_scheme"
      by (rule older_free.any_front_kept)
    show "older w w' \<Longrightarrow> life (muxes w m) = destroyed \<Longrightarrow> life (muxes w' m) = destroyed"
      for m and w w' :: "'a udp_world_scheme"
      by (simp add: older_def)
  qed (fact assms)+
  show "older w (upd_sock s (\<lambda>_. new_socket_impl fr c) w)" if "unused_impl s w" for s w fr c
    using that by (intro older_sock) (simp add: unused_impl_def sock_older_def)
qed (fact assms older_free.kept_refs_axioms)+

interpretation older_tie: kept_ops older "tie X n" for X :: "'l outside" and n
  by (rule tie_kept [OF older_kept_lib]) (auto intro: older_same)

lemma steps_older:
  assumes "(sys_step X)\<^sup>*\<^sup>* w w'"
  shows "older w w'"
  using assms
proof (induction rule: rtranclp_induct)
  case base
  show ?case by (rule older.kept_refl)
next
  case (step y z)
  have "older y z"
    by (rule sys_step_kept [OF older.calm_kept_events [OF older_tie.kept_ops_axioms] step.hyps(2)])
  with step.IH show ?case by (rule older.kept_trans)
qed

end
