(* ===== verification/Idle.thy ===== *)
theory Idle
  imports History
begin

text \<open>
  A context without outstanding operations does not tick: its ticker is started by the first
  operation, or again while one is outstanding, and stopped with the last one. Together with
  the theory Liveness a context with a live multiplexer ticks exactly while it has work.
\<close>

definition ticks_busy :: "nat \<Rightarrow> 'a udp_world_scheme \<Rightarrow> bool" where
  "ticks_busy c w \<longleftrightarrow> (running (ticking (ctxs w c)) \<longrightarrow> outstanding_op_count (ctxs w c) \<noteq> 0)"

definition tidy :: "'a udp_world_scheme \<Rightarrow> 'a udp_world_scheme \<Rightarrow> bool" where
  "tidy w w' \<longleftrightarrow> older w w' \<and> (\<forall>c. ticks_busy c w \<longrightarrow> ticks_busy c w')"

lemma tidyI:
  assumes "older w w'" and "\<And>c. ticks_busy c w \<Longrightarrow> ticks_busy c w'"
  shows "tidy w w'"
  using assms by (simp add: tidy_def)

lemma tidy_older: "tidy w w' \<Longrightarrow> older w w'"
  by (simp add: tidy_def)

lemma tidy_same:
  assumes "older w w'" and "\<And>c. ticking (ctxs w' c) = ticking (ctxs w c)"
    and "\<And>c. outstanding_op_count (ctxs w' c) = outstanding_op_count (ctxs w c)"
  shows "tidy w w'"
  using assms by (simp add: tidy_def ticks_busy_def)

lemma keeps_tidy_older: "keeps tidy f \<Longrightarrow> keeps older f"
  by (auto simp: keeps_def dest: tidy_older)


section \<open>The operations of the context\<close>

lemma register_ctxs: "register_recv_handler m e w = Inr w' \<Longrightarrow> ctxs w' = ctxs w"
  by (auto simp: register_recv_handler_def mux_start_receiving_def guarded_def and_then_Inr_iff upd_mux_def
      upd_entry_def log_call_def split: if_splits)

lemma unlink_ctxs: "entry_unlink E e w = Inr w' \<Longrightarrow> ctxs w' = ctxs w"
  by (auto simp: entry_unlink_def on_recv_entry_unlinked_def guarded_def hook_unlink_def upd_mux_def
      log_call_def split: if_splits option.splits)

lemma start_ctxs:
  assumes "ctx_start_receiving c w = Inr w'" and "d \<noteq> c"
  shows "ctxs w' d = ctxs w d"
  using assms
  by (auto simp: ctx_start_receiving_def ctx_ticker_start_def guarded_def and_then_Inr_iff upd_ctx_def
      log_call_def dest!: register_ctxs split: if_splits)

lemma stop_ctxs:
  assumes "ctx_stop_receiving E c w = Inr w'"
  shows "\<not> running (ticking (ctxs w' c))" and "d \<noteq> c \<Longrightarrow> ctxs w' d = ctxs w d"
  using assms
  by (auto simp: ctx_stop_receiving_def ctx_ticker_stop_def ticker_stop_def upd_ctx_def log_call_def
      dest!: unlink_ctxs split: if_splits)

lemma increment_busy:
  assumes "increment_outstanding_ops c w = Inr w'" and "ticks_busy d w"
  shows "ticks_busy d w'"
proof (cases "d = c")
  case True
  then show ?thesis using increment_effect(3) [OF assms(1), of c] by (simp add: ticks_busy_def)
next
  case False
  then have "ctxs w' d = ctxs w d"
    using assms(1) by (auto simp: increment_outstanding_ops_def Let_def upd_ctx_def dest: start_ctxs split: if_splits)
  with assms(2) show ?thesis by (simp add: ticks_busy_def)
qed

lemma decrement_busy:
  assumes "decrement_outstanding_ops E c w = Inr w'" and "ticks_busy d w"
  shows "ticks_busy d w'"
proof (cases "size_t_decrement (outstanding_op_count (ctxs w c)) = 0")
  case True
  then show ?thesis
    using assms stop_ctxs [of E c _ w']
    by (cases "d = c") (auto simp: decrement_outstanding_ops_def ticks_busy_def upd_ctx_def)
next
  case False
  then show ?thesis
    using assms by (auto simp: decrement_outstanding_ops_def ticks_busy_def upd_ctx_def)
qed


section \<open>The whole library\<close>

lemma tidy_calm: "calm w w' \<Longrightarrow> (\<And>c. ticks_busy c w \<Longrightarrow> ticks_busy c w') \<Longrightarrow> tidy w w'"
  by (rule tidyI) (rule older_calm)

interpretation tidy: work_relation tidy
proof
  fix w w' w'' :: "'a udp_world_scheme"
  show "tidy w w" by (simp add: tidy_def older.kept_refl)
  show "tidy w w' \<Longrightarrow> tidy w' w'' \<Longrightarrow> tidy w w''" by (auto simp: tidy_def intro: older.kept_trans)
next
  show "keeps tidy (decrement_outstanding_ops E c)" for E :: "'a udp_world_scheme env" and c
    by (rule keepsI, rule tidy_calm) (erule keepsD [OF calm_decrement] decrement_busy, assumption?)+
  show "tidy w (w\<lparr>posted := xs\<rparr>)" for xs and w :: "'a udp_world_scheme"
    by (rule tidy_calm) (simp_all add: calm_def ticks_busy_def)
  show "tidy w (set_handler s k h w)" for s k h and w :: "'a udp_world_scheme"
    by (rule tidy_calm [OF calm_set_handler]) (simp add: ticks_busy_def set_handler_def upd_sock_def)
qed

lemma tidy_increment: "keeps tidy (increment_outstanding_ops c)"
  by (rule keepsI, rule tidy_calm, rule calm_same_socks) (erule increment_effect increment_busy, assumption?)+

lemma tidy_update: "calm w w' \<Longrightarrow> ctxs w' = ctxs w \<Longrightarrow> tidy w w'"
  by (rule tidy_calm) (simp_all add: ticks_busy_def)

lemma tidy_setup: "keeps tidy (setup_op s k h)"
proof (rule keepsI)
  fix w w' :: "'a udp_world_scheme"
  assume "setup_op s k h w = Inr w'"
  then obtain w1 h' where "increment_outstanding_ops (sock_context (socks w s)) w = Inr w1" "w' = set_handler s k h' w1"
    by (auto simp: setup_op_def and_then_Inr_iff)
  then show "tidy w w'" using keepsD [OF tidy_increment] tidy.kept_trans [OF _ tidy.set_handler_kept] by blast
qed

lemma tidy_restart: "keeps tidy (restart_send s)"
  unfolding restart_send_def
  by (rule keepsI) (rule tidy.kept_trans [OF tidy.set_handler_kept], erule keepsD [OF tidy_setup])

interpretation tidy_free: kept_free tidy
proof unfold_locales
  fix w :: "'a udp_world_scheme" and fr g m ms ep t mi
  show "tidy w (upd_front fr g w)" by (rule tidy_same [OF older_free.any_front_kept]) (simp_all add: upd_front_def)
  show "tidy w (upd_mux m take_ref w)" "tidy w (upd_mux m drop_ref w)"
    by (rule tidy_same [OF older_free.take_ref_kept], simp_all add: upd_mux_def)
       (rule tidy_same [OF older_free.drop_ref_kept, unfolded upd_mux_def], simp_all)
  show "tidy w (w\<lparr>multiplexers := ms\<rparr>)" by (rule tidy_same [OF older_free.service_kept]) simp_all
  show "unused_mux m w \<Longrightarrow> tidy w (mux_create m ep w)"
    by (rule tidyI [OF older_free.new_mux_kept])
       (auto simp: ticks_busy_def mux_create_def new_context_def new_ticker_def)
  show "tidy w (upd_mstate t (\<lambda>_. new_state mi) w)"
    by (rule tidy_same [OF older_free.new_state_kept]) (simp_all add: upd_mstate_def)
  show "tidy w (upd_mstate t (\<lambda>x. x\<lparr>ms_impl := None\<rparr>) w)"
    by (rule tidy_same [OF older_free.ms_impl_kept]) (simp_all add: upd_mstate_def)
qed

lemma tidy_close:
  fixes E :: "'a udp_world_scheme env"
  shows "keeps tidy (begin_close s :: 'a udp_world_scheme \<Rightarrow> _)" and "keeps tidy (end_close E s)"
proof -
  have mark: "tidy w (upd_sock s (\<lambda>x. x\<lparr>decrement_close := b\<rparr>) w)" for b and w :: "'a udp_world_scheme"
    by (rule tidy_update) (simp_all add: calm_def upd_sock_def)
  show "keeps tidy (begin_close s :: 'a udp_world_scheme \<Rightarrow> _)"
  proof (rule keepsI)
    fix w w' :: "'a udp_world_scheme"
    assume "begin_close s w = Inr w'"
    then obtain w1 where "increment_outstanding_ops (sock_context (socks w s)) w = Inr w1"
      and "w' = upd_sock s (\<lambda>x. x\<lparr>decrement_close := True\<rparr>) w1"
      by (auto simp: begin_close_def and_then_Inr_iff)
    then show "tidy w w'" using keepsD [OF tidy_increment] tidy.kept_trans [OF _ mark] by blast
  qed
  show "keeps tidy (end_close E s)"
  proof (rule keepsI)
    fix w w' :: "'a udp_world_scheme"
    assume "end_close E s w = Inr w'"
    then consider "w' = w" | w1 where "decrement_outstanding_ops E (sock_context (socks w s)) w = Inr w1"
        "w' = upd_sock s (\<lambda>x. x\<lparr>decrement_close := False\<rparr>) w1"
      by (auto simp: end_close_def guarded_def and_then_Inr_iff split: if_splits)
    then show "tidy w w'"
      by cases (auto simp: tidy.kept_refl intro: tidy.kept_trans [OF keepsD [OF tidy.decrement_kept] mark])
  qed
qed

lemma tidy_kept_core:
  fixes E :: "'a udp_world_scheme env"
  assumes "\<And>f ec args. keeps tidy (user E f ec args)" and "\<And>sl bs n dst ec. keeps tidy (slot E sl bs n dst ec)"
  shows "kept_core tidy E"
proof unfold_locales
  fix w w' :: "'a udp_world_scheme" and f g s fr c m a xc k ec args
  show "(\<And>x. same_ops x (f x)) \<Longrightarrow> tidy w (upd_sock s f w)"
    by (rule tidy_same, rule older_sock) (simp_all add: same_ops_def sock_older_def upd_sock_def)
  show "tidy w (upd_front fr g w)" by (rule tidy_free.any_front_kept)
  show "tidy w w' \<Longrightarrow> life (muxes w m) = destroyed \<Longrightarrow> life (muxes w' m) = destroyed"
    by (simp add: tidy_def older_def)
  show "tidy (upd_mux m take_ref w) w' \<Longrightarrow> tidy w (release_ref m w')"
    by (rule tidy_free.free_lock_kept)
  show "tidy w (log_call xc w)" by (rule tidy_update) (simp_all add: calm_def log_call_def)
  show "tidy w (upd_ctx c (\<lambda>x. x\<lparr>accepting_sockets := a\<rparr>) w)" "tidy w (upd_ctx c (\<lambda>x. x\<lparr>utp_ctx := False\<rparr>) w)"
    by (rule tidy_same; simp add: older_calm calm_def upd_ctx_def)+
  show "tidy w (upd_mux m (\<lambda>x. x\<lparr>recv_handlers := []\<rparr>) w)"
    by (rule tidy_update) (simp_all add: calm_def upd_mux_def)
  show "ctx_stop_receiving E c w = Inr w' \<Longrightarrow> tidy w w'"
  proof (rule tidy_calm)
    assume a: "ctx_stop_receiving E c w = Inr w'"
    show "calm w w'" by (rule calm_of_frame) (rule keepsD [OF keeps_frame_ctx_stop a])
    show "ticks_busy d w \<Longrightarrow> ticks_busy d w'" for d
      using stop_ctxs [OF a] by (cases "d = c") (simp_all add: ticks_busy_def)
  qed
  show "keeps tidy (post_op s k ec args :: 'a udp_world_scheme \<Rightarrow> _)"
    by (rule keepsI, rule tidy_update, erule keepsD [OF calm_post])
       (erule post_op_effect, simp add: set_handler_def upd_sock_def)
qed (fact assms tidy.dispatch_kept [OF assms(1)] keeps_start [OF tidy.kept_relation_axioms tidy_setup] tidy_restart tidy_close tidy.plain_post_kept
  | rule tidy_update, simp add: calm_def, simp)+

lemma tidy_kept_lib:
  fixes E :: "'a udp_world_scheme env"
  assumes "\<And>f ec args. keeps tidy (user E f ec args)" and "\<And>sl bs n dst ec. keeps tidy (slot E sl bs n dst ec)"
  shows "kept_lib tidy E"
proof -
  have "kept_lib_axioms tidy E"
  proof
    fix w :: "'a udp_world_scheme" and f s o' c t m g ec args
    show "keeps tidy (entry_unlink E (state_entry t))" "keeps tidy (register_recv_handler m (state_entry t) :: 'a udp_world_scheme \<Rightarrow> _)"
      by (rule keepsI, rule tidy_update, rule calm_of_frame, erule keepsD [OF keeps_frame_unlink], erule unlink_ctxs)
         (rule keepsI, rule tidy_update, rule calm_of_frame, erule keepsD [OF keeps_frame_register], erule register_ctxs)
    show "(\<And>x. plain_update x (f x)) \<Longrightarrow> tidy w (upd_mstate t f w)"
      by (rule tidy_update) (simp_all add: calm_def upd_mstate_def plain_update_def)
    show "unused_impl s w \<Longrightarrow> tidy w (upd_sock s (\<lambda>_. new_socket_impl o' c) w)"
      by (rule tidy_same, rule older_sock) (simp_all add: unused_impl_def sock_older_def upd_sock_def)
    show "tidy w (upd_ctx c (\<lambda>x. x\<lparr>registered_sockets := registered_sockets x @ [s]\<rparr>) w)"
      by (rule tidy_same; simp add: older_calm calm_def upd_ctx_def)
    show "keeps tidy (post_rx_handler t ec args :: 'a udp_world_scheme \<Rightarrow> _)"
      "keeps tidy (post_tx_handler t ec args :: 'a udp_world_scheme \<Rightarrow> _)"
      by (rule keepsI, rule tidy_update, erule keepsD [OF calm_post_state(1)],
          auto simp: post_rx_handler_def guarded_def upd_mstate_def split: if_splits)
         (rule keepsI, rule tidy_update, erule keepsD [OF calm_post_state(2)],
          auto simp: post_tx_handler_def guarded_def upd_mstate_def split: if_splits)
  qed (fact assms | rule tidy_update, simp add: calm_def upd_entry_def upd_mux_def, simp add: upd_entry_def upd_mux_def)+
  then show ?thesis using tidy_kept_core [OF assms] tidy_free.kept_refs_axioms by (simp add: kept_lib_def)
qed

interpretation tidy_tie: kept_ops tidy "tie X n" for X :: "'l outside" and n
  by (rule tie_kept [OF tidy_kept_lib]) (auto intro: tidy_update simp: calm_def)

interpretation tidy_events: kept_events tidy "tie X n" for X :: "'l outside" and n
proof unfold_locales
  fix w :: "'l utp_world" and m f c tk e
  show "keeps tidy (run_posted (tie X n))"
    by (rule tidy.run_posted_kept) (rule tidy_tie.user_kept)
  show "keeps tidy (register_recv_handler m e :: 'l utp_world \<Rightarrow> _)"
    by (rule keepsI, rule tidy_update, rule calm_of_frame, erule keepsD [OF keeps_frame_register], erule register_ctxs)
  show "(\<And>x. life (f x) = life x) \<Longrightarrow> (\<And>x. local_endpoint (f x) = local_endpoint x) \<Longrightarrow> tidy w (upd_mux m f w)"
    by (rule tidy_update) (simp_all add: calm_def upd_mux_def)
  show "tidy w (upd_ctx c (\<lambda>x. x\<lparr>ticking := tk (ticking x)\<rparr>) w)"
    if "running (tk (ticking (ctxs w c))) \<Longrightarrow> running (ticking (ctxs w c)) \<or> outstanding_op_count (ctxs w c) \<noteq> 0"
    using that by (intro tidy_calm) (auto simp: calm_def upd_ctx_def ticks_busy_def)
qed

lemma reachable_ticks_busy:
  assumes "reachable X w"
  shows "ticks_busy c w"
  using assms
proof (induction rule: reachable.induct)
  case (start l)
  show ?case by (simp add: ticks_busy_def start_world_def new_context_def new_ticker_def)
next
  case (step w w')
  have "tidy w w'" by (rule sys_step_kept [OF tidy_events.kept_events_axioms step.hyps(2)])
  with step.IH show ?case by (simp add: tidy_def)
qed

end
