(* ===== verification/References.thy ===== *)
theory References
  imports History
begin

text \<open>
  Who keeps a multiplexer alive. Every strong reference that outlives a call is held by a socket
  object or by the state of a \<open>udp_multiplexer\<close>; \<open>slack\<close> compares the use count with the number
  of these holders. No step of the program changes it: references that a call takes for its own
  duration are given up when it returns. So a multiplexer lives exactly as long as somebody
  holds it, and the service never lists a dead one.
\<close>

section \<open>Counting holders\<close>

definition owners :: "(nat \<Rightarrow> nat option) \<Rightarrow> nat \<Rightarrow> nat" where
  "owners f m = card {x. f x = Some m}"

lemma finite_owners: "finite (dom f) \<Longrightarrow> finite {x. f x = Some m}"
  by (rule finite_subset [of _ "dom f"]) auto

lemma owners_upd:
  assumes "finite (dom f)"
  shows "int (owners (f(a := v)) m) = int (owners f m) - of_bool (f a = Some m) + of_bool (v = Some m)"
proof -
  let ?A = "{x. x \<noteq> a \<and> f x = Some m}"
  have fin: "finite ?A" by (rule finite_subset [OF _ finite_owners [OF assms]]) auto
  have "{x. (f(a := v)) x = Some m} = (if v = Some m then insert a ?A else ?A)"
    and "{x. f x = Some m} = (if f a = Some m then insert a ?A else ?A)"
    by auto
  then show ?thesis using fin by (simp add: owners_def)
qed

lemma owners_pos: "finite (dom f) \<Longrightarrow> f a = Some m \<Longrightarrow> 0 < owners f m"
  using finite_owners [of f m] by (auto simp: owners_def card_gt_0_iff)

lemma owners_held: "0 < owners f m \<Longrightarrow> \<exists>a. f a = Some m"
  by (auto simp: owners_def card_gt_0_iff)

definition use_count :: "mux_impl \<Rightarrow> nat" where
  "use_count x = (case life x of shared_by n \<Rightarrow> n | _ \<Rightarrow> 0)"

abbreviation front_refs :: "'a udp_world_scheme \<Rightarrow> nat \<Rightarrow> nat option" where
  "front_refs w \<equiv> \<lambda>fr. multiplexer (fronts w fr)"

abbreviation state_refs :: "'a udp_world_scheme \<Rightarrow> nat \<Rightarrow> nat option" where
  "state_refs w \<equiv> \<lambda>t. ms_impl (mstates w t)"

definition holders :: "nat \<Rightarrow> 'a udp_world_scheme \<Rightarrow> nat" where
  "holders m w = owners (front_refs w) m + owners (state_refs w) m"

definition slack :: "nat \<Rightarrow> 'a udp_world_scheme \<Rightarrow> int" where
  "slack m w = int (use_count (muxes w m)) - int (holders m w)"

definition listed_ok :: "'a udp_world_scheme \<Rightarrow> bool" where
  "listed_ok w \<longleftrightarrow>
     (\<forall>ep m. multiplexers w ep = Some m \<longrightarrow> alive (muxes w m) \<and> local_endpoint (muxes w m) = ep)"

definition refs_wf :: "'a udp_world_scheme \<Rightarrow> bool" where
  "refs_wf w \<longleftrightarrow> finite (dom (front_refs w)) \<and> finite (dom (state_refs w))
     \<and> (\<forall>m. life (muxes w m) \<noteq> shared_by 0) \<and> listed_ok w"

definition refs_ok :: "'a udp_world_scheme \<Rightarrow> bool" where
  "refs_ok w \<longleftrightarrow> refs_wf w \<and> (\<forall>m. 0 \<le> slack m w)"

definition balanced :: "'a udp_world_scheme \<Rightarrow> 'a udp_world_scheme \<Rightarrow> bool" where
  "balanced w w' \<longleftrightarrow> older w w' \<and> (refs_ok w \<longrightarrow> refs_wf w' \<and> (\<forall>m. slack m w' = slack m w))"

lemma balancedI:
  assumes "older w w'" and "refs_ok w \<Longrightarrow> refs_wf w'" and "\<And>m. refs_ok w \<Longrightarrow> slack m w' = slack m w"
  shows "balanced w w'"
  using assms by (simp add: balanced_def)

lemma balanced_ok: "balanced w w' \<Longrightarrow> refs_ok w \<Longrightarrow> refs_ok w' \<and> slack m w' = slack m w"
  by (simp add: balanced_def refs_ok_def)

lemma refs_okD: "refs_ok w \<Longrightarrow> refs_wf w"
  by (simp add: refs_ok_def)

lemma alive_count:
  assumes "refs_wf w"
  shows "alive (muxes w m) \<longleftrightarrow> 0 < use_count (muxes w m)"
proof -
  have "life (muxes w m) \<noteq> shared_by 0" using assms by (simp add: refs_wf_def)
  then show ?thesis by (cases "life (muxes w m)") (auto simp: alive_def use_count_def intro: gr0I)
qed

lemma slack_alive:
  assumes "0 \<le> slack m w" and "0 < slack m w \<or> 0 < holders m w"
  shows "alive (muxes w m)"
proof -
  have "0 < use_count (muxes w m)" using assms by (auto simp: slack_def)
  then show ?thesis by (simp add: use_count_def alive_def split: ownership.splits)
qed

lemma held_alive:
  assumes "refs_ok w"
  shows "multiplexer (fronts w fr) = Some m \<Longrightarrow> alive (muxes w m)"
    and "ms_impl (mstates w t) = Some m \<Longrightarrow> alive (muxes w m)"
  using assms owners_pos [of "front_refs w" fr m] owners_pos [of "state_refs w" t m]
  by (auto simp: refs_ok_def refs_wf_def holders_def intro!: slack_alive)

lemma shared_alive: "refs_ok w \<Longrightarrow> shared m w \<Longrightarrow> alive (muxes w m)"
  using held_alive(2) by (auto simp: shared_def)


section \<open>What the steps of a reference do to the balance\<close>

lemma slack_front:
  assumes "refs_wf w"
  shows "slack m (upd_front fr g w) = slack m w
    + of_bool (multiplexer (fronts w fr) = Some m) - of_bool (multiplexer (g (fronts w fr)) = Some m)"
proof -
  have "front_refs (upd_front fr g w) = (front_refs w)(fr := multiplexer (g (fronts w fr)))"
    by (auto simp: upd_front_def)
  moreover have "muxes (upd_front fr g w) = muxes w" "mstates (upd_front fr g w) = mstates w"
    by (simp_all add: upd_front_def)
  ultimately show ?thesis
    using assms owners_upd [of "front_refs w" fr "multiplexer (g (fronts w fr))" m]
    by (simp add: slack_def holders_def refs_wf_def del: of_bool_eq_iff)
qed

lemma slack_state:
  assumes "refs_wf w"
  shows "slack m (upd_mstate t g w) = slack m w
    + of_bool (ms_impl (mstates w t) = Some m) - of_bool (ms_impl (g (mstates w t)) = Some m)"
proof -
  have "state_refs (upd_mstate t g w) = (state_refs w)(t := ms_impl (g (mstates w t)))"
    by (auto simp: upd_mstate_def)
  moreover have "muxes (upd_mstate t g w) = muxes w" "fronts (upd_mstate t g w) = fronts w"
    by (simp_all add: upd_mstate_def)
  ultimately show ?thesis
    using assms owners_upd [of "state_refs w" t "ms_impl (g (mstates w t))" m]
    by (simp add: slack_def holders_def refs_wf_def)
qed

lemma slack_take: "alive (muxes w i) \<Longrightarrow> slack m (upd_mux i take_ref w) = slack m w + of_bool (m = i)"
  by (simp add: slack_def holders_def upd_mux_def use_count_def take_ref_def alive_def split: ownership.splits)

lemma slack_release:
  assumes "refs_wf w" and "alive (muxes w i)"
  shows "slack m (release_ref i w) = slack m w - of_bool (m = i)"
proof -
  obtain n where n: "life (muxes w i) = shared_by n" "n \<noteq> 0"
    using assms by (auto simp: alive_def refs_wf_def split: ownership.splits)
  have "holders m (release_ref i w) = holders m w"
    by (simp add: release_ref_def holders_def upd_mux_def)
  moreover have "muxes (release_ref i w) = (muxes w)(i := drop_ref (muxes w i))"
    by (simp add: release_ref_def upd_mux_def)
  ultimately show ?thesis using n by (auto simp: slack_def use_count_def drop_ref_def)
qed

lemma slack_create:
  "unused_mux i w \<Longrightarrow> slack m (mux_create i ep w) = slack m w + of_bool (m = i)"
  by (simp add: slack_def holders_def mux_create_def unused_mux_def use_count_def new_mux_def)

lemma slack_listed:
  "unused_mux i w \<Longrightarrow> slack m (listed_mux i ep w) = slack m w + of_bool (m = i)"
  using slack_create [of i w m ep] by (simp add: listed_mux_def slack_def holders_def)

lemma wf_front:
  assumes "refs_wf w"
  shows "refs_wf (upd_front fr g w)"
proof -
  have "dom (front_refs (upd_front fr g w)) \<subseteq> insert fr (dom (front_refs w))"
    by (auto simp: upd_front_def split: if_splits)
  with assms show ?thesis
    by (auto simp: refs_wf_def upd_front_def listed_ok_def intro: finite_subset)
qed

lemma wf_state:
  assumes "refs_wf w"
  shows "refs_wf (upd_mstate t g w)"
proof -
  have "dom (state_refs (upd_mstate t g w)) \<subseteq> insert t (dom (state_refs w))"
    by (auto simp: upd_mstate_def split: if_splits)
  with assms show ?thesis
    by (auto simp: refs_wf_def upd_mstate_def listed_ok_def intro: finite_subset)
qed

lemma wf_take: "refs_wf w \<Longrightarrow> refs_wf (upd_mux i take_ref w)"
  by (auto simp: refs_wf_def listed_ok_def upd_mux_def take_ref_def alive_def split: ownership.splits)

lemma wf_release: "refs_wf w \<Longrightarrow> refs_wf (release_ref i w)"
  by (auto simp: refs_wf_def listed_ok_def release_ref_def upd_mux_def drop_ref_def alive_def
      split: ownership.splits if_splits)

lemma unused_not_listed: "refs_wf w \<Longrightarrow> unused_mux i w \<Longrightarrow> multiplexers w ep \<noteq> Some i"
proof
  assume "refs_wf w" "unused_mux i w" "multiplexers w ep = Some i"
  then have "alive (muxes w i)" "life (muxes w i) = not_created"
    by (simp_all add: refs_wf_def listed_ok_def unused_mux_def)
  then show False by (simp add: alive_def)
qed

lemma wf_create: "refs_wf w \<Longrightarrow> unused_mux i w \<Longrightarrow> refs_wf (mux_create i ep w)"
  by (frule (1) unused_not_listed) (auto simp: refs_wf_def listed_ok_def mux_create_def new_mux_def)

lemma wf_listed:
  assumes "refs_wf w" and "unused_mux i w"
  shows "refs_wf (listed_mux i ep w)"
  using assms(1) unused_not_listed [OF assms]
  by (auto simp: refs_wf_def listed_ok_def listed_mux_def mux_create_def new_mux_def alive_def)

lemmas balance_wf = wf_front wf_state wf_take wf_release wf_create wf_listed

lemma holders_upd_mux [simp]:
  "fronts (upd_mux i g w) = fronts w" "mstates (upd_mux i g w) = mstates w"
  "fronts (listed_mux i ep w) = fronts w" "mstates (listed_mux i ep w) = mstates w"
  "mstates (mux_create i ep w) = mstates w"
  "fronts (upd_front fr h w) x = (if x = fr then h (fronts w fr) else fronts w x)"
  "muxes (upd_front fr h w) = muxes w" "muxes (upd_mstate t k w) = muxes w"
  by (simp_all add: upd_mux_def listed_mux_def mux_create_def upd_front_def upd_mstate_def)

lemma alive_take: "alive (muxes w j) \<Longrightarrow> alive (muxes (upd_mux i take_ref w) j)"
  by (auto simp: upd_mux_def take_ref_def alive_def split: ownership.splits)

lemma alive_created: "unused_mux i w \<Longrightarrow> alive (muxes w j) \<Longrightarrow> alive (muxes (listed_mux i ep w) j)"
  by (auto simp: listed_mux_def mux_create_def alive_def unused_mux_def)

lemma assign_wf: "refs_wf w \<Longrightarrow> refs_wf (assign_front fr mi w)"
  by (simp add: assign_front_def Let_def balance_wf split: option.split)

lemma assign_slack:
  assumes "refs_wf w" and "\<And>j. multiplexer (fronts w fr) = Some j \<Longrightarrow> alive (muxes w j)"
  shows "slack m (assign_front fr mi w) = slack m w - of_bool (mi = Some m)"
proof (cases "multiplexer (fronts w fr)")
  case None
  with assms(1) show ?thesis by (simp add: assign_front_def Let_def slack_front)
next
  case (Some j)
  let ?w = "upd_front fr (\<lambda>f. f\<lparr>multiplexer := mi\<rparr>) w"
  have "alive (muxes ?w j)" using assms(2) [OF Some] by (simp add: upd_front_def)
  then have "slack m (release_ref j ?w) = slack m ?w - of_bool (m = j)"
    by (intro slack_release wf_front assms(1))
  with assms(1) Some show ?thesis by (simp add: assign_front_def Let_def slack_front)
qed


section \<open>Every step keeps the balance\<close>

lemma balanced_calm: "calm w w' \<Longrightarrow> balanced w w'"
  by (rule balancedI) (simp_all add: older_calm, simp_all add: calm_def refs_ok_def refs_wf_def listed_ok_def
      alive_def slack_def use_count_def holders_def)

interpretation balanced: calm_relation balanced
proof
  fix w w' w'' :: "'a udp_world_scheme"
  show "balanced w w" by (simp add: balanced_def older.kept_refl refs_ok_def)
  show "balanced w w' \<Longrightarrow> balanced w' w'' \<Longrightarrow> balanced w w''"
    by (auto simp: balanced_def refs_ok_def intro: older.kept_trans)
qed (rule balanced_calm)

lemma front_changed:
  assumes "older w (assign_front fr mi w1)" and "refs_ok w \<Longrightarrow> refs_wf w1"
    and "\<And>m. refs_ok w \<Longrightarrow> slack m w1 = slack m w + of_bool (mi = Some m)"
    and "\<And>j. refs_ok w \<Longrightarrow> multiplexer (fronts w1 fr) = Some j \<Longrightarrow> alive (muxes w1 j)"
  shows "balanced w (assign_front fr mi w1)"
  using assms by (intro balancedI) (simp_all add: assign_wf assign_slack)

lemma state_changed:
  assumes "older w (upd_mstate t (\<lambda>_. new_state mi) w1)" and "refs_ok w \<Longrightarrow> refs_wf w1"
    and "\<And>m. refs_ok w \<Longrightarrow> slack m w1 = slack m w + of_bool (mi = Some m)"
    and "ms_impl (mstates w1 t) = None"
  shows "balanced w (upd_mstate t (\<lambda>_. new_state mi) w1)"
  using assms by (intro balancedI) (simp_all add: wf_state slack_state new_state_def)

interpretation balanced_refs: kept_refs balanced
proof unfold_locales
  fix w :: "'a udp_world_scheme" and fr other t i ep
  show "balanced w (assign_front fr None w)"
    by (rule front_changed) (auto simp: refs_okD held_alive intro: older_free.clear_front_kept)
  show "balanced w (assign_front fr (Some i) (upd_mux i take_ref w))" if "shared i w"
    using that
    by (intro front_changed older_free.share_front_kept)
       (auto simp: refs_okD wf_take slack_take shared_alive intro: alive_take held_alive)
  show "balanced w (assign_front fr (Some i) (listed_mux i ep w))" if "unused_mux i w"
    using that
    by (intro front_changed older_free.create_front_kept)
       (auto simp: refs_okD wf_listed slack_listed intro: alive_created held_alive)
  show "balanced w (upd_front fr (\<lambda>_. fronts w other) (upd_front other (\<lambda>_. new_socket) w))"
    if "fronts w fr = new_socket"
    using that older_free.move_front_kept [OF that]
    by (intro balancedI) (auto simp: refs_okD wf_front slack_front new_socket_def)
  show "balanced w (assign_front fr (multiplexer (fronts w other)) (upd_front other (\<lambda>f. f\<lparr>multiplexer := None\<rparr>) w))"
    by (intro front_changed older_free.steal_front_kept)
       (auto simp: refs_okD wf_front slack_front held_alive split: if_splits)
  show "balanced w (upd_mstate t (\<lambda>_. new_state None) w)" if "ms_impl (mstates w t) = None"
    using that by (intro state_changed older_free.place_null_kept) (simp_all add: refs_okD)
  show "balanced w (upd_mstate t (\<lambda>_. new_state (Some i)) (upd_mux i take_ref w))"
    if "ms_impl (mstates w t) = None" "shared i w"
    using that by (intro state_changed older_free.place_shared_kept)
       (auto simp: refs_okD wf_take slack_take shared_alive)
  show "balanced w (upd_mstate t (\<lambda>_. new_state (Some i)) (listed_mux i ep w))"
    if "ms_impl (mstates w t) = None" "unused_mux i w"
    using that by (intro state_changed older_free.place_listed_kept)
       (auto simp: refs_okD wf_listed slack_listed)
  show "balanced w (upd_mstate t (\<lambda>_. new_state (Some i)) (mux_create i ep w))"
    if "ms_impl (mstates w t) = None" "unused_mux i w"
    using that by (intro state_changed older_free.place_new_kept)
       (auto simp: refs_okD wf_create slack_create)
  show "balanced w (release_ref i (upd_mstate t (\<lambda>x. x\<lparr>ms_impl := None\<rparr>) w))"
    if "ms_impl (mstates w t) = Some i"
    using that held_alive(2) [of w t i]
    by (intro balancedI older_free.drop_state_kept)
       (auto simp: refs_okD wf_release wf_state slack_release slack_state)
qed

lemma balanced_lock:
  assumes "alive (muxes w m)" and "balanced (upd_mux m take_ref w) w'"
  shows "balanced w (release_ref m w')"
proof (rule balancedI)
  show "older w (release_ref m w')"
    using assms(2) by (intro older_free.free_lock_kept) (simp add: balanced_def)
next
  assume "refs_ok w"
  then have "refs_ok (upd_mux m take_ref w)"
    using assms(1) by (auto simp: refs_ok_def wf_take slack_take)
  from balanced_ok [OF assms(2) this] have w': "refs_wf w'" by (simp add: refs_ok_def)
  then show "refs_wf (release_ref m w')" by (rule wf_release)
next
  fix k assume ok: "refs_ok w"
  then have ok1: "refs_ok (upd_mux m take_ref w)"
    using assms(1) by (auto simp: refs_ok_def wf_take slack_take)
  have w': "refs_ok w'" "\<And>k. slack k w' = slack k w + of_bool (k = m)"
    using balanced_ok [OF assms(2) ok1] slack_take [OF assms(1)] by simp_all
  then have "alive (muxes w' m)" using ok by (intro slack_alive) (simp_all add: refs_ok_def add_nonneg_pos)
  with w' show "slack k (release_ref m w') = slack k w" by (simp add: slack_release refs_okD)
qed

lemma balanced_kept_lib:
  fixes E :: "'a udp_world_scheme env"
  assumes "\<And>f ec args. keeps balanced (user E f ec args)" and "\<And>sl bs n dst ec. keeps balanced (slot E sl bs n dst ec)"
  shows "kept_lib balanced E"
proof (rule balanced.calm_kept_lib)
  have plain: "balanced w w'" if "older w w'" "muxes w' = muxes w" "multiplexers w' = multiplexers w"
    "front_refs w' = front_refs w" "mstates w' = mstates w" for w w' :: "'a udp_world_scheme"
    using that by (intro balancedI) (simp_all add: refs_ok_def refs_wf_def listed_ok_def slack_def holders_def)
  show "kept_core balanced E"
  proof (rule balanced.calm_kept_core)
    show "(\<And>x. same_ops x (f x)) \<Longrightarrow> balanced w (upd_sock s f w)" for f s and w :: "'a udp_world_scheme"
      by (rule plain, rule older_sock) (simp_all add: same_ops_def sock_older_def upd_sock_def)
    show "(\<And>x. multiplexer (g x) = multiplexer x) \<Longrightarrow> balanced w (upd_front fr g w)"
      for g fr and w :: "'a udp_world_scheme"
      by (rule plain) (auto simp: upd_front_def intro: older_free.any_front_kept [unfolded upd_front_def])
    show "balanced w w' \<Longrightarrow> life (muxes w m) = destroyed \<Longrightarrow> life (muxes w' m) = destroyed"
      for m and w w' :: "'a udp_world_scheme"
      by (simp add: balanced_def older_def)
  qed (fact assms balanced_lock)+
  show "balanced w (upd_sock s (\<lambda>_. new_socket_impl fr c) w)" if "unused_impl s w"
    for s fr c and w :: "'a udp_world_scheme"
    using that by (intro plain older_sock) (simp_all add: unused_impl_def sock_older_def upd_sock_def)
qed (fact assms balanced_refs.kept_refs_axioms)+

interpretation balanced_tie: kept_ops balanced "tie X n" for X :: "'l outside" and n
  by (rule tie_kept [OF balanced_kept_lib]) (auto intro: balanced_calm simp: calm_def)

lemma reachable_refs:
  assumes "reachable X w"
  shows "refs_ok w \<and> (\<forall>m. slack m w = 0)"
  using assms
proof (induction rule: reachable.induct)
  case (start l)
  show ?case
    by (simp add: refs_ok_def refs_wf_def listed_ok_def slack_def holders_def owners_def use_count_def
        start_world_def blank_mux_def new_socket_def new_state_def dom_def)
next
  case (step w w')
  have "balanced w w'"
    by (rule sys_step_kept [OF balanced.calm_kept_events [OF balanced_tie.kept_ops_axioms] step.hyps(2)])
  with step.IH show ?case using balanced_ok by metis
qed

end
