(* ===== verification/Streams.thy ===== *)
theory Streams
  imports Accounting
begin

text \<open>
  The two byte streams of a socket (\<open>src/src/socket_impl.cpp\<close>). Receiving: what libutp delivers
  through \<open>on_receive\<close> is what the completions of \<open>do_read\<close> report, in order, plus what is
  still queued; the queue refines a list of bytes (\<open>rx_fifo\<close>). Sending: what libutp accepts is
  a prefix of the user's buffers, a completed write reports their size, and a write that is
  not completed leaves exactly the rest for the next \<open>on_writable\<close>.

  What this needs of the code outside is stated for the scripts of libutp and for the UDP
  sockets: \<open>utp_write\<close> takes a prefix of the bytes it is offered and \<open>utp_read_drained\<close> may
  acknowledge; both invoke the callback that sends a datagram, as often as they like, and no
  other. The UDP socket does not fail hard meanwhile: a hard error closes every socket of the context
  (the theory Retention).
\<close>

section \<open>Calls into libutp that send datagrams\<close>

text \<open>
  A script that invokes nothing but the callback for sending, with addresses that convert to
  endpoints, and ends in a state and result that satisfy \<open>Q\<close>.
\<close>

primrec only_sends :: "host \<Rightarrow> nat \<Rightarrow> ('l \<Rightarrow> int \<Rightarrow> bool) \<Rightarrow> 'l script \<Rightarrow> bool" where
  "only_sends h c Q (Return l r) = Q l r"
| "only_sends h c Q (Invoke l cb k) =
     (case cb of on_sendto c' bs addr \<Rightarrow>
        c' = c \<and> (\<exists>dst. to_endpoint h addr = Inr dst) \<and> (\<forall>r. only_sends h c Q (k r l))
      | _ \<Rightarrow> False)"

text \<open>
  \<open>taken l\<close> is what the libutp socket \<open>us\<close> has accepted in the state \<open>l\<close> of libutp. A write
  returns how many of the offered bytes it accepted, and these are appended.
\<close>

definition takes_prefix :: "('l \<Rightarrow> byte list) \<Rightarrow> 'l outside \<Rightarrow> nat \<Rightarrow> nat \<Rightarrow> bool" where
  "takes_prefix taken X c us \<longleftrightarrow> (\<forall>bs l. only_sends (host_abi (sockets X)) c
     (\<lambda>l' r. 0 \<le> r \<and> r \<le> int (length bs) \<and> taken l' = taken l @ take (nat r) bs)
     (api X (utp_write (Some us) bs) l))"

definition acks_only :: "'l outside \<Rightarrow> nat \<Rightarrow> nat \<Rightarrow> bool" where
  "acks_only X c us \<longleftrightarrow> (\<forall>l. only_sends (host_abi (sockets X)) c (\<lambda>l' r. True)
     (api X (utp_read_drained (Some us)) l))"

text \<open>Sending ends with success, or with one of the errors that the library ignores.\<close>

definition soft_sends :: "'l outside \<Rightarrow> nat \<Rightarrow> bool" where
  "soft_sends X c \<longleftrightarrow> (\<forall>bs dst w. snd (udp_send (sockets X) c bs dst w) \<in> {no_error, would_block, bad_descriptor})"

text \<open>Nobody observes the datagrams of the multiplexer, and one that is alive has an owner.\<close>

definition sendable :: "nat \<Rightarrow> 'a mux_world_scheme \<Rightarrow> bool" where
  "sendable c w \<longleftrightarrow> life (muxes w c) \<noteq> shared_by 0 \<and> connections (send_to_signal (muxes w c)) = []"

lemma lib_calls [simp]: "w\<lparr>lib := l, calls := cs\<rparr> = w\<lparr>calls := cs, lib := l\<rparr>"
  by (cases w) simp

lemma callback_sendto_soft:
  assumes "sendable c w" and "to_endpoint (host_abi E) addr = Inr dst"
    and "\<And>w. snd (udp_send E c bs dst w) \<in> {no_error, would_block, bad_descriptor}"
  shows "\<exists>cs. callback_sendto E c bs addr w = Inr (w\<lparr>calls := cs\<rparr>)"
proof (cases "life (muxes w c)")
  case (shared_by n)
  let ?w = "upd_mux c take_ref w"
  obtain sent ec where ec: "udp_send E c bs dst ?w = (sent, ec)" by fastforce
  then have "ec \<in> {no_error, would_block, bad_descriptor}" using assms(3) [of ?w] by simp
  moreover have "connections (send_to_signal (muxes (log_call x ?w) c)) = []" for x
    using assms(1) by (simp add: sendable_def upd_mux_def take_ref_def log_call_def)
  moreover have "alive (muxes w c)" using shared_by by (simp add: alive_def)
  moreover have "mux_drop E c (log_call x ?w) = Inr (log_call x w)" for x
    using shared_by assms(1)
    by (cases "muxes w c") (simp add: sendable_def mux_drop_def Let_def alive_def upd_mux_def take_ref_def
        drop_ref_def log_call_def fun_upd_idem)
  ultimately have "callback_sendto E c bs addr w = Inr (log_call (ImmediateSendTo c bs dst) w)"
    using assms(2) ec by (auto simp: callback_sendto_def with_lock_def mux_send_to_def emit_def)
  then show ?thesis by (auto simp: log_call_def)
qed (auto simp: callback_sendto_def with_lock_def alive_def intro: exI [of _ "calls w"])

lemma run_only_sends:
  assumes "only_sends (host_abi E) c Q p" and "sendable c w"
    and "\<And>bs dst w. snd (udp_send E c bs dst w) \<in> {no_error, would_block, bad_descriptor}"
  shows "\<exists>r cs l. run_script (run_callback E) p w = Inr (r, w\<lparr>calls := cs, lib := l\<rparr>) \<and> Q l r"
  using assms(1,2)
proof (induction p arbitrary: w)
  case (Return l r)
  then show ?case by (intro exI [of _ r] exI [of _ "calls w"] exI [of _ l]) simp
next
  case (Invoke l cb k)
  then obtain bs addr dst where cb: "cb = on_sendto c bs addr" "to_endpoint (host_abi E) addr = Inr dst"
    and k: "only_sends (host_abi E) c Q (k 0 l)"
    by (auto split: callback.splits)
  have "sendable c (w\<lparr>lib := l\<rparr>)" using Invoke.prems(2) by (simp add: sendable_def)
  from callback_sendto_soft [OF this cb(2) assms(3)] obtain cs where
    "callback_sendto E c bs addr (w\<lparr>lib := l\<rparr>) = Inr (w\<lparr>lib := l, calls := cs\<rparr>)" by blast
  then have cs: "run_callback E cb (w\<lparr>lib := l\<rparr>) = Inr (0, w\<lparr>calls := cs, lib := l\<rparr>)"
    by (simp add: cb(1))
  have "sendable c (w\<lparr>calls := cs, lib := l\<rparr>)" using Invoke.prems(2) by (simp add: sendable_def)
  from Invoke.IH [OF rangeI rangeI k this] show ?case using cs by simp
qed

lemma utp_write_prefix:
  assumes "takes_prefix taken X c us" and "soft_sends X c" and "sendable c w"
  obtains k cs l where "utp (tie X (Suc n)) (utp_write (Some us) bs) w = Inr (int k, w\<lparr>calls := cs, lib := l\<rparr>)"
    and "k \<le> length bs" and "taken l = taken (lib w) @ take k bs"
proof -
  have "only_sends (host_abi (tie X n)) c
     (\<lambda>l' r. 0 \<le> r \<and> r \<le> int (length bs) \<and> taken l' = taken (lib w) @ take (nat r) bs)
     (api X (utp_write (Some us) bs) (lib w))"
    using assms(1) by (simp add: takes_prefix_def)
  from run_only_sends [OF this assms(3)] assms(2) obtain r cs l where
    "run_script (run_callback (tie X n)) (api X (utp_write (Some us) bs) (lib w)) w = Inr (r, w\<lparr>calls := cs, lib := l\<rparr>)"
    "0 \<le> r" "r \<le> int (length bs)" "taken l = taken (lib w) @ take (nat r) bs"
    by (auto simp: soft_sends_def)
  then show thesis by (intro that [where k = "nat r"]) simp_all
qed

lemma read_drained_acks:
  assumes "acks_only X c us" and "soft_sends X c" and "sendable c w"
  obtains cs l where "utp_do (tie X (Suc n)) (utp_read_drained (Some us)) w = Inr (w\<lparr>calls := cs, lib := l\<rparr>)"
proof -
  have "only_sends (host_abi (tie X n)) c (\<lambda>l' r. True) (api X (utp_read_drained (Some us)) (lib w))"
    using assms(1) by (simp add: acks_only_def)
  from run_only_sends [OF this assms(3)] assms(2) obtain r cs l where
    "run_script (run_callback (tie X n)) (api X (utp_read_drained (Some us)) (lib w)) w = Inr (r, w\<lparr>calls := cs, lib := l\<rparr>)"
    by (auto simp: soft_sends_def)
  then show thesis by (intro that) (simp add: utp_do_def)
qed


section \<open>Starting an operation\<close>

text \<open>
  What transfers leave alone: owners of the multiplexers and observers of their datagrams, the
  functions of the receive entries, the socket objects, where libutp's callbacks are routed.
\<close>

definition steady :: "'a udp_world_scheme \<Rightarrow> 'a udp_world_scheme \<Rightarrow> bool" where
  "steady w w' \<longleftrightarrow> fronts w' = fronts w \<and> userdata w' = userdata w
     \<and> (\<forall>e. re_handler (entries w' e) = re_handler (entries w e))
     \<and> (\<forall>m. life (muxes w' m) = life (muxes w m) \<and> send_to_signal (muxes w' m) = send_to_signal (muxes w m))"

interpretation steady: kept_relation steady
  by unfold_locales (simp_all add: steady_def)

lemma steady_sendable: "steady w w' \<Longrightarrow> sendable c w \<Longrightarrow> sendable c w'"
  by (simp add: steady_def sendable_def)

lemma steady_upd [simp]:
  "steady w (upd_sock s f w)" "steady w (set_handler s k h w)" "steady w (upd_ctx c g w)" "steady w (log_call x w)"
  by (simp_all add: steady_def upd_sock_def set_handler_def upd_ctx_def log_call_def)

lemma steady_mux_start: "keeps steady (mux_start_receiving m)"
  by (rule keepsI) (auto simp: mux_start_receiving_def steady_def upd_mux_def log_call_def and_then_Inr_iff)

lemma steady_register: "keeps steady (register_recv_handler m e)"
proof (rule keepsI)
  fix w w' :: "'a udp_world_scheme"
  let ?w = "upd_mux m (\<lambda>x. x\<lparr>recv_handlers := recv_handlers x @ [e]\<rparr>)
      (upd_entry e (\<lambda>r. r\<lparr>re_multiplexer := Some m\<rparr>) w)"
  assume "register_recv_handler m e w = Inr w'"
  then have "guarded (\<lambda>w. \<not> is_receiving (muxes w m)) (mux_start_receiving m) ?w = Inr w'"
    by (auto simp: register_recv_handler_def and_then_Inr_iff)
  then have "steady ?w w'" by (rule keepsD [OF steady.keeps_guarded [OF steady_mux_start]])
  then show "steady w w'" by (rule steady.kept_trans [rotated]) (simp add: steady_def upd_mux_def upd_entry_def)
qed

lemma steady_ctx_start: "keeps steady (ctx_start_receiving c)"
proof -
  have "steady w (upd_ctx c g (log_call x w))" for g x and w :: "'a udp_world_scheme"
    by (rule steady.kept_trans [OF steady_upd(4) steady_upd(3)])
  then have "keeps steady (ctx_ticker_start c :: 'a udp_world_scheme \<Rightarrow> _)"
    unfolding ctx_ticker_start_def by (intro steady.keeps_update) simp
  then show "keeps steady (ctx_start_receiving c :: 'a udp_world_scheme \<Rightarrow> _)"
    unfolding ctx_start_receiving_def
    by (intro steady.keeps_guarded steady.keeps_steps)
       (simp add: steady_register steady.keeps_guarded steady.keeps_assert_that)
qed

lemma steady_setup: "keeps steady (setup_op s k h)"
proof (rule keepsI)
  fix w w' :: "'a udp_world_scheme"
  let ?c = "sock_context (socks w s)"
  let ?w = "upd_ctx ?c (\<lambda>x. x\<lparr>outstanding_op_count := outstanding_op_count (ctxs w ?c) + 1\<rparr>) w"
  assume "setup_op s k h w = Inr w'"
  then obtain w1 h' where "increment_outstanding_ops ?c w = Inr w1" and w': "w' = set_handler s k h' w1"
    by (auto simp: setup_op_def and_then_Inr_iff)
  then have "steady ?w w1"
    by (auto simp: increment_outstanding_ops_def Let_def steady.kept_refl split: if_splits
        intro: keepsD [OF steady_ctx_start])
  with steady_upd(3) have "steady w w1" by (rule steady.kept_trans)
  then show "steady w w'" unfolding w' by (rule steady.kept_trans) simp
qed

lemma setup_lib:
  fixes w :: "'l utp_world"
  assumes "setup_op s k h w = Inr w'"
  shows "lib w' = lib w"
proof -
  have start: "ctx_start_receiving c v = Inr v' \<Longrightarrow> lib v' = lib v" for c and v v' :: "'l utp_world"
    by (auto simp: ctx_start_receiving_def ctx_ticker_start_def register_recv_handler_def mux_start_receiving_def
        guarded_def and_then_Inr_iff upd_ctx_def upd_mux_def upd_entry_def log_call_def split: if_splits)
  from assms show ?thesis
    by (auto simp: setup_op_def increment_outstanding_ops_def Let_def and_then_Inr_iff set_handler_def
        upd_sock_def upd_ctx_def split: if_splits dest: start)
qed

text \<open>
  A context starts to listen without fault when its receive handler is there, which its
  constructor stores; so an operation can be started whether or not others are in progress.
\<close>

lemma register_succeeds: "\<exists>w'. guarded (\<lambda>w. \<not> hook_linked e w) (register_recv_handler m e) w = Inr w'"
  by (cases "hook_linked e w"; cases "is_receiving (muxes w m)")
     (simp_all add: register_recv_handler_def mux_start_receiving_def assert_that_def guarded_def upd_mux_def
       upd_entry_def)

lemma ctx_start_succeeds:
  assumes "re_handler (entries w (ctx_entry c)) \<noteq> None"
  shows "\<exists>w'. ctx_start_receiving c w = Inr w'"
proof (cases "mux_locked c w")
  case True
  obtain v where v: "ctx_ticker_start c w = Inr v" by (simp add: ctx_ticker_start_def)
  obtain w' where "guarded (\<lambda>w. \<not> hook_linked (ctx_entry c) w) (register_recv_handler c (ctx_entry c)) v = Inr w'"
    using register_succeeds by blast
  with v True assms have "ctx_start_receiving c w = Inr w'"
    by (simp add: ctx_start_receiving_def guarded_def [of "mux_locked c"] assert_that_def
        del: guarded_True guarded_False)
  then show ?thesis by blast
qed (simp add: ctx_start_receiving_def)

lemma setup_succeeds:
  assumes "re_handler (entries w (ctx_entry (sock_context (socks w s)))) \<noteq> None"
  obtains w1 where "setup_op s k (Some i) w = Inr w1"
proof -
  let ?c = "sock_context (socks w s)"
  let ?w = "upd_ctx ?c (\<lambda>x. x\<lparr>outstanding_op_count := outstanding_op_count (ctxs w ?c) + 1\<rparr>) w"
  have "re_handler (entries ?w (ctx_entry ?c)) \<noteq> None" using assms by (simp add: upd_ctx_def)
  from ctx_start_succeeds [OF this] obtain v where "ctx_start_receiving ?c ?w = Inr v" by blast
  then have "\<exists>w1. increment_outstanding_ops ?c w = Inr w1"
    by (cases "outstanding_op_count (ctxs w ?c)") (simp_all add: increment_outstanding_ops_def Let_def)
  then show thesis using that by (auto simp: setup_op_def exec_after_def)
qed


section \<open>Receiving\<close>

text \<open>The bytes received and not yet read, and those the completions since \<open>w\<close> report.\<close>

definition unread :: "nat \<Rightarrow> 'a sock_world_scheme \<Rightarrow> byte list" where
  "unread s w = queue_content (rx_buffer_queue (socks w s))"

definition delivered :: "nat \<Rightarrow> 'a sock_world_scheme \<Rightarrow> 'a sock_world_scheme \<Rightarrow> byte list" where
  "delivered s w w' =
     concat (map (\<lambda>x. take (hd (work_args x)) (gather (mem w') (rx_buffers (socks w' s))))
       (drop (length (posted w)) (posted w')))"

lemma delivered_none: "posted w' = posted w \<Longrightarrow> delivered s w w' = []"
  by (simp add: delivered_def)

lemma delivered_one:
  "posted w' = posted w @ [Work f ec [n] k] \<Longrightarrow>
     delivered s w w' = take n (gather (mem w') (rx_buffers (socks w' s)))"
  by (simp add: delivered_def)

text \<open>What receiving and reading leave alone.\<close>

definition rx_frame :: "nat \<Rightarrow> 'a udp_world_scheme \<Rightarrow> 'a udp_world_scheme \<Rightarrow> bool" where
  "rx_frame s w w' \<longleftrightarrow> steady w w' \<and> closed (socks w' s) = closed (socks w s)
     \<and> got_eof (socks w' s) = got_eof (socks w s) \<and> sock_context (socks w' s) = sock_context (socks w s)
     \<and> utp_socket (socks w' s) = utp_socket (socks w s)"

text \<open>
  \<open>on_receive\<close> neither loses, duplicates nor reorders bytes: the bytes reported to the
  reader followed by those still queued are those that were queued followed by the new ones.
  Without a reader they are queued; with one, as much as fits its first buffer is copied there
  and the rest is queued; when nothing is left, libutp is told so and may acknowledge.
\<close>

lemma on_receive_step:
  fixes w :: "'l utp_world"
  assumes copy: "asio_buffer_copy (buffer_copy (sockets X))"
    and utp: "acks_only X c us" "soft_sends X c" "sendable c w" "utp_socket (socks w s) = Some us"
    and ok: "queue_ok (rx_buffer_queue (socks w s))"
    and reader: "handler_of s op_recv w \<noteq> None \<Longrightarrow> rx_buffer_queue (socks w s) = []
      \<and> rx_buffers (socks w s) \<noteq> [] \<and> disjoint_buffers (rx_buffers (socks w s))"
  shows "\<exists>w'. on_receive (tie X (Suc n)) s bs w = Inr w' \<and> queue_ok (rx_buffer_queue (socks w' s))
    \<and> handler_of s op_recv w' = None \<and> delivered s w w' @ unread s w' = unread s w @ bs \<and> rx_frame s w w'"
proof (cases "handler_of s op_recv w")
  case None
  then have "on_receive (tie X (Suc n)) s bs w
      = Inr (upd_sock s (\<lambda>x. x\<lparr>rx_buffer_queue := queue_push bs (rx_buffer_queue x)\<rparr>) w)"
    by (simp add: on_receive_def)
  then show ?thesis
    using ok None rx_fifo.push_ok [OF ok] rx_fifo.push_content [OF ok]
    by (auto simp: upd_sock_def delivered_def unread_def rx_frame_def steady_def)
next
  case (Some i)
  with reader obtain d ds where q: "rx_buffer_queue (socks w s) = []"
    and bufs: "rx_buffers (socks w s) = d # ds" and dis: "disjoint_buffers (d # ds)"
    by (cases "rx_buffers (socks w s)") auto
  obtain tot rest m where r: "receive_into (buffer_copy (sockets X)) (d # ds) bs 0 (mem w) = (tot, rest, m)"
    by (cases "receive_into (buffer_copy (sockets X)) (d # ds) bs 0 (mem w)")
  note first = asio_buffer_copy.receive_into_first [OF copy r]
  have bytes: "take tot (read_mem m d) = take tot bs"
    by (rule asio_buffer_copy.receive_into_bytes [OF copy r dis])
  define w1 where "w1 = (case rest of None \<Rightarrow> w\<lparr>mem := m\<rparr>
    | Some x \<Rightarrow> upd_sock s (\<lambda>y. y\<lparr>rx_buffer_queue := queue_push x (rx_buffer_queue y)\<rparr>) (w\<lparr>mem := m\<rparr>))"
  have w1: "posted w1 = posted w" "mem w1 = m" "handlers (socks w1 s) = handlers (socks w s)"
    "rx_buffers (socks w1 s) = d # ds" "utp_socket (socks w1 s) = Some us"
    "rx_buffer_queue (socks w1 s) = (case rest of None \<Rightarrow> [] | Some x \<Rightarrow> queue_push x [])"
    "rx_frame s w w1"
    using q bufs utp(4) by (cases rest; simp add: w1_def upd_sock_def rx_frame_def steady_def)+
  obtain cs l where drained: "guarded (\<lambda>w. tot = length bs)
      (\<lambda>w. utp_do (tie X (Suc n)) (utp_read_drained (utp_socket (socks w s))) w) w1 = Inr (w1\<lparr>calls := cs, lib := l\<rparr>)"
  proof (cases "tot = length bs")
    case True
    have "sendable c w1" using w1(7) utp(3) by (auto simp: rx_frame_def intro: steady_sendable)
    with utp(1,2) obtain cs l where
      "utp_do (tie X (Suc n)) (utp_read_drained (Some us)) w1 = Inr (w1\<lparr>calls := cs, lib := l\<rparr>)"
      by (rule read_drained_acks)
    with True w1(5) show thesis by (intro that) (simp add: guarded_def)
  qed (auto intro!: that [where cs = "calls w1" and l = "lib w1"] simp: guarded_def)
  define w2 where "w2 = (set_handler s op_recv None (w1\<lparr>calls := cs, lib := l\<rparr>))
    \<lparr>posted := posted w1 @ [Work (func i) no_error [tot] (after i)]\<rparr>"
  have post: "post_op s op_recv no_error [tot] (w1\<lparr>calls := cs, lib := l\<rparr>) = Inr w2"
    using Some w1(3) by (simp add: post_op_def w2_def)
  have run: "on_receive (tie X (Suc n)) s bs w = Inr w2"
    using Some q bufs r drained post
    by (simp add: on_receive_def assert_that_def w1_def del: guarded_True guarded_False tie.simps)
  have w2: "posted w2 = posted w @ [Work (func i) no_error [tot] (after i)]" "mem w2 = m"
    "rx_buffers (socks w2 s) = d # ds" "rx_buffer_queue (socks w2 s) = rx_buffer_queue (socks w1 s)"
    "handler_of s op_recv w2 = None"
    using w1 by (simp_all add: w2_def set_handler_def upd_sock_def)
  have "delivered s w w2 = take tot bs"
    using delivered_one [OF w2(1), of s] w2(2,3) bytes first(1) by simp
  moreover have "unread s w2 = drop tot bs"
    using first(2) by (cases rest)
      (simp_all add: unread_def w2(4) w1(6) queue_push_def new_buf_def buf_view_def)
  moreover have "unread s w = []" using q by (simp add: unread_def)
  moreover have "queue_ok (rx_buffer_queue (socks w2 s))"
    by (cases rest) (simp_all add: w2(4) w1(6) queue_push_def new_buf_def)
  moreover have "rx_frame s w w2"
    using w1(7) by (simp add: rx_frame_def w2_def set_handler_def upd_sock_def steady_def)
  ultimately show ?thesis using run w2(5) by auto
qed

text \<open>
  \<open>do_read\<close> with received bytes waiting completes at once: it reports as many bytes as fit
  the buffers, they are the oldest unread bytes, and exactly they leave the queue.
\<close>

lemma do_read_step:
  fixes w w1 :: "'a udp_world_scheme"
  assumes copy: "asio_buffer_copy (buffer_copy E)"
    and start: "setup_op s op_recv (new_handler f) w = Inr w1"
    and idle: "handler_of s op_recv w = None" "is_open s w"
    and bufs: "buffer_size (rx_buffers (socks w s)) \<noteq> 0" "disjoint_buffers (rx_buffers (socks w s))"
    and queue: "rx_buffer_queue (socks w s) \<noteq> []" "queue_ok (rx_buffer_queue (socks w s))"
  shows "\<exists>w'. sock_do_read E s (new_handler f) w = Inr w' \<and> queue_ok (rx_buffer_queue (socks w' s))
    \<and> delivered s w w' @ unread s w' = unread s w
    \<and> length (delivered s w w') = min (buffer_size (rx_buffers (socks w s))) (length (unread s w))
    \<and> handler_of s op_recv w' = None \<and> rx_frame s w w'"
proof -
  let ?q = "rx_buffer_queue (socks w s)" and ?b = "rx_buffers (socks w s)"
  obtain i where i: "socks w1 = (socks w)(s := (socks w s)\<lparr>handlers := (handlers (socks w s))
       (op_recv := Some (i\<lparr>after := Some (decrement_of (sock_context (socks w s)))\<rparr>))\<rparr>)"
    "posted w1 = posted w" "mem w1 = mem w"
    using start by (elim setup_op_effect) (auto simp: rest_same_def)
  have st: "steady w w1" by (rule keepsD [OF steady_setup start])
  obtain n m where c: "buffer_copy E ?b (map buf_view ?q) (mem w) = (n, m)"
    by (cases "buffer_copy E ?b (map buf_view ?q) (mem w)")
  have n: "n = min (buffer_size ?b) (length (queue_content ?q))"
    using asio_buffer_copy.copy_count [OF copy, of ?b "map buf_view ?q" "mem w"] c
    by (simp add: queue_content_def)
  have bytes: "take n (gather m ?b) = take n (queue_content ?q)"
    using asio_buffer_copy.copy_bytes [OF copy bufs(2), of "map buf_view ?q" "mem w"] c
    by (simp add: queue_content_def)
  obtain q' where q': "consume n ?q = Inr q'" "queue_ok q'" "queue_content q' = drop n (queue_content ?q)"
    using rx_fifo.pop_ok [OF queue(2), of n] n by auto
  define w2 where "w2 = upd_sock s (\<lambda>x. x\<lparr>rx_buffer_queue := q'\<rparr>) (w1\<lparr>mem := m\<rparr>)"
  define w3 where "w3 = (set_handler s op_recv None w2)
    \<lparr>posted := posted w @ [Work (func i) no_error [n] (Some (decrement_of (sock_context (socks w s))))]\<rparr>"
  have post: "post_op s op_recv no_error [n] w2 = Inr w3"
    using i(1,2) by (simp add: post_op_def w2_def w3_def upd_sock_def)
  have run: "sock_do_read E s (new_handler f) w = Inr w3"
    using idle bufs(1) start queue(1) c q'(1) i post queue(2)
    by (simp add: sock_do_read_def assert_that_def w2_def const_buffers_ok)
  have w3: "posted w3 = posted w @ [Work (func i) no_error [n] (Some (decrement_of (sock_context (socks w s))))]"
    "mem w3 = m" "rx_buffers (socks w3 s) = ?b" "rx_buffer_queue (socks w3 s) = q'"
    using i(1) by (simp_all add: w3_def w2_def set_handler_def upd_sock_def)
  have "delivered s w w3 = take n (queue_content ?q)"
    using delivered_one [OF w3(1), of s] w3(2,3) bytes by simp
  moreover have "unread s w3 = drop n (queue_content ?q)" by (simp add: unread_def w3(4) q'(3))
  moreover have "handler_of s op_recv w3 = None" "rx_frame s w w3"
    using i st by (simp_all add: rx_frame_def w3_def w2_def set_handler_def upd_sock_def steady_def)
  ultimately show ?thesis
    using run n q'(2) w3(4) by (intro exI [of _ w3]) (simp add: unread_def)
qed


section \<open>Sending\<close>

text \<open>
  The state after \<open>k\<close> bytes were accepted, \<open>bufs\<close> being what is left of the buffers; libutp is
  in the state \<open>l\<close> and \<open>cs\<close> is the history of calls with the datagrams it sent.
\<close>

definition accepted ::
  "nat \<Rightarrow> nat \<Rightarrow> buffer list \<Rightarrow> ext_call list \<Rightarrow> 'l \<Rightarrow> 'l utp_world \<Rightarrow> 'l utp_world" where
  "accepted s k bufs cs l w =
     (upd_sock s (\<lambda>x. x\<lparr>bytes_sent := bytes_sent x + k, tx_buffers := bufs\<rparr>) w)\<lparr>calls := cs, lib := l\<rparr>"

lemma accepted_simps [simp]:
  "mem (accepted s k bufs cs l w) = mem w" "lib (accepted s k bufs cs l w) = l"
  "posted (accepted s k bufs cs l w) = posted w"
  "tx_buffers (socks (accepted s k bufs cs l w) s) = bufs"
  "bytes_sent (socks (accepted s k bufs cs l w) s) = bytes_sent (socks w s) + k"
  "handlers (socks (accepted s k bufs cs l w) s) = handlers (socks w s)"
  "utp_socket (socks (accepted s k bufs cs l w) s) = utp_socket (socks w s)"
  "sock_context (socks (accepted s k bufs cs l w) s) = sock_context (socks w s)"
  "steady w (accepted s k bufs cs l w)"
  by (simp_all add: accepted_def upd_sock_def steady_def)

lemma accepted_accepted:
  "accepted s k' bufs' cs' l' (accepted s k bufs cs l w) = accepted s (k + k') bufs' cs' l' w"
  by (simp add: accepted_def upd_sock_def add.assoc)

lemma accepted_nothing: "tx_buffers (socks w s) = bufs \<Longrightarrow> accepted s 0 bufs (calls w) (lib w) w = w"
  by (auto simp: accepted_def upd_sock_def)

lemma buffer_plus_plus: "m + n \<le> len b \<Longrightarrow> buffer_plus (buffer_plus b m) n = buffer_plus b (m + n)"
  by (simp add: buffer_plus_def)

lemma buffer_plus_0 [simp]: "buffer_plus b 0 = b"
  by (simp add: buffer_plus_def)

lemma wrote_accepted:
  "wrote s i b n (w\<lparr>calls := cs, lib := l\<rparr>) = accepted s n ((tx_buffers (socks w s))[i := b]) cs l w"
  by (simp add: wrote_def accepted_def upd_sock_def)

text \<open>A socket of libutp's that takes bytes, on a multiplexer that can send.\<close>

definition writer :: "('l \<Rightarrow> byte list) \<Rightarrow> 'l outside \<Rightarrow> nat \<Rightarrow> nat \<Rightarrow> 'l utp_world \<Rightarrow> bool" where
  "writer taken X s us w \<longleftrightarrow> takes_prefix taken X (sock_context (socks w s)) us
     \<and> soft_sends X (sock_context (socks w s)) \<and> sendable (sock_context (socks w s)) w
     \<and> utp_socket (socks w s) = Some us"

lemma writer_accepted [simp]: "writer taken X s us (accepted s k bufs cs l w) = writer taken X s us w"
  by (simp add: writer_def) (simp add: sendable_def accepted_def upd_sock_def)

lemma write_buffer_accepted:
  assumes "writer taken X s us w" and "i < length (tx_buffers (socks w s))" and "tx_buffers (socks w s) ! i = b"
  shows "\<exists>k cs l. k \<le> len b \<and> taken l = taken (lib w) @ take k (read_mem (mem w) b)
    \<and> write_buffer (tie X (Suc n)) s i b w
      = Inr (k = len b, accepted s k ((tx_buffers (socks w s))[i := buffer_plus b k]) cs l w)"
  using assms
proof (induction "len b" arbitrary: b w rule: less_induct)
  case less
  let ?T = "tx_buffers (socks w s)" and ?E = "tie X (Suc n)"
  show ?case
  proof (cases "len b = 0")
    case True
    have "?T[i := b] = ?T" using less.prems by (simp add: list_update_id flip: less.prems(3))
    with True show ?thesis
      by (intro exI [of _ 0] exI [of _ "calls w"] exI [of _ "lib w"])
         (simp add: write_buffer.simps accepted_nothing)
  next
    case False
    obtain m cs l where m: "utp ?E (utp_write (Some us) (read_mem (mem w) b)) w = Inr (int m, w\<lparr>calls := cs, lib := l\<rparr>)"
      "m \<le> len b" "taken l = taken (lib w) @ take m (read_mem (mem w) b)"
      using less.prems(1) unfolding writer_def by (auto elim!: utp_write_prefix [where bs = "read_mem (mem w) b"])
    let ?b = "buffer_plus b m" and ?w = "accepted s m (?T[i := buffer_plus b m]) cs l w"
    have round: "write_buffer ?E s i b w =
        (if m < len b - m then Inr (False, ?w) else write_buffer ?E s i ?b ?w)"
      using False m(1) less.prems(1) by (subst write_buffer.simps)
        (simp add: wrote_accepted writer_def del: tie.simps)
    show ?thesis
    proof (cases "m < len b - m")
      case True
      with round m(2,3) show ?thesis by (intro exI [of _ m] exI [of _ cs] exI [of _ l]) (simp del: tie.simps)
    next
      case go: False
      with False have "len ?b < len b" by simp
      moreover have "writer taken X s us ?w" "i < length (tx_buffers (socks ?w s))" "tx_buffers (socks ?w s) ! i = ?b"
        using less.prems by simp_all
      ultimately obtain k cs' l' where k: "k \<le> len ?b"
        "taken l' = taken (lib ?w) @ take k (read_mem (mem ?w) ?b)"
        and r: "write_buffer ?E s i ?b ?w
          = Inr (k = len ?b, accepted s k ((tx_buffers (socks ?w s))[i := buffer_plus ?b k]) cs' l' ?w)"
        using less.hyps by blast
      have "buffer_plus ?b k = buffer_plus b (m + k)" using k(1) m(2) by (intro buffer_plus_plus) simp
      moreover have "taken l' = taken (lib w) @ take (m + k) (read_mem (mem w) b)"
        using k(2) m(3) by (simp add: read_mem_plus take_add)
      moreover have "(k = len ?b) = (m + k = len b)" using k(1) m(2) by auto
      ultimately show ?thesis
        using round go r k(1) m(2)
        by (intro exI [of _ "m + k"] exI [of _ cs'] exI [of _ l']) (simp add: accepted_accepted del: tie.simps)
    qed
  qed
qed

lemma write_buffers_accepted:
  assumes "writer taken X s us w" and "tx_buffers (socks w s) = pre @ bs" and "i = length pre"
  shows "\<exists>k rest cs l. k \<le> buffer_size bs \<and> length rest = length bs
    \<and> gather (mem w) rest = drop k (gather (mem w) bs) \<and> taken l = taken (lib w) @ take k (gather (mem w) bs)
    \<and> write_buffers (tie X (Suc n)) s i bs w = Inr (k = buffer_size bs, accepted s k (pre @ rest) cs l w)"
  using assms
proof (induction bs arbitrary: pre i w)
  case Nil
  then show ?case
    by (intro exI [of _ 0] exI [of _ "[]"] exI [of _ "calls w"] exI [of _ "lib w"])
       (simp add: accepted_nothing)
next
  case (Cons b bs)
  let ?E = "tie X (Suc n)"
  have "i < length (tx_buffers (socks w s))" "tx_buffers (socks w s) ! i = b"
    using Cons.prems by simp_all
  then obtain k cs l where k: "k \<le> len b"
    "taken l = taken (lib w) @ take k (read_mem (mem w) b)" and
    r: "write_buffer ?E s i b w
      = Inr (k = len b, accepted s k ((tx_buffers (socks w s))[i := buffer_plus b k]) cs l w)"
    using write_buffer_accepted [OF Cons.prems(1)] by blast
  have upd: "(tx_buffers (socks w s))[i := buffer_plus b k] = pre @ buffer_plus b k # bs"
    using Cons.prems by simp
  show ?case
  proof (cases "k = len b")
    case False
    with r upd k show ?thesis
      by (intro exI [of _ k] exI [of _ "buffer_plus b k # bs"] exI [of _ cs] exI [of _ l])
         (simp add: read_mem_plus del: tie.simps)
  next
    case True
    let ?w = "accepted s k (pre @ buffer_plus b k # bs) cs l w"
    have "tx_buffers (socks ?w s) = (pre @ [buffer_plus b k]) @ bs" "Suc i = length (pre @ [buffer_plus b k])"
      "writer taken X s us ?w"
      using Cons.prems(1,3) by simp_all
    then obtain k' rest cs' l' where k': "k' \<le> buffer_size bs"
      "length rest = length bs" "gather (mem ?w) rest = drop k' (gather (mem ?w) bs)"
      "taken l' = taken (lib ?w) @ take k' (gather (mem ?w) bs)"
      and r': "write_buffers ?E s (Suc i) bs ?w
        = Inr (k' = buffer_size bs, accepted s k' ((pre @ [buffer_plus b k]) @ rest) cs' l' ?w)"
      using Cons.IH by blast
    show ?thesis
      using r True upd r' k' k(2)
      by (intro exI [of _ "k + k'"] exI [of _ "buffer_plus b k # rest"] exI [of _ cs'] exI [of _ l'])
         (simp add: accepted_accepted read_mem_plus del: tie.simps)
  qed
qed

text \<open>
  A write hands the user's bytes to libutp in order and without gaps, however much of each
  call libutp accepts: what it accepted is a prefix of the data of the buffers. Either it
  accepted everything, and the write completes, once, with the number of bytes of the whole
  write (those accepted in earlier rounds included); or the handler stays, and the buffers
  left behind hold exactly the data not yet accepted.
\<close>

lemma write_tail_step:
  assumes w: "writer taken X s us w" and i: "handler_of s op_send w = Some i"
  defines "data \<equiv> gather (mem w) (tx_buffers (socks w s))"
  shows "\<exists>k rest cs l. k \<le> length data \<and> gather (mem w) rest = drop k data \<and> taken l = taken (lib w) @ take k data \<and>
    (k < length data \<and> write_tail (tie X (Suc n)) s w = Inr (accepted s k rest cs l w)
     \<or> k = length data \<and> write_tail (tie X (Suc n)) s w
         = Inr (upd_sock s (\<lambda>x. x\<lparr>bytes_sent := 0\<rparr>)
             ((set_handler s op_send None (accepted s k rest cs l w))
               \<lparr>posted := posted w @ [Work (func i) no_error [bytes_sent (socks w s) + k] (after i)]\<rparr>)))"
proof -
  let ?bs = "tx_buffers (socks w s)"
  obtain k rest cs l where k: "k \<le> buffer_size ?bs" "gather (mem w) rest = drop k data"
    "taken l = taken (lib w) @ take k data"
    and r: "write_buffers (tie X (Suc n)) s 0 ?bs w = Inr (k = buffer_size ?bs, accepted s k rest cs l w)"
    using write_buffers_accepted [OF w, of "[]" ?bs 0 n] by (simp add: data_def del: tie.simps) blast
  let ?w = "accepted s k rest cs l w"
  have "post_op s op_send no_error [bytes_sent (socks ?w s)] ?w
      = Inr ((set_handler s op_send None ?w)\<lparr>posted := posted w
          @ [Work (func i) no_error [bytes_sent (socks w s) + k] (after i)]\<rparr>)"
    using i by (simp add: post_op_def)
  then show ?thesis
    using k r by (intro exI [of _ k] exI [of _ rest] exI [of _ cs] exI [of _ l])
      (auto simp: write_tail_def data_def simp del: tie.simps)
qed

end
