(* ===== verification/Sessions.thy ===== *)
theory Sessions
  imports Streams
begin

text \<open>
  A connection over time: libutp delivers payloads and the user starts reads, in any order. The
  socket is a pipe: what the reads report, one after the other, is what arrived, in order.
\<close>

text \<open>
  libutp delivers through its read callback, in whatever state it is in then. The user starts a
  read only when none is in progress.
\<close>

datatype 'l rx_event = Arrive 'l "byte list" | Read "buffer list" user_fn

definition rx_step ::
  "('l utp_world) env \<Rightarrow> nat \<Rightarrow> nat \<Rightarrow> nat \<Rightarrow> 'l rx_event \<Rightarrow> 'l utp_world \<Rightarrow> ('l utp_world) result"
  where
  "rx_step E fr s us ev =
     (case ev of Arrive l bs \<Rightarrow> (\<lambda>w. callback_on_read E us bs (w\<lparr>lib := l\<rparr>))
      | Read bufs f \<Rightarrow> guarded (\<lambda>w. handler_of s op_recv w = None) (async_read_some E fr bufs f))"

text \<open>A run reports the bytes of each completed read, as they are in the user's memory then.\<close>

primrec rx_run ::
  "('l utp_world) env \<Rightarrow> nat \<Rightarrow> nat \<Rightarrow> nat \<Rightarrow> 'l rx_event list
     \<Rightarrow> 'l utp_world \<Rightarrow> (byte list \<times> 'l utp_world) result" where
  "rx_run E fr s us [] = (\<lambda>w. Inr ([], w))"
| "rx_run E fr s us (ev # evs) = (\<lambda>w.
     and_then (rx_step E fr s us ev w) (\<lambda>w'.
     and_then (rx_run E fr s us evs w') (\<lambda>(bs, w''). Inr (delivered s w w' @ bs, w''))))"

primrec arrival :: "'l rx_event \<Rightarrow> byte list" where
  "arrival (Arrive l bs) = bs"
| "arrival (Read bufs f) = []"

primrec wf_event :: "'l rx_event \<Rightarrow> bool" where
  "wf_event (Arrive l bs) = True"
| "wf_event (Read bufs f) = disjoint_buffers bufs"

text \<open>
  The object \<open>fr\<close> has the open socket \<open>s\<close>, connected through the libutp socket \<open>us\<close>, whose peer
  has not closed; its context has the receive handler that the constructor stores. While a read
  waits, nothing is queued.
\<close>

definition rx_ready :: "nat \<Rightarrow> nat \<Rightarrow> nat \<Rightarrow> 'l utp_world \<Rightarrow> bool" where
  "rx_ready fr s us w \<longleftrightarrow> impl (fronts w fr) = Some s \<and> \<not> closed (socks w s) \<and> \<not> got_eof (socks w s)
     \<and> utp_socket (socks w s) = Some us \<and> userdata w us = Some s
     \<and> re_handler (entries w (ctx_entry (sock_context (socks w s)))) \<noteq> None
     \<and> queue_ok (rx_buffer_queue (socks w s))
     \<and> (handler_of s op_recv w \<noteq> None \<longrightarrow> rx_buffer_queue (socks w s) = []
          \<and> rx_buffers (socks w s) \<noteq> [] \<and> disjoint_buffers (rx_buffers (socks w s)))"

text \<open>What the outside does for the reading socket, as described in the theory Streams.\<close>

definition rx_outside :: "'l outside \<Rightarrow> nat \<Rightarrow> nat \<Rightarrow> 'l utp_world \<Rightarrow> bool" where
  "rx_outside X s us w \<longleftrightarrow> asio_buffer_copy (buffer_copy (sockets X))
     \<and> acks_only X (sock_context (socks w s)) us \<and> soft_sends X (sock_context (socks w s))
     \<and> sendable (sock_context (socks w s)) w"

lemma rx_frame_kept:
  assumes "rx_frame s w w'"
  shows "rx_outside X s us w \<Longrightarrow> rx_outside X s us w'"
    and "rx_ready fr s us w \<Longrightarrow> queue_ok (rx_buffer_queue (socks w' s)) \<Longrightarrow> handler_of s op_recv w' = None
      \<Longrightarrow> rx_ready fr s us w'"
  using assms by (auto simp: rx_ready_def rx_frame_def steady_def rx_outside_def sendable_def)

lemma read_step:
  fixes w :: "'l utp_world"
  assumes copy: "asio_buffer_copy (buffer_copy E)" and ready: "rx_ready fr s us w"
    and idle: "handler_of s op_recv w = None" and dis: "disjoint_buffers bufs"
  shows "\<exists>w'. async_read_some E fr bufs f w = Inr w' \<and> rx_ready fr s us w' \<and> rx_frame s w w'
    \<and> delivered s w w' @ unread s w' = unread s w"
proof -
  define v where "v = upd_sock s (\<lambda>x. x\<lparr>rx_buffers := bufs\<rparr>) w"
  have start: "async_read_some E fr bufs f w = sock_do_read E s (new_handler f) v"
    using ready by (simp add: async_read_some_def store_rx_buffers_def socket_do_read_def rx_ready_def v_def
        upd_sock_def)
  have v: "handler_of s op_recv v = None" "is_open s v" "rx_buffers (socks v s) = bufs" "\<not> got_eof (socks v s)"
    "rx_buffer_queue (socks v s) = rx_buffer_queue (socks w s)" "posted v = posted w" "rx_ready fr s us v"
    using idle ready by (simp_all add: v_def upd_sock_def is_open_def rx_ready_def)
  have same: "delivered s w = delivered s v" "unread s v = unread s w" "rx_frame s w = rx_frame s v"
    using v by (simp_all add: delivered_def unread_def fun_eq_iff rx_frame_def steady_def v_def upd_sock_def)
  obtain v1 where v1: "setup_op s op_recv (new_handler f) v = Inr v1"
    unfolding new_handler_def by (rule setup_succeeds [of v s]) (use v(7) in \<open>simp_all add: rx_ready_def\<close>)
  consider "buffer_size bufs = 0" | "buffer_size bufs \<noteq> 0" "rx_buffer_queue (socks v s) = []"
    | "buffer_size bufs \<noteq> 0" "rx_buffer_queue (socks v s) \<noteq> []" by blast
  then show ?thesis
  proof cases
    case 1
    let ?w' = "v\<lparr>posted := posted v @ [Work f no_error [0] None]\<rparr>"
    have "sock_do_read E s (new_handler f) v = Inr ?w'"
      using v 1 by (simp add: sock_do_read_def assert_that_def new_handler_def)
    moreover have "rx_ready fr s us ?w'" using v(7) by (simp add: rx_ready_def)
    moreover have "delivered s v ?w' = []" "unread s ?w' = unread s v" by (simp_all add: delivered_def unread_def)
    moreover have "rx_frame s v ?w'" by (simp add: rx_frame_def steady_def)
    ultimately show ?thesis using start same by simp
  next
    case 2
    obtain i where i: "socks v1 = (socks v)(s := (socks v s)\<lparr>handlers := (handlers (socks v s))
        (op_recv := Some (i\<lparr>after := Some (decrement_of (sock_context (socks v s)))\<rparr>))\<rparr>)"
      "posted v1 = posted v"
      using v1 by (elim setup_op_effect) auto
    have frame: "rx_frame s v v1" using keepsD [OF steady_setup v1] i(1) by (simp add: rx_frame_def)
    moreover have "sock_do_read E s (new_handler f) v = Inr v1"
      using v v1 2 i(1) by (simp add: sock_do_read_def assert_that_def)
    moreover have "bufs \<noteq> []" using 2(1) by (auto simp: buffer_size_def)
    moreover have "rx_ready fr s us v1"
      using v(3,7) i(1) frame 2 dis \<open>bufs \<noteq> []\<close> by (auto simp: rx_ready_def rx_frame_def steady_def)
    ultimately show ?thesis using start same i by (simp add: delivered_none unread_def)
  next
    case 3
    have "queue_ok (rx_buffer_queue (socks v s))" using v(7) by (simp add: rx_ready_def)
    from do_read_step [OF copy v1 v(1,2) _ _ 3(2) this] 3(1) dis v(3)
    obtain w' where "sock_do_read E s (new_handler f) v = Inr w'" "queue_ok (rx_buffer_queue (socks w' s))"
      "delivered s v w' @ unread s w' = unread s v" "handler_of s op_recv w' = None" "rx_frame s v w'"
      by auto
    then show ?thesis using start same rx_frame_kept(2) [OF _ v(7)] by auto
  qed
qed

lemma rx_step_pipe:
  assumes outside: "rx_outside X s us w" and ready: "rx_ready fr s us w" and ev: "wf_event ev"
  shows "\<exists>w'. rx_step (tie X (Suc n)) fr s us ev w = Inr w' \<and> rx_outside X s us w' \<and> rx_ready fr s us w'
    \<and> delivered s w w' @ unread s w' = unread s w @ arrival ev"
proof (cases ev)
  case (Arrive l bs)
  let ?w = "w\<lparr>lib := l\<rparr>"
  have out: "rx_outside X s us ?w" and rdy: "rx_ready fr s us ?w"
    using outside ready by (simp_all add: rx_outside_def rx_ready_def sendable_def)
  then have "\<exists>w'. on_receive (tie X (Suc n)) s bs ?w = Inr w' \<and> queue_ok (rx_buffer_queue (socks w' s))
      \<and> handler_of s op_recv w' = None \<and> delivered s ?w w' @ unread s w' = unread s ?w @ bs \<and> rx_frame s ?w w'"
    by (intro on_receive_step) (auto simp: rx_outside_def rx_ready_def)
  moreover have "callback_on_read (tie X (Suc n)) us bs ?w = on_receive (tie X (Suc n)) s bs ?w"
    using rdy by (simp add: callback_on_read_def rx_ready_def)
  moreover have "delivered s ?w = delivered s w" "unread s ?w = unread s w"
    by (simp_all add: delivered_def unread_def fun_eq_iff)
  ultimately show ?thesis
    using rx_frame_kept(1) [OF _ out] rx_frame_kept(2) [OF _ rdy]
    by (auto simp: rx_step_def Arrive simp del: tie.simps)
next
  case (Read bufs f)
  have copy: "asio_buffer_copy (buffer_copy (tie X (Suc n)))" using outside by (simp add: rx_outside_def)
  show ?thesis
  proof (cases "handler_of s op_recv w")
    case None
    from read_step [OF copy ready None] Read ev None rx_frame_kept(1) [OF _ outside] show ?thesis
      by (fastforce simp: rx_step_def simp del: tie.simps)
  qed (use Read ready outside in \<open>simp add: rx_step_def delivered_none\<close>)
qed

lemma rx_run_pipe:
  assumes "rx_outside X s us w" and "rx_ready fr s us w" and "list_all wf_event evs"
  shows "\<exists>bs w'. rx_run (tie X (Suc n)) fr s us evs w = Inr (bs, w') \<and> rx_ready fr s us w'
    \<and> bs @ unread s w' = unread s w @ concat (map arrival evs)
    \<and> (handler_of s op_recv w' \<noteq> None \<longrightarrow> unread s w' = [])"
  using assms
proof (induction evs arbitrary: w)
  case Nil
  then show ?case by (simp add: rx_ready_def unread_def)
next
  case (Cons ev evs)
  from rx_step_pipe [OF Cons.prems(1,2), of ev] Cons.prems(3)
  obtain w1 where w1: "rx_step (tie X (Suc n)) fr s us ev w = Inr w1" "rx_outside X s us w1" "rx_ready fr s us w1"
    "delivered s w w1 @ unread s w1 = unread s w @ arrival ev" by auto
  from Cons.IH [OF w1(2,3)] Cons.prems(3)
  obtain bs w' where w': "rx_run (tie X (Suc n)) fr s us evs w1 = Inr (bs, w')" "rx_ready fr s us w'"
    "bs @ unread s w' = unread s w1 @ concat (map arrival evs)"
    "handler_of s op_recv w' \<noteq> None \<longrightarrow> unread s w' = []" by auto
  then have "(delivered s w w1 @ bs) @ unread s w' = unread s w @ concat (map arrival (ev # evs))"
    using w1(4) by (metis append.assoc concat.simps(2) list.simps(9))
  with w' w1(1) show ?case
    by (intro exI [of _ "delivered s w w1 @ bs"] exI [of _ w']) (simp del: tie.simps)
qed

text \<open>
  (C13) The socket is a first-in first-out pipe for as long as the connection lasts: for every
  sequence of payloads delivered by libutp and reads started by the user, in any order and
  with buffers of any sizes, no operation faults, and the bytes the completed reads report, one
  after the other, followed by those still queued, are the bytes that arrived, in order. A read
  waits only when nothing is queued. The hypotheses: the socket is open and connected and the
  peer has not closed (\<open>rx_ready\<close>); the buffers of each read do not overlap; and of the outside
  (\<open>rx_outside\<close>), \<open>buffer_copy\<close> is as documented, \<open>utp_read_drained\<close> invokes no callback but the
  one that sends datagrams, the UDP socket reports no hard error for them, and nobody observes them.
\<close>

theorem reads_are_a_pipe:
  assumes "rx_outside X s us w" and "rx_ready fr s us w" and "list_all wf_event evs"
  shows "\<exists>bs w'. rx_run (tie X (Suc n)) fr s us evs w = Inr (bs, w') \<and> rx_ready fr s us w'
    \<and> bs @ unread s w' = unread s w @ concat (map arrival evs)
    \<and> (handler_of s op_recv w' \<noteq> None \<longrightarrow> unread s w' = [])"
  using assms by (rule rx_run_pipe)

end
