(* ===== verification/Samples.thy ===== *)
theory Samples
  imports Programs
begin

text \<open>
  A concrete world outside the library, on which the theorems about runs are instantiated: UDP
  sockets that bind where they are asked to and send everything, a libutp that numbers its
  sockets, accepts every byte it is offered and invokes no callback, and a user whose
  completion functions do nothing.
\<close>

fun quiet_api :: "utp_call \<Rightarrow> nat \<Rightarrow> nat script" where
  "quiet_api (utp_create_socket c) l = Return (Suc l) (int l)"
| "quiet_api (utp_write us bs) l = Return l (int (length bs))"
| "quiet_api x l = Return l 0"

definition quiet_env :: "'w env" where
  "quiet_env =
     \<lparr>utp = (\<lambda>c w. Inl NestingExceeded), user = (\<lambda>f ec args w. Inr w), inline = (\<lambda>w. False),
      slot = (\<lambda>f bs n dst ec w. Inr w), udp_open = (\<lambda>ep w. no_error),
      udp_bind = (\<lambda>ep w. (ep, no_error)), udp_send = (\<lambda>m bs dst w. (length bs, no_error)),
      udp_available = (\<lambda>m w. 0), udp_cancel = (\<lambda>m w. no_error), udp_is_open = (\<lambda>m w. True), utp_init = (\<lambda>m w. True),
      getpeername = (\<lambda>us n w. (0, [])), buffer_copy = copy_buffers, host_abi = little_endian,
      reallocates = (<), emission_bound = 16\<rparr>"

definition quiet :: "nat outside" where
  "quiet = \<lparr>api = quiet_api, completion = (\<lambda>f ec args. Done),
     slot_prog = (\<lambda>f bs n dst ec. Done), sockets = quiet_env\<rparr>"

primrec calls_of :: "user_op list \<Rightarrow> 'w prog" where
  "calls_of [] = Done"
| "calls_of (x # xs) = Call x (\<lambda>_. calls_of xs)"

definition local_ep :: endpoint where
  "local_ep = \<lparr>ep_address = address_v4 [127, 0, 0, 1], ep_port = 6881\<rparr>"

text \<open>Socket 0 is bound and accepts.\<close>

definition accepting_prog :: "(nat utp_world) prog" where
  "accepting_prog = calls_of [Socket_bind 0 0 0 local_ep no_error, Async_accept 0 7]"

definition after_prog :: "(nat utp_world) prog \<Rightarrow> (nat utp_world) result" where
  "after_prog p = run_event (tie quiet 1) (Run_user p) (start_world 0)"

lemma after_prog_reachable: "after_prog p = Inr w \<Longrightarrow> reachable quiet w"
  unfolding after_prog_def
  by (rule reachable.step [OF reachable.start], rule sys_step.step [of "Run_user p" _ _ 1]) simp_all


text \<open>The definitions that a run of such a program unfolds to.\<close>

lemmas run_simps = after_prog_def accepting_prog_def socket_bind_def async_accept_def
  socket_do_accept_def sock_do_accept_def add_accepting_socket_def setup_op_def
  increment_outstanding_ops_def ctx_start_receiving_def exec_after_def set_handler_def upd_sock_def
  upd_ctx_def upd_front_def upd_mux_def upd_entry_def maybe_create_udp_multiplexer_def
  new_multiplexer_def on_unused_def unused_mux_def unused_impl_def mux_create_def
  set_multiplexer_def install_impl_def register_socket_def ctx_ticker_start_def ticker_start_def
  ticker_arms_def register_recv_handler_def mux_start_receiving_def hook_linked_def mux_locked_def
  alive_def new_mux_def new_context_def new_ticker_def new_socket_impl_def new_handler_def
  start_world_def blank_mux_def blank_impl_def new_socket_def quiet_def quiet_env_def
  assert_that_def guarded_def Let_def drop_value_def log_call_def local_ep_def no_endpoint_def
  new_state_def

lemma accepting_run:
  obtains w where "reachable quiet w" and "outstanding_op_count (ctxs w 0) = 1"
    and "alive (muxes w 0)" and "sock_context (socks w 0) = 0" and "posted w = []"
    and "handler_of 0 op_accept w = Some \<lparr>func = 7, after = Some (decrement_of 0)\<rparr>"
    and "multiplexer (fronts w 0) = Some 0" and "multiplexers w local_ep = Some 0"
proof -
  have "case after_prog accepting_prog of Inl e \<Rightarrow> False
    | Inr w \<Rightarrow> outstanding_op_count (ctxs w 0) = 1 \<and> alive (muxes w 0) \<and> sock_context (socks w 0) = 0
        \<and> posted w = [] \<and> handler_of 0 op_accept w = Some \<lparr>func = 7, after = Some (decrement_of 0)\<rparr>
        \<and> multiplexer (fronts w 0) = Some 0 \<and> multiplexers w local_ep = Some 0"
    by (simp add: run_simps)
  then show thesis
    by (cases "after_prog accepting_prog") (auto intro!: that after_prog_reachable)
qed

text \<open>Socket 0 is bound, accepts, and is closed while it accepts.\<close>

definition aborting_prog :: "(nat utp_world) prog" where
  "aborting_prog = calls_of [Socket_bind 0 0 0 local_ep no_error, Async_accept 0 7, Socket_close 0]"

lemmas close_simps = aborting_prog_def socket_close_def is_open_def sock_close_def close_with_error_def
  post_if_def post_op_def mux_drop_def drop_ref_def mux_destroy_def erase_multiplexer_def ctx_close_def
  utp_do_def ctx_stop_receiving_def ctx_ticker_stop_def ticker_stop_def entry_unlink_def

lemma aborting_run:
  obtains w where "reachable quiet w"
    and "posted w = [Work 7 operation_aborted [] (Some (decrement_of 0))]"
    and "\<forall>fr. multiplexer (fronts w fr) = None" and "\<forall>t. ms_impl (mstates w t) = None"
proof -
  have "case after_prog aborting_prog of Inl e \<Rightarrow> False
    | Inr w \<Rightarrow> posted w = [Work 7 operation_aborted [] (Some (decrement_of 0))]
        \<and> (\<forall>fr. multiplexer (fronts w fr) = None) \<and> (\<forall>t. ms_impl (mstates w t) = None)"
    by (simp add: run_simps close_simps)
  then show thesis
    by (cases "after_prog aborting_prog") (auto intro!: that after_prog_reachable)
qed

text \<open>
  A state in the middle of a run: socket object 0 is connected through libutp socket 5, on
  multiplexer 0, whose context has other operations outstanding; object 1 is not bound. The
  receive buffer of the socket is the four bytes at 100.
\<close>

definition sample_impl :: socket_impl where
  "sample_impl = (new_socket_impl 0 0)\<lparr>utp_socket := Some 5, rx_buffers := [\<lparr>base = 100, len = 4\<rparr>]\<rparr>"

definition pending_handler :: handler where
  "pending_handler = Some \<lparr>func = 7, after = Some (decrement_of 0)\<rparr>"

definition sample :: "nat utp_world" where
  "sample = (start_world 0)\<lparr>
     socks := (\<lambda>_. blank_impl)(0 := sample_impl),
     fronts := (\<lambda>_. new_socket)(0 := \<lparr>impl = Some 0, multiplexer = Some 0\<rparr>),
     muxes := (\<lambda>_. blank_mux)(0 := (new_mux local_ep)\<lparr>life := shared_by 2\<rparr>),
     multiplexers := (\<lambda>_. None)(local_ep := Some 0),
     ctxs := (\<lambda>_. new_context no_endpoint)(0 := (new_context local_ep)\<lparr>outstanding_op_count := 3\<rparr>)\<rparr>"

definition with_impl :: "(socket_impl \<Rightarrow> socket_impl) \<Rightarrow> nat utp_world" where
  "with_impl f = upd_sock 0 f sample"

definition reading :: "socket_impl \<Rightarrow> socket_impl" where
  "reading x = x\<lparr>handlers := (handlers x)(op_recv := pending_handler)\<rparr>"

lemmas sample_simps = with_impl_def reading_def sample_def sample_impl_def pending_handler_def upd_sock_def
  new_socket_impl_def start_world_def blank_impl_def new_context_def new_mux_def new_socket_def blank_mux_def

text \<open>
  A libutp that sends datagrams: a write invokes the send callback and takes one byte if nothing
  has been taken yet, and everything it is offered afterwards; draining sends an
  acknowledgement. Its state is the list of the bytes it has taken.
\<close>

definition peer_addr :: "cell list" where
  "peer_addr = cells (store16 little_endian (AF_INET little_endian)
     @ store16 little_endian (htons little_endian 6881) @ [192, 168, 0, 1] @ replicate 8 0)"

lemma peer_addr_converts: "\<exists>dst. to_endpoint little_endian peer_addr = Inr dst"
proof -
  have "case to_endpoint little_endian peer_addr of Inl _ \<Rightarrow> False | Inr _ \<Rightarrow> True" by code_simp
  then show ?thesis by (auto split: sum.splits)
qed

definition room :: "byte list \<Rightarrow> byte list \<Rightarrow> nat" where
  "room l bs = (if l = [] then min 1 (length bs) else length bs)"

fun sending_api :: "utp_call \<Rightarrow> byte list \<Rightarrow> (byte list) script" where
  "sending_api (utp_write us bs) l =
     Invoke l (on_sendto 0 (take (room l bs) bs) peer_addr) (\<lambda>r l. Return (l @ take (room l bs) bs) (int (room l bs)))"
| "sending_api (utp_read_drained us) l = Invoke l (on_sendto 0 [] peer_addr) (\<lambda>r l. Return l 0)"
| "sending_api x l = Return l 0"

definition sending :: "(byte list) outside" where
  "sending = \<lparr>api = sending_api, completion = (\<lambda>f ec args. Done), slot_prog = (\<lambda>f bs n dst ec. Done), sockets = quiet_env\<rparr>"

text \<open>Socket 0 is connected through libutp socket 5; nothing is in progress in its context.\<close>

definition connected_state :: "(byte list) utp_world" where
  "connected_state = (start_world [])\<lparr>
     socks := (\<lambda>_. blank_impl)(0 := sample_impl),
     fronts := (\<lambda>_. new_socket)(0 := \<lparr>impl = Some 0, multiplexer = Some 0\<rparr>),
     muxes := (\<lambda>_. blank_mux)(0 := new_mux local_ep),
     entries := (\<lambda>_. \<lparr>re_multiplexer = None, re_handler = None\<rparr>)
       (ctx_entry 0 := \<lparr>re_multiplexer = None, re_handler = Some (context_on_read 0)\<rparr>),
     userdata := (\<lambda>_. None)(5 := Some 0),
     ctxs := (\<lambda>_. new_context local_ep)\<rparr>"

end
