(* ===== verification/End_To_End.thy ===== *)
theory End_To_End
  imports Sessions Samples "HOL-Library.Sublist"
begin

text \<open>
  The sending side of a connection over time, and both sides together. The user starts writes and
  libutp reports that it can take more, in any order; how many bytes libutp accepts of each
  \<open>utp_write\<close> is up to libutp and may be different every time. \<open>taken\<close> reads from the state of
  libutp what it accepted.
\<close>

section \<open>Writes over time\<close>

text \<open>
  The user fills his memory before a write, and starts one only when none is in progress.
  When libutp reports that it can take more its state has changed, but not what it has accepted.
\<close>

datatype 'l tx_event =
    Write "nat \<Rightarrow> byte" "buffer list" user_fn     \<comment> \<open>memory, buffers, handler\<close>
  | Writable "'l \<Rightarrow> 'l"

definition tx_step ::
  "('l utp_world) env \<Rightarrow> nat \<Rightarrow> nat \<Rightarrow> nat \<Rightarrow> 'l tx_event \<Rightarrow> 'l utp_world \<Rightarrow> ('l utp_world) result" where
  "tx_step E fr s us ev =
     (case ev of
        Write mm bufs f \<Rightarrow> guarded (\<lambda>w. handler_of s op_send w = None)
          (\<lambda>w. async_write_some E fr bufs f (w\<lparr>mem := mm\<rparr>))
      | Writable g \<Rightarrow> (\<lambda>w. callback_on_state_change E us UTP_STATE_WRITABLE (w\<lparr>lib := g (lib w)\<rparr>)))"

primrec wf_tx :: "('l \<Rightarrow> byte list) \<Rightarrow> 'l tx_event \<Rightarrow> bool" where
  "wf_tx taken (Write mm bufs f) = True"
| "wf_tx taken (Writable g) = (\<forall>l. taken (g l) = taken l)"

text \<open>The bytes of the writes that an event starts.\<close>

definition submitted :: "nat \<Rightarrow> 'l tx_event \<Rightarrow> 'l utp_world \<Rightarrow> byte list" where
  "submitted s ev w =
     (case ev of Write mm bufs f \<Rightarrow> if handler_of s op_send w = None then gather mm bufs else []
      | Writable g \<Rightarrow> [])"

primrec tx_run ::
  "('l utp_world) env \<Rightarrow> nat \<Rightarrow> nat \<Rightarrow> nat \<Rightarrow> 'l tx_event list
     \<Rightarrow> 'l utp_world \<Rightarrow> (byte list \<times> 'l utp_world) result" where
  "tx_run E fr s us [] = (\<lambda>w. Inr ([], w))"
| "tx_run E fr s us (ev # evs) = (\<lambda>w.
     and_then (tx_step E fr s us ev w) (\<lambda>w'.
     and_then (tx_run E fr s us evs w') (\<lambda>(bs, w''). Inr (submitted s ev w @ bs, w''))))"

text \<open>The bytes of the write in progress that libutp has not accepted.\<close>

definition unsent :: "nat \<Rightarrow> 'l utp_world \<Rightarrow> byte list" where
  "unsent s w = (if handler_of s op_send w = None then [] else gather (mem w) (tx_buffers (socks w s)))"

text \<open>
  The object \<open>fr\<close> has the socket \<open>s\<close>, connected through the libutp socket \<open>us\<close>; its context has
  the receive handler that the constructor stores. Between writes nothing is counted as sent.
\<close>

definition tx_ready :: "nat \<Rightarrow> nat \<Rightarrow> nat \<Rightarrow> 'l utp_world \<Rightarrow> bool" where
  "tx_ready fr s us w \<longleftrightarrow> impl (fronts w fr) = Some s
     \<and> utp_socket (socks w s) = Some us \<and> userdata w us = Some s
     \<and> re_handler (entries w (ctx_entry (sock_context (socks w s)))) \<noteq> None
     \<and> (handler_of s op_send w = None \<longrightarrow> bytes_sent (socks w s) = 0)"

text \<open>What the outside does for the writing socket, as described in the theory Streams.\<close>

definition tx_outside :: "('l \<Rightarrow> byte list) \<Rightarrow> 'l outside \<Rightarrow> nat \<Rightarrow> nat \<Rightarrow> 'l utp_world \<Rightarrow> bool" where
  "tx_outside taken X s us w \<longleftrightarrow> takes_prefix taken X (sock_context (socks w s)) us
     \<and> soft_sends X (sock_context (socks w s)) \<and> sendable (sock_context (socks w s)) w"

text \<open>One event: what went to libutp, and what was reported.\<close>

definition tx_counts ::
  "('l \<Rightarrow> byte list) \<Rightarrow> nat \<Rightarrow> 'l utp_world \<Rightarrow> 'l utp_world \<Rightarrow> bool" where
  "tx_counts taken s w w' \<longleftrightarrow> (\<exists>ys out. posted w' = posted w @ ys \<and> taken (lib w') = taken (lib w) @ out
     \<and> sum_list (concat (map work_args ys)) + bytes_sent (socks w' s) = bytes_sent (socks w s) + length out)"

definition tx_piped ::
  "('l \<Rightarrow> byte list) \<Rightarrow> 'l outside \<Rightarrow> nat \<Rightarrow> nat \<Rightarrow> nat \<Rightarrow> byte list \<Rightarrow> 'l utp_world \<Rightarrow> 'l utp_world \<Rightarrow> bool" where
  "tx_piped taken X fr s us new w w' \<longleftrightarrow> tx_ready fr s us w' \<and> tx_outside taken X s us w'
     \<and> taken (lib w') @ unsent s w' = taken (lib w) @ unsent s w @ new \<and> tx_counts taken s w w'"

lemma tx_piped_refl: "tx_ready fr s us w \<Longrightarrow> tx_outside taken X s us w \<Longrightarrow> tx_piped taken X fr s us [] w w"
  by (simp add: tx_piped_def tx_counts_def)

lemma tx_counts_trans:
  assumes "tx_counts taken s w w'" and "tx_counts taken s w' w''"
  shows "tx_counts taken s w w''"
proof -
  from assms obtain ys out zs out' where
    "posted w' = posted w @ ys" "taken (lib w') = taken (lib w) @ out"
    "sum_list (concat (map work_args ys)) + bytes_sent (socks w' s) = bytes_sent (socks w s) + length out"
    "posted w'' = posted w' @ zs" "taken (lib w'') = taken (lib w') @ out'"
    "sum_list (concat (map work_args zs)) + bytes_sent (socks w'' s) = bytes_sent (socks w' s) + length out'"
    by (auto simp: tx_counts_def)
  then have "posted w'' = posted w @ (ys @ zs) \<and> taken (lib w'') = taken (lib w) @ (out @ out') \<and>
    sum_list (concat (map work_args (ys @ zs))) + bytes_sent (socks w'' s) = bytes_sent (socks w s) + length (out @ out')"
    by simp
  then show ?thesis unfolding tx_counts_def by blast
qed

lemma tx_piped_trans:
  assumes "tx_piped taken X fr s us a w w'" and "tx_piped taken X fr s us b w' w''"
  shows "tx_piped taken X fr s us (a @ b) w w''"
proof -
  have "taken (lib w'') @ unsent s w'' = taken (lib w) @ unsent s w @ a @ b"
    using assms by (metis (no_types, opaque_lifting) append.assoc tx_piped_def)
  moreover have "tx_counts taken s w w''" using assms tx_counts_trans unfolding tx_piped_def by blast
  ultimately show ?thesis using assms(2) unfolding tx_piped_def by simp
qed

text \<open>A write that starts, or is resumed: the handler is stored and the loops run.\<close>

lemma write_started:
  assumes ready: "tx_ready fr s us (set_handler s op_send h w)" and out: "tx_outside taken X s us w"
    and idle: "handler_of s op_send w = None"
  shows "\<exists>w'. sock_do_write (tie X (Suc n)) s (Some i) w = Inr w' \<and> tx_ready fr s us w' \<and> tx_outside taken X s us w'
    \<and> taken (lib w') @ unsent s w' = taken (lib w) @ gather (mem w) (tx_buffers (socks w s))
    \<and> tx_counts taken s w w' \<and> (handler_of s op_send w' = None \<longleftrightarrow> unsent s w' = [])"
proof -
  let ?data = "gather (mem w) (tx_buffers (socks w s))" and ?c = "sock_context (socks w s)"
  let ?i = "i\<lparr>after := Some (decrement_of ?c)\<rparr>"
  have rdy: "impl (fronts w fr) = Some s" "utp_socket (socks w s) = Some us" "userdata w us = Some s"
    "re_handler (entries w (ctx_entry ?c)) \<noteq> None"
    using ready by (simp_all add: tx_ready_def set_handler_def upd_sock_def)
  obtain v where v: "setup_op s op_send (Some i) w = Inr v" using setup_succeeds [OF rdy(4)] by blast
  obtain j where j: "Some i = Some j"
    "socks v = (socks w)(s := (socks w s)\<lparr>handlers := (handlers (socks w s))
       (op_send := Some (j\<lparr>after := Some (decrement_of ?c)\<rparr>))\<rparr>)" "posted v = posted w" "rest_same w v"
    using v by (rule setup_op_effect)
  have st: "steady w v" by (rule keepsD [OF steady_setup v])
  have lib: "lib v = lib w" using v by (rule setup_lib)
  have v': "handler_of s op_send v = Some ?i" "mem v = mem w" "tx_buffers (socks v s) = tx_buffers (socks w s)"
    "bytes_sent (socks v s) = bytes_sent (socks w s)" "utp_socket (socks v s) = Some us" "sock_context (socks v s) = ?c"
    using j rdy(2) by (simp_all add: rest_same_def)
  have eq: "sock_do_write (tie X (Suc n)) s (Some i) w = write_tail (tie X (Suc n)) s v"
    using do_write_eq [OF idle rdy(2)] v by simp
  have "writer taken X s us v"
    using out st v' by (auto simp: writer_def tx_outside_def intro: steady_sendable)
  from write_tail_step [OF this v'(1), of n] v'(2,3,4) lib j(3) obtain k rest cs l where
    k: "k \<le> length ?data" "gather (mem w) rest = drop k ?data" "taken l = taken (lib w) @ take k ?data" and
    cases: "k < length ?data \<and> write_tail (tie X (Suc n)) s v = Inr (accepted s k rest cs l v)
     \<or> k = length ?data \<and> write_tail (tie X (Suc n)) s v = Inr (upd_sock s (\<lambda>x. x\<lparr>bytes_sent := 0\<rparr>)
          ((set_handler s op_send None (accepted s k rest cs l v))
            \<lparr>posted := posted w @ [Work (func ?i) no_error [bytes_sent (socks w s) + k] (after ?i)]\<rparr>))"
    by auto
  have keep: "tx_ready fr s us w'" "tx_outside taken X s us w'"
    if "steady w w'" "utp_socket (socks w' s) = Some us" "sock_context (socks w' s) = ?c"
      "handler_of s op_send w' = None \<longrightarrow> bytes_sent (socks w' s) = 0" for w'
    using that rdy out by (auto simp: tx_ready_def tx_outside_def steady_def sendable_def)
  have st': "steady w (accepted s k rest cs l v)" using st by (rule steady.kept_trans) simp
  from cases show ?thesis
  proof
    let ?w' = "accepted s k rest cs l v"
    assume r: "k < length ?data \<and> write_tail (tie X (Suc n)) s v = Inr ?w'"
    have "tx_counts taken s w ?w'" using k j(3) v' lib by (simp add: tx_counts_def)
    moreover have "unsent s ?w' = drop k ?data" using k(2) v' by (simp add: unsent_def)
    ultimately show ?thesis
      using keep [OF st'] v' k r eq by (intro exI [of _ ?w']) (simp del: tie.simps length_gather)
  next
    let ?w' = "upd_sock s (\<lambda>x. x\<lparr>bytes_sent := 0\<rparr>)
          ((set_handler s op_send None (accepted s k rest cs l v))
            \<lparr>posted := posted w @ [Work (func ?i) no_error [bytes_sent (socks w s) + k] (after ?i)]\<rparr>)"
    assume r: "k = length ?data \<and> write_tail (tie X (Suc n)) s v = Inr ?w'"
    have "steady (accepted s k rest cs l v) ?w'" by (simp add: steady_def upd_sock_def set_handler_def)
    with st' have st'': "steady w ?w'" by (rule steady.kept_trans)
    have w': "handler_of s op_send ?w' = None" "bytes_sent (socks ?w' s) = 0" "lib ?w' = l"
      "utp_socket (socks ?w' s) = Some us" "sock_context (socks ?w' s) = ?c"
      "posted ?w' = posted w @ [Work (func ?i) no_error [bytes_sent (socks w s) + k] (after ?i)]"
      using v' by (simp_all add: upd_sock_def set_handler_def)
    have "tx_counts taken s w ?w'" unfolding tx_counts_def w' using k r by simp
    then show ?thesis
      using keep [OF st''] w' k r eq by (intro exI [of _ ?w']) (simp add: unsent_def del: tie.simps length_gather)
  qed
qed

lemma tx_step_pipe:
  assumes ready: "tx_ready fr s us w" and out: "tx_outside taken X s us w" and ev: "wf_tx taken ev"
  shows "\<exists>w'. tx_step (tie X (Suc n)) fr s us ev w = Inr w' \<and> tx_piped taken X fr s us (submitted s ev w) w w'"
proof (cases ev)
  case (Write mm bufs f)
  show ?thesis
  proof (cases "handler_of s op_send w")
    case None
    define v where "v = upd_sock s (\<lambda>x. x\<lparr>tx_buffers := bufs\<rparr>) (w\<lparr>mem := mm\<rparr>)"
    have v: "tx_ready fr s us (set_handler s op_send None v)" "tx_outside taken X s us v"
      "handler_of s op_send v = None" "mem v = mm" "tx_buffers (socks v s) = bufs" "lib v = lib w"
      "tx_counts taken s v = tx_counts taken s w"
      using ready out None
      by (simp_all add: v_def upd_sock_def set_handler_def tx_ready_def tx_outside_def sendable_def tx_counts_def fun_eq_iff)
    have "tx_step (tie X (Suc n)) fr s us ev w = sock_do_write (tie X (Suc n)) s (new_handler f) v"
      using ready None by (simp add: Write tx_step_def guarded_def async_write_some_def store_tx_buffers_def
          socket_do_write_def tx_ready_def v_def upd_sock_def del: tie.simps)
    with write_started [OF v(1-3), of n "\<lparr>func = f, after = None\<rparr>"] v(4-7) None show ?thesis
      unfolding new_handler_def tx_piped_def unsent_def [of s w] by (auto simp: submitted_def Write simp del: tie.simps)
  qed (use Write ready out in \<open>simp add: tx_step_def guarded_def submitted_def tx_piped_refl del: tie.simps\<close>)
next
  case (Writable g)
  let ?w = "w\<lparr>lib := g (lib w)\<rparr>"
  have step: "tx_step (tie X (Suc n)) fr s us ev w = on_writable (tie X (Suc n)) s ?w"
    using ready by (simp add: Writable tx_step_def callback_on_state_change_def tx_ready_def del: tie.simps)
  have same: "taken (lib ?w) = taken (lib w)" "unsent s ?w = unsent s w" "tx_counts taken s ?w = tx_counts taken s w"
    using ev by (simp_all add: Writable unsent_def tx_counts_def fun_eq_iff)
  have rdy: "tx_ready fr s us ?w" and out': "tx_outside taken X s us ?w"
    using ready out by (simp_all add: tx_ready_def tx_outside_def sendable_def)
  show ?thesis
  proof (cases "handler_of s op_send w")
    case None
    then have "on_writable (tie X (Suc n)) s ?w = Inr ?w" by (simp add: on_writable_def)
    with step same rdy out' tx_piped_refl [OF rdy out'] show ?thesis
      by (simp add: submitted_def Writable tx_piped_def del: tie.simps)
  next
    case (Some i)
    define v where "v = set_handler s op_send None ?w"
    have v: "tx_ready fr s us (set_handler s op_send (Some i) v)" "tx_outside taken X s us v"
      "handler_of s op_send v = None" "mem v = mem w" "tx_buffers (socks v s) = tx_buffers (socks w s)"
      "lib v = lib ?w" "tx_counts taken s v = tx_counts taken s ?w"
      using rdy out' Some
      by (simp_all add: v_def set_handler_def upd_sock_def tx_ready_def tx_outside_def sendable_def tx_counts_def fun_eq_iff)
    have "on_writable (tie X (Suc n)) s ?w = sock_do_write (tie X (Suc n)) s (Some i) v"
      using Some by (simp add: on_writable_def v_def)
    with write_started [OF v(1-3), of n i] v(4-7) same step Some show ?thesis
      unfolding tx_piped_def unsent_def [of s w] by (auto simp: submitted_def Writable simp del: tie.simps)
  qed
qed

lemma tx_run_pipe:
  assumes "tx_ready fr s us w" and "tx_outside taken X s us w" and "list_all (wf_tx taken) evs"
  shows "\<exists>bs w'. tx_run (tie X (Suc n)) fr s us evs w = Inr (bs, w') \<and> tx_piped taken X fr s us bs w w'"
  using assms
proof (induction evs arbitrary: w)
  case Nil
  then show ?case by (simp add: tx_piped_refl)
next
  case (Cons ev evs)
  obtain w1 where w1: "tx_step (tie X (Suc n)) fr s us ev w = Inr w1" "tx_piped taken X fr s us (submitted s ev w) w w1"
    using tx_step_pipe [OF Cons.prems(1,2)] Cons.prems(3) by fastforce
  then have "tx_ready fr s us w1" "tx_outside taken X s us w1" by (simp_all add: tx_piped_def)
  from Cons.IH [OF this] Cons.prems(3) obtain bs w' where
    "tx_run (tie X (Suc n)) fr s us evs w1 = Inr (bs, w')" "tx_piped taken X fr s us bs w1 w'" by auto
  with w1 show ?case using tx_piped_trans [OF w1(2)] by (fastforce simp del: tie.simps)
qed

text \<open>
  (C12) The sending side is a first-in first-out pipe too: for every sequence of writes started by
  the user and of notifications that libutp can take more, however little libutp accepts of
  each call, no operation faults, and the bytes libutp accepted, followed by those of the write
  in progress it has not accepted, are the bytes the user submitted, in order. The counts that
  the completed writes report, with what is counted of the write in progress, add up to the
  bytes accepted; between writes nothing is left unsent. The hypotheses: the socket is connected
  (\<open>tx_ready\<close>); what libutp has accepted does not change between its calls (\<open>wf_tx\<close>); and of the
  outside (\<open>tx_outside\<close>), \<open>utp_write\<close> accepts a prefix of what it is offered, returns its length and
  invokes no callback but the one that sends datagrams, the UDP socket reports no hard error
  for them, and nobody observes them.
\<close>

theorem writes_are_a_pipe:
  assumes "tx_ready fr s us w" and "tx_outside taken X s us w" and "list_all (wf_tx taken) evs"
  shows "\<exists>bs w'. tx_run (tie X (Suc n)) fr s us evs w = Inr (bs, w') \<and> tx_ready fr s us w'
    \<and> taken (lib w') @ unsent s w' = taken (lib w) @ unsent s w @ bs
    \<and> (\<exists>ys out. posted w' = posted w @ ys \<and> taken (lib w') = taken (lib w) @ out
         \<and> sum_list (concat (map work_args ys)) + bytes_sent (socks w' s) = bytes_sent (socks w s) + length out)
    \<and> (handler_of s op_send w' = None \<longrightarrow> unsent s w' = [] \<and> bytes_sent (socks w' s) = 0)"
proof -
  obtain bs w' where "tx_run (tie X (Suc n)) fr s us evs w = Inr (bs, w')" "tx_piped taken X fr s us bs w w'"
    using tx_run_pipe [OF assms] by blast
  moreover from this have "handler_of s op_send w' = None \<longrightarrow> unsent s w' = [] \<and> bytes_sent (socks w' s) = 0"
    by (simp add: tx_piped_def tx_ready_def unsent_def)
  ultimately show ?thesis
    by (intro exI [of _ bs] exI [of _ w']) (simp add: tx_piped_def tx_counts_def del: tie.simps)
qed


section \<open>From one end to the other\<close>

text \<open>
  (C10) End to end: one socket writes, another one reads. For every sequence of writes and
  notifications on the writing side no operation faults; and when libutp and the network
  deliver, of the bytes accepted from the writer, a prefix in order (what uTP promises), then for
  every sequence of arrivals and reads on the other side no operation faults, and the bytes the
  reads report and those still queued are a prefix of the bytes that the writing user submitted;
  when no write is in progress and everything accepted has arrived, they are exactly these
  bytes. The hypotheses: both sockets are connected (\<open>tx_ready\<close>, \<open>rx_ready\<close>), no write is in
  progress and nothing is queued at the start; the buffers of each read do not overlap and
  \<open>buffer_copy\<close> is as documented; what libutp has accepted does not change between its calls; inside
  \<open>utp_write\<close> and \<open>utp_read_drained\<close> libutp sends datagrams and invokes no other callback, a write
  accepts a prefix of what it is offered, the UDP sockets report no hard error and nobody
  observes the datagrams (\<open>tx_outside\<close>, \<open>rx_outside\<close>).
\<close>

theorem stream_end_to_end:
  assumes writing: "tx_ready fa a ua w" "tx_outside taken X a ua w" "list_all (wf_tx taken) writes"
    and fresh: "handler_of a op_send w = None" "taken (lib w) = []" "unread b v = []"
    and reading: "rx_outside Y b ub v" "rx_ready fb b ub v"
  shows "\<exists>bs w'. tx_run (tie X (Suc n)) fa a ua writes w = Inr (bs, w')
    \<and> (\<forall>arrivals. list_all wf_event arrivals \<longrightarrow> prefix (concat (map arrival arrivals)) (taken (lib w')) \<longrightarrow>
        (\<exists>got v'. rx_run (tie Y (Suc m)) fb b ub arrivals v = Inr (got, v')
          \<and> prefix (got @ unread b v') bs
          \<and> (handler_of a op_send w' = None \<and> concat (map arrival arrivals) = taken (lib w')
              \<longrightarrow> got @ unread b v' = bs)))"
proof -
  have "unsent a w = []" using fresh(1) by (simp add: unsent_def)
  then obtain bs w' where run: "tx_run (tie X (Suc n)) fa a ua writes w = Inr (bs, w')"
    and bs: "taken (lib w') @ unsent a w' = bs"
    using tx_run_pipe [OF writing] fresh(2) unfolding tx_piped_def by (metis append_Nil)
  have "\<exists>got v'. rx_run (tie Y (Suc m)) fb b ub arrivals v = Inr (got, v') \<and> prefix (got @ unread b v') bs
      \<and> (handler_of a op_send w' = None \<and> concat (map arrival arrivals) = taken (lib w') \<longrightarrow> got @ unread b v' = bs)"
    if wf: "list_all wf_event arrivals" and network: "prefix (concat (map arrival arrivals)) (taken (lib w'))" for arrivals
  proof -
    obtain got v' where r: "rx_run (tie Y (Suc m)) fb b ub arrivals v = Inr (got, v')"
      and got: "got @ unread b v' = concat (map arrival arrivals)"
      using rx_run_pipe [OF reading wf] fresh(3) by (metis append_Nil)
    have "prefix (got @ unread b v') bs" using network got bs by (metis prefix_prefix)
    moreover have "got @ unread b v' = bs" if "handler_of a op_send w' = None" "concat (map arrival arrivals) = taken (lib w')"
      using that got bs by (simp add: unsent_def)
    ultimately show ?thesis using r by (intro exI [of _ got] exI [of _ v']) simp
  qed
  with run show ?thesis by blast
qed


section \<open>Samples\<close>

text \<open>The bytes 1 to 5 in the user's memory; libutp takes one of them, and then the others.\<close>

definition five_bytes :: "nat \<Rightarrow> byte" where
  "five_bytes a = word_of_nat (a + 1)"

definition sample_writes :: "(byte list) tx_event list" where
  "sample_writes = [Write five_bytes [\<lparr>base = 0, len = 5\<rparr>] 8, Writable id]"

lemmas connected_simps = connected_state_def sendable_def empty_signal_def sample_simps

lemma sending_soft: "soft_sends sending c"
  by (simp add: soft_sends_def sending_def quiet_env_def)

lemma connected_reader:
  "rx_outside sending 0 5 connected_state" "rx_ready 0 0 5 connected_state" "unread 0 connected_state = []"
proof -
  have "asio_buffer_copy (buffer_copy (sockets sending))"
    using ref_copy.asio_buffer_copy_axioms by (simp add: sending_def quiet_env_def)
  moreover have "acks_only sending 0 us" for us
    using peer_addr_converts by (simp add: acks_only_def sending_def quiet_env_def)
  ultimately show "rx_outside sending 0 5 connected_state"
    using sending_soft by (simp add: rx_outside_def connected_simps)
  show "rx_ready 0 0 5 connected_state" "unread 0 connected_state = []"
    by (simp_all add: rx_ready_def unread_def connected_simps)
qed

lemma connected_writer:
  "tx_ready 0 0 5 connected_state" "tx_outside (\<lambda>l. l) sending 0 5 connected_state"
  "list_all (wf_tx (\<lambda>l. l)) sample_writes" "handler_of 0 op_send connected_state = None" "lib connected_state = []"
proof -
  have "takes_prefix (\<lambda>l. l) sending 0 us" for us
    using peer_addr_converts by (auto simp: takes_prefix_def sending_def quiet_env_def room_def)
  then show "tx_outside (\<lambda>l. l) sending 0 5 connected_state"
    using sending_soft by (simp add: tx_outside_def connected_simps)
qed (simp_all add: tx_ready_def connected_simps sample_writes_def)

lemma sample_writes_submitted:
  assumes "tx_run E 0 0 5 sample_writes connected_state = Inr (bs, w')"
  shows "bs = [1, 2, 3, 4, 5]"
proof -
  have "bs = gather five_bytes [\<lparr>base = 0, len = 5\<rparr>]"
    using assms connected_writer(4) by (auto simp: sample_writes_def and_then_Inr_iff submitted_def)
  also have "\<dots> = [1, 2, 3, 4, 5]" by (simp add: gather_def read_mem_def five_bytes_def upt_rec)
  finally show ?thesis .
qed

theorem writes_are_a_pipe_witness:
  "\<exists>w'. tx_run (tie sending 1) 0 0 5 sample_writes connected_state = Inr ([1, 2, 3, 4, 5], w')
    \<and> lib w' @ unsent 0 w' = [1, 2, 3, 4, 5]"
proof -
  obtain bs w' where r: "tx_run (tie sending 1) 0 0 5 sample_writes connected_state = Inr (bs, w')"
    and "lib w' @ unsent 0 w' = lib connected_state @ unsent 0 connected_state @ bs"
    using writes_are_a_pipe [OF connected_writer(1-3), of 0] by (auto simp del: tie.simps)
  with sample_writes_submitted [OF r] connected_writer(4,5) show ?thesis by (simp add: unsent_def del: tie.simps)
qed

text \<open>What was accepted arrives in one piece.\<close>

theorem stream_end_to_end_witness:
  "\<exists>w' got v'. tx_run (tie sending 1) 0 0 5 sample_writes connected_state = Inr ([1, 2, 3, 4, 5], w')
    \<and> rx_run (tie sending 1) 0 0 5 [Arrive [] (lib w'), Read [\<lparr>base = 20, len = 9\<rparr>] 9] connected_state = Inr (got, v')
    \<and> prefix (got @ unread 0 v') [1, 2, 3, 4, 5]"
proof -
  obtain bs w' where r: "tx_run (tie sending 1) 0 0 5 sample_writes connected_state = Inr (bs, w')"
    and all: "\<And>arrivals. list_all wf_event arrivals \<Longrightarrow> prefix (concat (map arrival arrivals)) (lib w') \<Longrightarrow>
      \<exists>got v'. rx_run (tie sending 1) 0 0 5 arrivals connected_state = Inr (got, v') \<and> prefix (got @ unread 0 v') bs"
    using stream_end_to_end [OF connected_writer(1-5) connected_reader(3,1,2), of 0 0]
    by (auto simp del: tie.simps) blast
  from all [of "[Arrive [] (lib w'), Read [\<lparr>base = 20, len = 9\<rparr>] 9]"] r sample_writes_submitted [OF r]
  show ?thesis by (auto simp del: tie.simps)
qed

end
