(* ===== verification/Lifecycle.thy ===== *)
theory Lifecycle
  imports Accounting
begin

text \<open>
  The life of a socket, from \<open>bind\<close> to \<open>close\<close>: what each operation does to the state on every
  path, in particular that a started operation is completed once, by whom and with which error.
\<close>

section \<open>Completion\<close>

lemma post_if_eq:
  "post_if s k ec args w = Inr (case handler_of s k w of None \<Rightarrow> w
     | Some i \<Rightarrow> (set_handler s k None w)\<lparr>posted := posted w @ [Work (func i) ec args (after i)]\<rparr>)"
  by (simp add: post_if_def guarded_def post_op_def split: option.split)

text \<open>
  A stored handler is completed at most once: completing it moves it out of the socket into
  exactly one posted call of the user's function, and completing it again is a null
  dereference, never a second call.
\<close>

lemma handler_completes_once:
  assumes "post_op s k ec args w = Inr w'"
  shows "handler_of s k w' = None
    \<and> (\<exists>i. handler_of s k w = Some i \<and> posted w' = posted w @ [Work (func i) ec args (after i)])
    \<and> post_op s k ec' args' w' = Inl (NullPointer ''handler::post'')"
  using assms
  by (cases "handler_of s k w") (auto simp: post_op_def set_handler_def upd_sock_def)

text \<open>The completions of \<open>close_with_error\<close>, in its order.\<close>

definition aborted_one :: "error_code \<Rightarrow> socket_impl \<Rightarrow> op_kind \<Rightarrow> nat list \<Rightarrow> work list" where
  "aborted_one ec x k args =
     (case handlers x k of None \<Rightarrow> [] | Some i \<Rightarrow> [Work (func i) ec args (after i)])"

definition aborted :: "error_code \<Rightarrow> socket_impl \<Rightarrow> work list" where
  "aborted ec x = aborted_one ec x op_accept [] @ aborted_one ec x op_connect []
     @ aborted_one ec x op_recv [0] @ aborted_one ec x op_send [0]"

definition closed_state :: "error_code \<Rightarrow> nat \<Rightarrow> 'a sock_world_scheme \<Rightarrow> 'a sock_world_scheme" where
  "closed_state ec s w =
     (upd_sock s (\<lambda>x. x\<lparr>closed := True, handlers := (\<lambda>_. None)\<rparr>) w)
       \<lparr>posted := posted w @ aborted ec (socks w s)\<rparr>"

lemma no_handlers:
  assumes "h op_accept = None" "h op_connect = None" "h op_recv = None" "h op_send = None"
  shows "h = (\<lambda>_. None)"
proof (rule ext)
  fix k show "h k = None" using assms by (cases k) auto
qed

lemma post_if_world:
  "post_if s k ec args w = Inr
     ((upd_sock s (\<lambda>x. x\<lparr>handlers := (handlers x)(k := None)\<rparr>) w)
        \<lparr>posted := posted w @ aborted_one ec (socks w s) k args\<rparr>)"
  by (auto simp: post_if_eq aborted_one_def set_handler_def upd_sock_def fun_upd_idem
      split: option.split)

lemma close_open_socket:
  assumes "\<not> closed (socks w s)"
  shows "close_with_error E ec s w =
    (case utp_socket (socks w s) of None \<Rightarrow> Inr (closed_state ec s w)
     | Some us \<Rightarrow> if got_eof (socks w s) then Inr (closed_state ec s w)
         else close_utp E s us (closed_state ec s w))"
proof -
  have h: "(handlers (socks w s))
      (op_accept := None, op_connect := None, op_recv := None, op_send := None) = (\<lambda>_. None)"
    by (rule no_handlers) simp_all
  show ?thesis
    using assms
    by (simp add: close_with_error_def post_if_world h closed_state_def aborted_def aborted_one_def
        upd_sock_def split: option.split)
qed

text \<open>
  (C9) \<open>close_with_error\<close> on a socket that is not closed completes every operation in progress
  (accept, connect, read, write, in this order, each once, with the given error and zero
  bytes), leaves the socket closed and without handlers, and only then closes the libutp
  socket, which it does exactly when there is one and the peer has not closed the connection.
\<close>

theorem close_completes_everything:
  assumes "\<not> closed (socks w s)"
  shows "close_with_error E ec s w =
    (case utp_socket (socks w s) of None \<Rightarrow> Inr (closed_state ec s w)
     | Some us \<Rightarrow> if got_eof (socks w s) then Inr (closed_state ec s w)
         else close_utp E s us (closed_state ec s w))"
  using assms by (rule close_open_socket)

text \<open>
  Closing is idempotent: closing a socket that has no libutp socket to close (or whose peer
  has closed) a second time, with whatever error, changes nothing and completes nothing.
\<close>

lemma close_twice:
  assumes "close_with_error E ec s w = Inr w'" and "utp_socket (socks w s) = None \<or> got_eof (socks w s)"
  shows "close_with_error E ec' s w' = Inr w'"
proof (cases "closed (socks w s)")
  case True
  with assms(1) have "w' = w"
    by (auto simp: close_with_error_def and_then_Inr_iff assert_that_def split: if_splits)
  with True assms(1) show ?thesis by (auto simp: close_with_error_def)
next
  case False
  with assms have "w' = closed_state ec s w"
    by (auto simp: close_open_socket split: option.splits)
  then show ?thesis by (simp add: close_with_error_def assert_that_def closed_state_def upd_sock_def)
qed


section \<open>A failing UDP socket\<close>

text \<open>
  When a socket is closed while \<open>do_write\<close> hands its bytes to libutp (libutp sends a datagram
  from inside \<open>utp_write\<close>, and sending fails), the handler is gone when \<open>do_write\<close> wants to
  complete it.
\<close>

lemma closed_while_writing:
  assumes "handler_of s op_send w = None" and "utp_socket (socks w s) = Some us"
    and "setup_op s op_send h w = Inr w1" and "tx_buffers (socks w1 s) = [b]" and "len b \<noteq> 0"
    and "utp E (utp_write (utp_socket (socks w1 s)) (read_mem (mem w1) b)) w1 = Inr (int (len b), w2)"
    and "handler_of s op_send w2 = None"
  shows "sock_do_write E s h w = Inl (NullPointer ''handler::post'')"
proof -
  have "write_buffer E s 0 x v = Inr (True, v)" if "len x = 0" for x v
    using that by (simp add: write_buffer.simps)
  then have "write_buffer E s 0 b w1 = Inr (True, wrote s 0 (buffer_plus b (len b)) (len b) w2)"
    using assms(5,6) by (subst write_buffer.simps) (simp add: buffer_plus_def)
  moreover have "handler_of s op_send (wrote s 0 (buffer_plus b (len b)) (len b) w2) = None"
    using assms(7) by (simp add: wrote_def upd_sock_def)
  ultimately show ?thesis
    using assms(1-4) by (simp add: do_write_eq write_tail_def post_op_def)
qed


section \<open>Accepting\<close>

text \<open>
  (C24) Connections are accepted in the order of the calls of \<open>async_accept\<close>. When sockets wait,
  the firewall lets a connection in; the first one in the queue (which has no libutp socket
  and an accept in progress) leaves the queue, gets the libutp socket, becomes the one libutp's
  callbacks are routed to and gives up its handler. In that state the handler's function is
  completed with success: by \<open>asio::dispatch\<close>, that is, it is run at once, followed by its hook,
  where the executor allows it, and otherwise posted as the last one of the queue.
\<close>

theorem accept_first_in_queue:
  assumes "accepting_sockets (ctxs w c) = s # ss" and "utp_socket (socks w s) = None"
    and "handler_of s op_accept w = Some i"
  shows "callback_on_firewall c w = 0 \<and> (\<exists>w'.
      accepting_sockets (ctxs w' c) = ss \<and> utp_socket (socks w' s) = Some us
    \<and> userdata w' us = Some s \<and> handler_of s op_accept w' = None \<and> posted w' = posted w
    \<and> (\<forall>t. t \<noteq> s \<longrightarrow> socks w' t = socks w t) \<and> muxes w' = muxes w \<and> fronts w' = fronts w
    \<and> callback_on_accept E c us w =
        (if inline E w' then run_work (user E) (run_after E) (Work (func i) no_error [] (after i)) w'
         else Inr (w'\<lparr>posted := posted w' @ [Work (func i) no_error [] (after i)]\<rparr>)))"
proof -
  let ?x = "Work (func i) no_error [] (after i)"
  let ?w = "set_handler s op_accept None (upd_sock s (\<lambda>y. y\<lparr>utp_socket := Some us\<rparr>)
    ((upd_ctx c (\<lambda>y. y\<lparr>accepting_sockets := ss\<rparr>) w)\<lparr>userdata := (userdata w)(us := Some s)\<rparr>))"
  have "callback_on_accept E c us w = (if inline E ?w then run_work (user E) (run_after E) ?x ?w
      else Inr (?w\<lparr>posted := posted ?w @ [?x]\<rparr>))"
    using assms
    by (simp add: callback_on_accept_def on_accept_def assert_that_def dispatch_op_def handler_dispatch_def
        impl_dispatch_def upd_ctx_def upd_sock_def set_handler_def)
  moreover have "accepting_sockets (ctxs ?w c) = ss" "utp_socket (socks ?w s) = Some us" "userdata ?w us = Some s"
    "handler_of s op_accept ?w = None" "posted ?w = posted w" "\<forall>t. t \<noteq> s \<longrightarrow> socks ?w t = socks w t"
    "muxes ?w = muxes w" "fronts ?w = fronts w"
    by (simp_all add: upd_ctx_def upd_sock_def set_handler_def)
  moreover have "callback_on_firewall c w = 0" using assms(1) by (simp add: callback_on_firewall_def)
  ultimately show ?thesis by blast
qed

text \<open>
  With no socket accepting, an incoming connection is refused by the firewall and changes
  nothing.
\<close>

lemma accept_queue_empty_refuses:
  assumes "accepting_sockets (ctxs w c) = []"
  shows "callback_on_firewall c w = 1 \<and> callback_on_accept E c us w = Inr w"
  using assms by (simp add: callback_on_firewall_def callback_on_accept_def)

text \<open>
  (C25) An accept that is aborted stays in the queue of its context: after \<open>async_accept\<close> on an
  unconnected socket and \<open>close\<close>, with no other socket accepting, the firewall lets the next
  incoming connection in and accepting it fails the assertion that the socket has an accept
  handler.
\<close>

theorem aborted_accept_stays_queued:
  fixes w :: "'a udp_world_scheme"
  assumes "sock_do_accept s h w = Inr w1" and "close_with_error E ec s w1 = Inr w2"
    and "accepting_sockets (ctxs w (sock_context (socks w s))) = []"
    and "\<not> closed (socks w s)" and "utp_socket (socks w s) = None"
  shows "callback_on_firewall (sock_context (socks w s)) w2 = 0
    \<and> callback_on_accept E (sock_context (socks w s)) us w2 = Inl (AssertFailed ''_accept_handler'')"
proof -
  let ?c = "sock_context (socks w s)"
  from assms(1) obtain w0 where w0: "w0 = upd_ctx ?c (\<lambda>x. x\<lparr>accepting_sockets := accepting_sockets x @ [s]\<rparr>) w"
    and su: "setup_op s op_accept h w0 = Inr w1"
    by (auto simp: sock_do_accept_def add_accepting_socket_def and_then_Inr_iff)
  have socks0: "socks w0 = socks w" by (simp add: w0 upd_ctx_def)
  have q: "accepting_sockets (ctxs w1 ?c) = [s]"
    using setup_op_accepting [OF su, of ?c] assms(3) by (simp add: w0 upd_ctx_def)
  have 1: "\<not> closed (socks w1 s)" "utp_socket (socks w1 s) = None"
    using su assms(4,5) by (auto elim!: setup_op_effect simp: socks0)
  then have "w2 = closed_state ec s w1"
    using assms(2) by (simp add: close_open_socket)
  with q 1 show ?thesis
    by (simp add: callback_on_firewall_def callback_on_accept_def closed_state_def on_accept_def
        assert_that_def upd_ctx_def upd_sock_def)
qed


section \<open>End of the stream\<close>

text \<open>
  The end of the stream is reported once to a reader that waits: \<open>on_eof\<close> marks the socket
  and completes a pending read with \<open>connection_reset\<close> and zero bytes; a second one from libutp
  fails the assertion.
\<close>

lemma eof_completes_pending_read:
  assumes "\<not> got_eof (socks w s)" and "on_eof s w = Inr w'"
  shows "got_eof (socks w' s) \<and> handler_of s op_recv w' = None
    \<and> posted w' = posted w @ aborted_one connection_reset (socks w s) op_recv [0]
    \<and> rx_buffer_queue (socks w' s) = rx_buffer_queue (socks w s)
    \<and> on_eof s w' = Inl (AssertFailed ''!_got_eof'')"
  using assms by (auto simp: on_eof_def assert_that_def post_if_world aborted_one_def upd_sock_def)

text \<open>
  After the end of the stream, a read on a socket whose queue has been read empty closes the
  socket: the reader gets \<open>connection_reset\<close> with zero bytes, the other operations in progress
  are aborted with it too, and no \<open>utp_close\<close> is sent.
\<close>

lemma read_after_eof_closes:
  fixes w :: "'a udp_world_scheme"
  assumes "setup_op s op_recv (new_handler f) w = Inr w1" and "got_eof (socks w s)"
    and "rx_buffer_queue (socks w s) = []" and "\<not> closed (socks w s)"
    and "handler_of s op_recv w = None" and "buffer_size (rx_buffers (socks w s)) \<noteq> 0"
  shows "sock_do_read E s (new_handler f) w = Inr (closed_state connection_reset s w1)
    \<and> posted (closed_state connection_reset s w1) = posted w
        @ aborted_one connection_reset (socks w s) op_accept []
        @ aborted_one connection_reset (socks w s) op_connect []
        @ [Work f connection_reset [0] (Some (decrement_of (sock_context (socks w s))))]
        @ aborted_one connection_reset (socks w s) op_send [0]"
proof -
  obtain i where i: "new_handler f = Some i"
    "socks w1 = (socks w)(s := (socks w s)\<lparr>handlers := (handlers (socks w s))
       (op_recv := Some (i\<lparr>after := Some (decrement_of (sock_context (socks w s)))\<rparr>))\<rparr>)"
    "posted w1 = posted w"
    by (rule setup_op_effect [OF assms(1)]) blast
  have "close_with_error E connection_reset s w1 = Inr (closed_state connection_reset s w1)"
    using assms(2,4) i(2) by (simp add: close_open_socket split: option.split)
  then show ?thesis
    using assms i by (auto simp: sock_do_read_def is_open_def assert_that_def closed_state_def aborted_def
        aborted_one_def new_handler_def)
qed

end
