(* ===== verification/Ordering.thy ===== *)
theory Ordering
  imports Frames Lifecycle Samples
begin

text \<open>
  The order of completions. No call of the library, no callback and no function of the user
  takes anything out of the executor's queue or changes it: functions are only added at its end
  (\<open>grows\<close>). So over a whole run the functions the executor ran, followed by those still queued,
  are all functions posted so far, in the order of posting.
\<close>

section \<open>The queue only grows\<close>

definition grows :: "'a udp_world_scheme \<Rightarrow> 'a udp_world_scheme \<Rightarrow> bool" where
  "grows w w' \<longleftrightarrow> (\<exists>ys. posted w' = posted w @ ys)
     \<and> (\<forall>m. life (muxes w m) = destroyed \<longrightarrow> life (muxes w' m) = destroyed)"

lemma grows_same: "posted w' = posted w \<Longrightarrow> (\<And>m. life (muxes w m) = destroyed \<Longrightarrow> life (muxes w' m) = destroyed)
    \<Longrightarrow> grows w w'"
  by (simp add: grows_def)

lemma grows_posted: "posted w' = posted w @ ys \<Longrightarrow> (\<And>m. life (muxes w' m) = life (muxes w m)) \<Longrightarrow> grows w w'"
  by (simp add: grows_def)

lemma grows_frame: "acct_frame w w' \<Longrightarrow> grows w w'"
  by (rule grows_same) (simp_all add: acct_frame_def)

lemma grows_rest: "rest_same w w' \<Longrightarrow> posted w' = posted w \<Longrightarrow> grows w w'"
  by (rule grows_same) (simp_all add: rest_same_def)

lemma grows_mux: "(\<And>x. life (f x) = life x) \<Longrightarrow> grows w (upd_mux m f w)"
  by (rule grows_same) (auto simp: upd_mux_def)

interpretation grows: kept_relation grows
  by unfold_locales (fastforce simp: grows_def)+

interpretation grows_free: kept_free grows
  by unfold_locales
     (rule grows_same;
      auto simp: upd_front_def upd_mux_def take_ref_def drop_ref_def upd_mstate_def mux_create_def unused_mux_def)+

lemma grows_decrement: "keeps grows (decrement_outstanding_ops E c)"
  by (rule keepsI) (rule grows_rest, erule decrement_effect(4), erule decrement_effect(2))

lemma grows_work:
  assumes "keeps grows (user E (work_fn x) (work_ec x) (work_args x))"
  shows "keeps grows (run_work (user E) (run_after E) x)"
proof -
  have "keeps grows (\<lambda>w. case work_after x of None \<Rightarrow> Inr w | Some k \<Rightarrow> run_after E k w)"
  proof (cases "work_after x")
    case (Some k)
    then show ?thesis by (cases k) (simp add: run_after_def grows_decrement)
  qed (simp add: grows.keeps_Inr)
  then show ?thesis unfolding run_work_def by (intro grows.keeps_and_then assms)
qed

lemma grows_dispatch:
  assumes "\<And>f ec args. keeps grows (user E f ec args)"
  shows "keeps grows (dispatch_op E s k ec args)"
proof (rule keepsI)
  fix w w' :: "'a udp_world_scheme"
  let ?w = "set_handler s k None w"
  assume a: "dispatch_op E s k ec args w = Inr w'"
  then obtain i where i: "handler_of s k w = Some i"
    by (cases "handler_of s k w") (simp_all add: dispatch_op_def handler_dispatch_def)
  have clear: "grows w ?w" by (rule grows_same) (simp_all add: set_handler_def upd_sock_def)
  show "grows w w'"
  proof (cases "inline E ?w")
    case True
    with a i have "run_work (user E) (run_after E) (Work (func i) ec args (after i)) ?w = Inr w'"
      by (simp add: dispatch_op_def handler_dispatch_def impl_dispatch_def)
    from keepsD [OF grows_work [OF assms] this] show ?thesis by (rule grows.kept_trans [OF clear])
  next
    case False
    with a i have "w' = ?w\<lparr>posted := posted ?w @ [Work (func i) ec args (after i)]\<rparr>"
      by (simp add: dispatch_op_def handler_dispatch_def impl_dispatch_def)
    then show ?thesis by (intro grows_posted) (auto simp: set_handler_def upd_sock_def)
  qed
qed

lemma grows_blocks:
  fixes E :: "'a udp_world_scheme env"
  shows "keeps grows (setup_op s k h :: 'a udp_world_scheme \<Rightarrow> _)"
    and "keeps grows (restart_send s :: 'a udp_world_scheme \<Rightarrow> _)"
    and "keeps grows (post_op s k ec args :: 'a udp_world_scheme \<Rightarrow> _)"
    and "keeps grows (handler_post h ec args :: 'a udp_world_scheme \<Rightarrow> _)"
proof -
  show "keeps grows (setup_op s k h :: 'a udp_world_scheme \<Rightarrow> _)"
    by (rule keepsI) (erule setup_op_effect, erule grows_rest, assumption)
  show "keeps grows (restart_send s :: 'a udp_world_scheme \<Rightarrow> _)"
    by (rule keepsI) (erule restart_send_effect, erule grows_rest, assumption)
  show "keeps grows (post_op s k ec args :: 'a udp_world_scheme \<Rightarrow> _)"
    by (rule keepsI) (erule post_op_effect, rule grows_posted, simp_all add: set_handler_def upd_sock_def)
  show "keeps grows (handler_post h ec args :: 'a udp_world_scheme \<Rightarrow> _)"
    by (rule keepsI, cases h) (auto intro!: grows_posted)
qed

lemma grows_begin_close: "keeps grows (begin_close s)"
proof (rule keepsI)
  fix w w' :: "'a udp_world_scheme"
  assume "begin_close s w = Inr w'"
  then obtain w1 where w1: "increment_outstanding_ops (sock_context (socks w s)) w = Inr w1"
    and w': "w' = upd_sock s (\<lambda>x. x\<lparr>decrement_close := True\<rparr>) w1"
    by (auto simp: begin_close_def and_then_Inr_iff)
  have "grows w w1" by (rule grows_rest [OF increment_effect(4,2) [OF w1]])
  then show "grows w w'" by (rule grows.kept_trans) (simp add: w' grows_rest upd_sock_def rest_same_def)
qed

lemma grows_end_close: "keeps grows (end_close E s)"
proof (rule keepsI)
  fix w w' :: "'a udp_world_scheme"
  assume "end_close E s w = Inr w'"
  then consider "w' = w" | w1 where "decrement_outstanding_ops E (sock_context (socks w s)) w = Inr w1"
      "w' = upd_sock s (\<lambda>x. x\<lparr>decrement_close := False\<rparr>) w1"
    by (auto simp: end_close_def guarded_def and_then_Inr_iff split: if_splits)
  then show "grows w w'"
  proof cases
    case 2
    from keepsD [OF grows_decrement 2(1)] show ?thesis
      by (rule grows.kept_trans) (simp add: 2(2) grows_rest upd_sock_def rest_same_def)
  qed (simp add: grows.kept_refl)
qed

lemma grows_kept_core:
  fixes E :: "'a udp_world_scheme env"
  assumes user: "\<And>f ec args. keeps grows (user E f ec args)"
    and slot: "\<And>sl bs n dst ec. keeps grows (slot E sl bs n dst ec)"
  shows "kept_core grows E"
proof
  show "life (muxes w' m) = destroyed" if "grows w w'" "life (muxes w m) = destroyed"
    for m and w w' :: "'a udp_world_scheme" using that by (simp add: grows_def)
  show "ctx_stop_receiving E c w = Inr w' \<Longrightarrow> grows w w'" for c w w'
    by (rule grows_frame) (rule keepsD [OF keeps_frame_ctx_stop])
  show "grows w (release_ref m w')" if "alive (muxes w m)" "grows (upd_mux m take_ref w) w'"
    for m and w w' :: "'a udp_world_scheme" using that(2) by (rule grows_free.free_lock_kept)
  show "grows w (upd_mux m (\<lambda>x. x\<lparr>recv_handlers := []\<rparr>) w)" for m and w :: "'a udp_world_scheme"
    by (rule grows_mux) simp
qed (rule slot keeps_start [OF grows.kept_relation_axioms grows_blocks(1)] grows_blocks(2-) grows_dispatch [OF user] grows_begin_close grows_end_close grows_free.any_front_kept
  | rule grows_same; simp add: upd_sock_def log_call_def upd_ctx_def)+

lemma grows_kept_lib:
  fixes E :: "'a udp_world_scheme env"
  assumes user: "\<And>f ec args. keeps grows (user E f ec args)"
    and slot: "\<And>sl bs n dst ec. keeps grows (slot E sl bs n dst ec)"
  shows "kept_lib grows E"
proof -
  have "kept_lib_axioms grows E"
  proof
    show "keeps grows (entry_unlink E (state_entry t))" for t
      by (rule keepsI, rule grows_frame) (rule keepsD [OF keeps_frame_unlink])
    show "keeps grows (register_recv_handler m (state_entry t) :: 'a udp_world_scheme \<Rightarrow> _)" for m t
      by (rule keepsI, rule grows_frame) (rule keepsD [OF keeps_frame_register])
    show "keeps grows (post_rx_handler t ec args :: 'a udp_world_scheme \<Rightarrow> _)"
      "keeps grows (post_tx_handler t ec args :: 'a udp_world_scheme \<Rightarrow> _)" for t ec args
      by (rule keepsI, auto simp: post_rx_handler_def post_tx_handler_def guarded_def upd_mstate_def grows_def
          split: if_splits)+
  qed (fact user | rule grows_mux, simp
    | rule grows_same; simp add: upd_sock_def upd_ctx_def upd_mstate_def upd_entry_def)+
  then show ?thesis
    using grows_kept_core [OF user slot] grows_free.kept_refs_axioms by (simp add: kept_lib_def)
qed

interpretation grows_tie: kept_ops grows "tie X n" for X :: "'l outside" and n
  by (rule tie_kept [OF grows_kept_lib]) (auto intro: grows_same)

interpretation grows_inputs: kept_inputs grows "tie X n" for X :: "'l outside" and n
proof unfold_locales
  show "keeps grows (register_recv_handler m e :: 'l utp_world \<Rightarrow> _)" for m e
    by (rule keepsI, rule grows_frame) (rule keepsD [OF keeps_frame_register])
qed (rule grows_mux, simp | rule grows_same; simp add: upd_ctx_def)+


section \<open>Runs and what the executor ran\<close>

text \<open>A run of the whole program with the functions the executor took from its queue, in order.\<close>

definition ran :: "'l event \<Rightarrow> 'l utp_world \<Rightarrow> work list" where
  "ran ev w = (case ev of Run_posted \<Rightarrow> take 1 (posted w) | _ \<Rightarrow> [])"

inductive sys_run :: "'l outside \<Rightarrow> 'l utp_world \<Rightarrow> work list \<Rightarrow> 'l utp_world \<Rightarrow> bool" for X where
  stop: "sys_run X w [] w"
| more: "possible ev w \<Longrightarrow> run_event (tie X n) ev w = Inr w' \<Longrightarrow> sys_run X w' xs w''
    \<Longrightarrow> sys_run X w (ran ev w @ xs) w''"

lemma sys_run_steps: "sys_run X w xs w' \<Longrightarrow> (sys_step X)\<^sup>*\<^sup>* w w'"
  by (induction rule: sys_run.induct) (auto intro: converse_rtranclp_into_rtranclp sys_step.step)

lemma steps_sys_run: "(sys_step X)\<^sup>*\<^sup>* w w' \<Longrightarrow> \<exists>xs. sys_run X w xs w'"
  by (induction rule: converse_rtranclp_induct) (auto intro: sys_run.intros elim!: sys_step.cases)

lemma event_order:
  assumes "possible ev w" and "run_event (tie X n) ev w = Inr w'"
  shows "\<exists>ys. ran ev w @ posted w' = posted w @ ys"
proof (cases "ev = Run_posted")
  case True
  with assms(1) obtain x xs where q: "posted w = x # xs" by (cases "posted w") auto
  with True assms(2) have "run_work (user (tie X n)) (run_after (tie X n)) x (w\<lparr>posted := xs\<rparr>) = Inr w'"
    by (simp add: run_posted_def)
  from keepsD [OF grows_work [OF grows_tie.user_kept] this] show ?thesis
    using True q by (auto simp: ran_def grows_def)
next
  case False
  from input_kept [OF grows_inputs.kept_inputs_axioms False assms(2)] have "\<exists>ys. posted w' = posted w @ ys"
    by (simp add: grows_def)
  moreover have "ran ev w = []" using False by (simp add: ran_def split: event.split)
  ultimately show ?thesis by simp
qed

lemma sys_run_order:
  assumes "sys_run X w xs w'"
  shows "\<exists>ys. xs @ posted w' = posted w @ ys"
  using assms
proof (induction rule: sys_run.induct)
  case (more ev w n w' xs w'')
  from event_order [OF more.hyps(1,2)] obtain us where "ran ev w @ posted w' = posted w @ us" by blast
  moreover from more.IH obtain vs where "xs @ posted w'' = posted w' @ vs" by blast
  ultimately have "(ran ev w @ xs) @ posted w'' = posted w @ us @ vs" by (metis append.assoc)
  then show ?case by blast
qed simp

text \<open>
  Closing a socket object adds the completions of all its operations in progress to the queue,
  whatever libutp and the user's functions do meanwhile.
\<close>

lemma close_aborts:
  assumes "close_with_error (tie X n) ec s w = Inr w'" and "\<not> closed (socks w s)"
  shows "\<exists>ys. posted w' = posted w @ aborted ec (socks w s) @ ys"
proof -
  let ?v = "closed_state ec s w"
  have "grows ?v w'"
    using assms keepsD [OF grows_tie.keeps_close_utp [of X n s]] grows.kept_refl
    by (auto simp: close_open_socket split: option.splits if_splits)
  then show ?thesis by (auto simp: grows_def closed_state_def)
qed

lemma socket_close_aborts:
  assumes "socket_close (tie X n) fr w = Inr w'" and "impl (fronts w fr) = Some s" and "\<not> closed (socks w s)"
  shows "\<exists>ys. posted w' = posted w @ aborted operation_aborted (socks w s) @ ys"
proof -
  from assms obtain v where v: "close_with_error (tie X n) operation_aborted s w = Inr v"
    and rest: "set_multiplexer (tie X n) fr None (upd_front fr (\<lambda>f. f\<lparr>impl := None\<rparr>) v) = Inr w'"
    by (auto simp: socket_close_def guarded_def is_open_def sock_close_def and_then_Inr_iff)
  have "grows v w'"
    by (rule grows.kept_trans [OF grows_free.any_front_kept grows_tie.set_multiplexer_kept [OF _ rest]])
       (rule grows_free.clear_front_kept)
  with close_aborts [OF v assms(3)] show ?thesis by (auto simp: grows_def)
qed

end
