(* ===== verification/Retention.thy ===== *)
theory Retention
  imports Ordering History "HOL-Library.Sublist"
begin

text \<open>
  No read and no write is lost. A read or write in progress stays in its socket until its
  function is posted (\<open>retained\<close>): every call of the library, every callback and every function
  of the user keeps this relation between the states before and after, so it holds over whole
  runs, and it shows what is left when the UDP socket fails in the middle of everything.
  Accepts and connects are not covered: an accept is dispatched and may run without being posted, and
  \<open>do_connect\<close> stores its handler without looking whether one is there.
\<close>

section \<open>The relation\<close>

definition transfers :: "op_kind \<Rightarrow> bool" where
  "transfers k \<longleftrightarrow> k = op_send \<or> k = op_recv"

text \<open>The handler is still stored, or its function is one of \<open>fs\<close>.\<close>

definition accounted :: "nat \<Rightarrow> op_kind \<Rightarrow> user_fn \<Rightarrow> 'a sock_world_scheme \<Rightarrow> user_fn set \<Rightarrow> bool" where
  "accounted s k f w fs \<longleftrightarrow> (\<exists>j. handler_of s k w = Some j \<and> func j = f) \<or> f \<in> fs"

definition retained :: "'a udp_world_scheme \<Rightarrow> 'a udp_world_scheme \<Rightarrow> bool" where
  "retained w w' \<longleftrightarrow> older w w'
     \<and> (\<forall>c. life (muxes w c) \<noteq> not_created \<longrightarrow> life (muxes w' c) \<noteq> not_created
          \<and> prefix (registered_sockets (ctxs w c)) (registered_sockets (ctxs w' c)))
     \<and> (\<exists>ys. posted w' = posted w @ ys \<and> (\<forall>s k i. allocated (socks w s) \<longrightarrow> transfers k
          \<longrightarrow> handler_of s k w = Some i \<longrightarrow> accounted s k (func i) w' (work_fn ` set ys)))"

lemma retained_same:
  assumes "older w w'" and "posted w' = posted w"
    and "\<And>c. life (muxes w c) \<noteq> not_created \<Longrightarrow> life (muxes w' c) \<noteq> not_created
      \<and> prefix (registered_sockets (ctxs w c)) (registered_sockets (ctxs w' c))"
    and "\<And>s k. allocated (socks w s) \<Longrightarrow> transfers k \<Longrightarrow> handler_of s k w \<noteq> None \<Longrightarrow>
      map_option func (handler_of s k w') = map_option func (handler_of s k w)"
  shows "retained w w'"
  using assms by (fastforce simp: retained_def accounted_def)

lemma retained_trans:
  assumes "retained w w'" and "retained w' w''"
  shows "retained w w''"
proof -
  from assms obtain ys zs where ys: "posted w' = posted w @ ys" "posted w'' = posted w' @ zs"
    and 1: "\<And>s k i. allocated (socks w s) \<Longrightarrow> transfers k \<Longrightarrow> handler_of s k w = Some i \<Longrightarrow>
      accounted s k (func i) w' (work_fn ` set ys)"
    and 2: "\<And>s k i. allocated (socks w' s) \<Longrightarrow> transfers k \<Longrightarrow> handler_of s k w' = Some i \<Longrightarrow>
      accounted s k (func i) w'' (work_fn ` set zs)"
    and old: "older w w'" "older w' w''"
    unfolding retained_def by blast
  have "accounted s k (func i) w'' (work_fn ` set (ys @ zs))"
    if "allocated (socks w s)" "transfers k" "handler_of s k w = Some i" for s k i
  proof -
    from old(1) that(1) have "allocated (socks w' s)" by (simp add: older_def sock_older_def)
    with 1 [OF that] 2 [OF _ that(2)] show ?thesis by (fastforce simp: accounted_def)
  qed
  moreover have "older w w''" using old by (rule older.kept_trans)
  moreover have "posted w'' = posted w @ (ys @ zs)" using ys by simp
  moreover have "prefix (registered_sockets (ctxs w c)) (registered_sockets (ctxs w'' c))"
    "life (muxes w'' c) \<noteq> not_created" if "life (muxes w c) \<noteq> not_created" for c
    using assms that unfolding retained_def by (blast intro: prefix_order.trans)+
  ultimately show ?thesis unfolding retained_def by blast
qed

interpretation retained: kept_relation retained
proof
  show "retained w w" for w :: "'a udp_world_scheme" by (rule retained_same) (simp_all add: older.kept_refl)
qed (rule retained_trans)

interpretation retained_free: kept_free retained
proof unfold_locales
  show "retained w (mux_create m ep w)" if "unused_mux m w" for m ep and w :: "'a udp_world_scheme"
    using that older_free.new_mux_kept [OF that]
    by (intro retained_same) (auto simp: mux_create_def unused_mux_def)
qed (rule retained_same, rule older_free.any_front_kept older_free.take_ref_kept older_free.drop_ref_kept
    older_free.service_kept older_free.new_state_kept older_free.ms_impl_kept;
    auto simp: upd_front_def upd_mux_def take_ref_def drop_ref_def upd_mstate_def split: ownership.split)+

text \<open>Steps that change no handler.\<close>

lemma retained_rest:
  assumes "rest_same w w'" and "posted w' = posted w" and "older w w'"
    and "\<And>s k. transfers k \<Longrightarrow> handler_of s k w \<noteq> None \<Longrightarrow>
      map_option func (handler_of s k w') = map_option func (handler_of s k w)"
  shows "retained w w'"
  using assms by (intro retained_same) (simp_all add: rest_same_def)

lemma retained_frame: "acct_frame w w' \<Longrightarrow> retained w w'"
  by (rule retained_same) (simp_all add: acct_frame_def older_calm calm_of_frame)

lemma retained_mux:
  assumes "\<And>x. life (f x) = life x" and "\<And>x. local_endpoint (f x) = local_endpoint x"
  shows "retained w (upd_mux m f w)"
  by (rule retained_frame) (rule frame_upd(1) [OF assms])

lemma retained_posted:
  assumes "posted w' = posted w @ ys" and "calm w w'" and "ctxs w' = ctxs w"
    and "\<And>s k i. transfers k \<Longrightarrow> handler_of s k w = Some i \<Longrightarrow> accounted s k (func i) w' (work_fn ` set ys)"
  shows "retained w w'"
  using assms older_calm [OF assms(2)] by (auto simp: retained_def calm_def)

lemma retained_decrement: "keeps retained (decrement_outstanding_ops E c)"
  by (rule keepsI, rule retained_rest, erule decrement_effect(4), erule decrement_effect(2),
      rule older_calm, erule keepsD [OF calm_decrement]) (simp add: decrement_effect(1))

lemma retained_start: "keeps retained (start_op s k (Some i))"
proof (rule keepsI)
  fix w w' :: "'a udp_world_scheme"
  assume a: "start_op s k (Some i) w = Inr w'"
  show "retained w w'"
  proof (cases "k = op_connect \<or> handler_of s k w = None")
    case True
    with a have *: "setup_op s k (Some i) w = Inr w'" by (simp add: start_op_def)
    then show ?thesis
    proof (rule setup_op_effect)
      fix j
      assume "socks w' = (socks w)(s := (socks w s)\<lparr>handlers := (handlers (socks w s))
          (k := Some (j\<lparr>after := Some (decrement_of (sock_context (socks w s)))\<rparr>))\<rparr>)"
        "posted w' = posted w" "rest_same w w'"
      then show ?thesis
        using True older_calm [OF keepsD [OF calm_setup *]]
        by (intro retained_rest) (auto simp: transfers_def)
    qed
  qed (use a in \<open>simp add: start_op_def retained.kept_refl\<close>)
qed

lemma retained_restart: "keeps retained (restart_send s)"
proof (rule keepsI)
  fix w w' :: "'a udp_world_scheme"
  assume a: "restart_send s w = Inr w'"
  then show "retained w w'"
  proof (rule restart_send_effect)
    fix i
    assume "handler_of s op_send w = Some i"
      "socks w' = (socks w)(s := (socks w s)\<lparr>handlers := (handlers (socks w s))
         (op_send := Some (i\<lparr>after := Some (decrement_of (sock_context (socks w s)))\<rparr>))\<rparr>)"
      "posted w' = posted w" "rest_same w w'"
    then show ?thesis
      using older_calm [OF keepsD [OF calm_restart a]] by (intro retained_rest) auto
  qed
qed

lemma retained_post: "keeps retained (post_op s k ec args)"
proof (rule keepsI)
  fix w w' :: "'a udp_world_scheme"
  assume a: "post_op s k ec args w = Inr w'"
  then obtain i where i: "handler_of s k w = Some i"
    and w': "w' = (set_handler s k None w)\<lparr>posted := posted w @ [Work (func i) ec args (after i)]\<rparr>"
    by (rule post_op_effect)
  have "accounted t l (func j) w' (work_fn ` set [Work (func i) ec args (after i)])"
    if "handler_of t l w = Some j" for t l j
    using that i by (auto simp: accounted_def w' set_handler_def upd_sock_def)
  then show "retained w w'"
    by (intro retained_posted [OF _ keepsD [OF calm_post a]]) (auto simp: w')
qed

lemma retained_handler_post: "keeps retained (handler_post h ec args)"
  by (rule keepsI, cases h) (auto intro!: retained_posted simp: calm_def accounted_def)

lemma retained_work:
  assumes "keeps retained (user E (work_fn x) (work_ec x) (work_args x))"
  shows "keeps retained (run_work (user E) (run_after E) x)"
proof -
  have "keeps retained (\<lambda>w. case work_after x of None \<Rightarrow> Inr w | Some k \<Rightarrow> run_after E k w)"
  proof (cases "work_after x")
    case (Some k)
    then show ?thesis by (cases k) (simp add: run_after_def retained_decrement)
  qed (simp add: retained.keeps_Inr)
  then show ?thesis unfolding run_work_def by (intro retained.keeps_and_then assms)
qed

text \<open>Only an accept is dispatched.\<close>

lemma retained_dispatch:
  assumes "\<And>f ec args. keeps retained (user E f ec args)"
  shows "keeps retained (dispatch_op E s op_accept ec args)"
proof (rule keepsI)
  fix w w' :: "'a udp_world_scheme"
  let ?w = "set_handler s op_accept None w"
  assume a: "dispatch_op E s op_accept ec args w = Inr w'"
  then obtain i where i: "handler_of s op_accept w = Some i"
    by (cases "handler_of s op_accept w") (simp_all add: dispatch_op_def handler_dispatch_def)
  have clear: "retained w ?w"
    by (rule retained_rest, simp_all add: older_calm calm_set_handler)
       (auto simp: transfers_def set_handler_def upd_sock_def)
  let ?x = "Work (func i) ec args (after i)"
  have "retained ?w w'"
  proof (cases "inline E ?w")
    case True
    with a i have "run_work (user E) (run_after E) ?x ?w = Inr w'"
      by (simp add: dispatch_op_def handler_dispatch_def impl_dispatch_def)
    then show ?thesis by (rule keepsD [OF retained_work [OF assms]])
  next
    case False
    with a i have "w' = ?w\<lparr>posted := posted ?w @ [?x]\<rparr>"
      by (simp add: dispatch_op_def handler_dispatch_def impl_dispatch_def)
    then show ?thesis by (intro retained_posted [of _ _ "[?x]"]) (auto simp: calm_def accounted_def)
  qed
  with clear show "retained w w'" by (rule retained_trans)
qed

lemma retained_mark: "retained w (upd_sock s (\<lambda>x. x\<lparr>decrement_close := b\<rparr>) w)"
  by (rule retained_rest, simp_all) (auto simp: upd_sock_def older_def sock_older_def)

lemma retained_begin_close: "keeps retained (begin_close s)"
proof (rule keepsI)
  fix w w' :: "'a udp_world_scheme"
  assume "begin_close s w = Inr w'"
  then obtain w1 where w1: "increment_outstanding_ops (sock_context (socks w s)) w = Inr w1"
    and w': "w' = upd_sock s (\<lambda>x. x\<lparr>decrement_close := True\<rparr>) w1"
    by (auto simp: begin_close_def and_then_Inr_iff)
  have "retained w w1"
    using increment_effect(1,2,4) [OF w1]
    by (intro retained_rest) (simp_all add: older_calm calm_same_socks)
  then show "retained w w'" by (rule retained_trans) (simp add: w' retained_mark)
qed

lemma retained_end_close: "keeps retained (end_close E s)"
proof -
  have "keeps retained (\<lambda>w. decrement_outstanding_ops E (sock_context (socks w s)) w)"
    by (rule retained.keeps_arg) (rule retained_decrement)
  then show ?thesis
    unfolding end_close_def
    by (intro retained.keeps_guarded retained.keeps_steps) (simp add: retained.keeps_update retained_mark)
qed

lemma retained_kept_lib:
  fixes E :: "'a udp_world_scheme env"
  assumes user: "\<And>f ec args. keeps retained (user E f ec args)"
    and slot: "\<And>sl bs n dst ec. keeps retained (slot E sl bs n dst ec)"
  shows "kept_lib retained E"
proof -
  have "kept_core retained E"
  proof
    fix w w' :: "'a udp_world_scheme" and m c s f
    show "(\<And>x. same_ops x (f x)) \<Longrightarrow> retained w (upd_sock s f w)"
      by (rule retained_rest, simp_all) (auto simp: upd_sock_def same_ops_def older_def sock_older_def)
    show "retained w w' \<Longrightarrow> life (muxes w m) = destroyed \<Longrightarrow> life (muxes w' m) = destroyed"
      by (simp add: retained_def older_def)
    show "ctx_stop_receiving E c w = Inr w' \<Longrightarrow> retained w w'"
      by (rule retained_frame) (rule keepsD [OF keeps_frame_ctx_stop])
    show "retained (upd_mux m take_ref w) w' \<Longrightarrow> retained w (release_ref m w')"
      by (rule retained_free.free_lock_kept)
  qed (rule slot retained_start retained_restart retained_post retained_handler_post retained_dispatch [OF user]
      retained_begin_close retained_end_close retained_free.any_front_kept
    | rule retained_same; simp add: older_calm calm_def log_call_def upd_ctx_def upd_mux_def)+
  moreover have "kept_lib_axioms retained E"
  proof
    fix w :: "'a udp_world_scheme" and f t m s fr c ec args
    show "keeps retained (entry_unlink E (state_entry t))"
      by (rule keepsI, rule retained_frame) (rule keepsD [OF keeps_frame_unlink])
    show "keeps retained (register_recv_handler m (state_entry t) :: 'a udp_world_scheme \<Rightarrow> _)"
      by (rule keepsI, rule retained_frame) (rule keepsD [OF keeps_frame_register])
    show "keeps retained (post_rx_handler t ec args :: 'a udp_world_scheme \<Rightarrow> _)"
      "keeps retained (post_tx_handler t ec args :: 'a udp_world_scheme \<Rightarrow> _)"
      by (rule keepsI, auto simp: post_rx_handler_def post_tx_handler_def guarded_def upd_mstate_def
          retained.kept_refl calm_def accounted_def split: if_splits intro!: retained_posted)+
    show "unused_impl s w \<Longrightarrow> retained w (upd_sock s (\<lambda>_. new_socket_impl fr c) w)"
      by (rule retained_same) (auto simp: upd_sock_def unused_impl_def older_def sock_older_def)
    show "(\<And>x. plain_update x (f x)) \<Longrightarrow> retained w (upd_mstate t f w)"
      by (rule retained_same) (simp_all add: older_calm calm_def upd_mstate_def plain_update_def)
  qed (rule user | rule retained_mux, simp, simp
    | rule retained_same; simp add: older_calm calm_def upd_ctx_def upd_entry_def upd_mux_def)+
  ultimately show ?thesis using retained_free.kept_refs_axioms by (simp add: kept_lib_def)
qed

interpretation retained_tie: kept_ops retained "tie X n" for X :: "'l outside" and n
  by (rule tie_kept [OF retained_kept_lib]) (auto intro!: retained_same simp: older_calm calm_def)

interpretation retained_inputs: kept_inputs retained "tie X n" for X :: "'l outside" and n
proof unfold_locales
  show "keeps retained (register_recv_handler m e :: 'l utp_world \<Rightarrow> _)" for m e
    by (rule keepsI, rule retained_frame) (rule keepsD [OF keeps_frame_register])
qed (rule retained_mux, simp, simp | rule retained_same; simp add: older_calm calm_def upd_ctx_def)+


section \<open>Over whole runs\<close>

lemma event_retained:
  assumes "possible ev w" and "run_event (tie X n) ev w = Inr w'"
    and "allocated (socks w s)" and "transfers k" and "handler_of s k w = Some i"
  shows "allocated (socks w' s) \<and> (\<exists>ys. ran ev w @ posted w' = posted w @ ys
    \<and> accounted s k (func i) w' (work_fn ` set ys))"
proof -
  obtain v us where v: "retained v w'" "socks v = socks w" "posted w = us @ posted v" "ran ev w = us"
  proof (cases "ev = Run_posted")
    case True
    with assms(1) obtain x xs where q: "posted w = x # xs" by (cases "posted w") auto
    with True assms(2) have r: "run_work (user (tie X n)) (run_after (tie X n)) x (w\<lparr>posted := xs\<rparr>) = Inr w'"
      by (simp add: run_posted_def)
    show thesis
      by (rule that [OF keepsD [OF retained_work [OF retained_tie.user_kept] r], of "[x]"])
         (use True q in \<open>simp_all add: ran_def\<close>)
  next
    case False
    from input_kept [OF retained_inputs.kept_inputs_axioms False assms(2)] show thesis
      by (rule that [of _ "[]"]) (use False in \<open>simp_all add: ran_def split: event.split\<close>)
  qed
  then have "older v w'" by (simp add: retained_def)
  with v(2) assms(3) have "allocated (socks w' s)" by (simp add: older_def sock_older_def)
  moreover from v assms(3-5) obtain ys where "posted w' = posted v @ ys" "accounted s k (func i) w' (work_fn ` set ys)"
    unfolding retained_def by metis
  ultimately show ?thesis using v(3,4) by simp
qed

lemma run_retained:
  assumes "sys_run X w xs w'" and "allocated (socks w s)" and "transfers k" and "handler_of s k w = Some i"
  shows "\<exists>ys. xs @ posted w' = posted w @ ys \<and> accounted s k (func i) w' (work_fn ` set ys)"
  using assms
proof (induction arbitrary: i rule: sys_run.induct)
  case (stop w)
  then show ?case by (simp add: accounted_def)
next
  case (more ev w n w1 xs w')
  from event_retained [OF more.hyps(1,2) more.prems] obtain us where
    us: "allocated (socks w1 s)" "ran ev w @ posted w1 = posted w @ us" "accounted s k (func i) w1 (work_fn ` set us)"
    by blast
  obtain vs where vs: "xs @ posted w' = posted w1 @ vs" using sys_run_order [OF more.hyps(3)] by blast
  have "accounted s k (func i) w' (work_fn ` set (us @ vs))"
  proof (cases "func i \<in> work_fn ` set us")
    case False
    with us(3) obtain j where j: "handler_of s k w1 = Some j" "func j = func i" by (auto simp: accounted_def)
    from more.IH [OF us(1) more.prems(2) j(1)] vs j(2) show ?thesis by (auto simp: accounted_def)
  qed (auto simp: accounted_def)
  moreover have "(ran ev w @ xs) @ posted w' = posted w @ us @ vs" using us(2) vs by (metis append.assoc)
  ultimately show ?case by blast
qed

text \<open>
  (C11) No read and no write is lost: over every run of the whole library, with any user program
  and any libutp, a read or write that is in progress on a socket at one point is at every
  later point still in progress (its function is stored in the socket), or its function was
  posted in between: it is, after those that were queued at the start, one of the functions
  that the executor has run or that are in its queue.
\<close>

theorem transfers_never_lost:
  assumes "sys_run X w xs w'" and "allocated (socks w s)" and "k = op_send \<or> k = op_recv"
    and "handler_of s k w = Some i"
  shows "\<exists>ys. xs @ posted w' = posted w @ ys
    \<and> ((\<exists>j. handler_of s k w' = Some j \<and> func j = func i) \<or> (\<exists>x \<in> set ys. work_fn x = func i))"
proof -
  from run_retained [OF assms(1,2) _ assms(4)] assms(3) obtain ys where
    "xs @ posted w' = posted w @ ys" "accounted s k (func i) w' (work_fn ` set ys)"
    by (auto simp: transfers_def)
  then show ?thesis by (auto simp: accounted_def)
qed

text \<open>Socket 0 reads; the user closes it, and the executor runs the completion of the read.\<close>

theorem transfers_never_lost_witness:
  "\<exists>xs w' ys. sys_run quiet (with_impl reading) xs w' \<and> handler_of 0 op_recv w' = None
    \<and> xs @ posted w' = ys \<and> (\<exists>x \<in> set ys. work_fn x = 7)"
proof -
  let ?w = "with_impl reading"
  have "case run_event (tie quiet 1) (Run_user (calls_of [Socket_close 0])) ?w of Inl e \<Rightarrow> False
    | Inr w' \<Rightarrow> handler_of 0 op_recv w' = None"
    by (simp add: sample_simps run_simps close_simps close_utp_def detach_owner_def)
  then obtain w' where w': "run_event (tie quiet 1) (Run_user (calls_of [Socket_close 0])) ?w = Inr w'"
    and none: "handler_of 0 op_recv w' = None"
    by (auto split: sum.splits)
  from sys_run.more [OF _ w' sys_run.stop] have r: "sys_run quiet ?w [] w'" by (simp add: ran_def)
  have "posted ?w = []" "allocated (socks ?w 0)"
    "handler_of 0 op_recv ?w = Some \<lparr>func = 7, after = Some (decrement_of 0)\<rparr>"
    by (simp_all add: sample_simps)
  with transfers_never_lost [OF r, of 0 op_recv "\<lparr>func = 7, after = Some (decrement_of 0)\<rparr>"] r none
  show ?thesis by auto
qed


section \<open>A failing UDP socket\<close>

lemma retained_accounted:
  assumes "retained w w'" and "allocated (socks w s)"
  obtains ys where "posted w' = posted w @ ys"
    and "\<And>k i. transfers k \<Longrightarrow> handler_of s k w = Some i \<Longrightarrow> accounted s k (func i) w' (work_fn ` set ys)"
  using assms unfolding retained_def by blast

text \<open>A socket is closed, by this call or before, and what was in progress is posted.\<close>

definition finished :: "nat \<Rightarrow> 'a udp_world_scheme \<Rightarrow> 'a udp_world_scheme \<Rightarrow> bool" where
  "finished s w w' \<longleftrightarrow> closed (socks w' s) \<and> (\<exists>ys. posted w' = posted w @ ys
     \<and> (\<forall>k i. transfers k \<longrightarrow> handler_of s k w = Some i \<longrightarrow> func i \<in> work_fn ` set ys))"

lemma close_finishes:
  assumes "close_with_error (tie X n) ec s w = Inr w'" and "allocated (socks w s)"
  shows "finished s w w'"
proof (cases "closed (socks w s)")
  case True
  with assms(1) have "w' = w" "handler_of s op_recv w = None" "handler_of s op_send w = None"
    by (auto simp: close_with_error_def and_then_Inr_iff)
  with True show ?thesis by (auto simp: finished_def transfers_def)
next
  case False
  let ?v = "closed_state ec s w"
  have "older ?v w'"
    using assms(1) keepsD [OF older_tie.keeps_close_utp [of X n s]] older.kept_refl
    by (auto simp: close_open_socket [OF False] split: option.splits if_splits)
  then have "closed (socks w' s)"
    using assms(2) by (simp add: older_def sock_older_def closed_state_def upd_sock_def)
  moreover obtain ys where "posted w' = posted w @ aborted ec (socks w s) @ ys"
    using close_aborts [OF assms(1) False] by blast
  moreover have "func i \<in> work_fn ` set (aborted ec (socks w s))"
    if "transfers k" "handler_of s k w = Some i" for k i
    using that by (auto simp: transfers_def aborted_def aborted_one_def)
  ultimately show ?thesis by (fastforce simp: finished_def)
qed

lemma finished_before:
  assumes "retained w v" and "finished s v w'" and "allocated (socks w s)"
  shows "finished s w w'"
proof -
  obtain ys where ys: "posted v = posted w @ ys"
    "\<And>k i. transfers k \<Longrightarrow> handler_of s k w = Some i \<Longrightarrow> accounted s k (func i) v (work_fn ` set ys)"
    using retained_accounted [OF assms(1,3)] by blast
  obtain zs where zs: "posted w' = posted v @ zs" "closed (socks w' s)"
    "\<And>k i. transfers k \<Longrightarrow> handler_of s k v = Some i \<Longrightarrow> func i \<in> work_fn ` set zs"
    using assms(2) unfolding finished_def by blast
  have "func i \<in> work_fn ` set (ys @ zs)" if "transfers k" "handler_of s k w = Some i" for k i
    using ys(2) [OF that] zs(3) [OF that(1)] unfolding accounted_def image_Un set_append by fastforce
  then show ?thesis using ys(1) zs(1,2) unfolding finished_def by (metis append.assoc)
qed

lemma finished_after:
  assumes "finished s w v" and "retained v w'" and "allocated (socks v s)"
  shows "finished s w w'"
proof -
  have "closed (socks w' s)"
    using assms by (auto simp: retained_def older_def sock_older_def finished_def)
  moreover obtain zs where "posted w' = posted v @ zs" using assms(2) by (auto simp: retained_def)
  ultimately show ?thesis using assms(1) unfolding finished_def by fastforce
qed

lemma retained_allocated: "retained w w' \<Longrightarrow> allocated (socks w s) \<Longrightarrow> allocated (socks w' s)"
  by (simp add: retained_def older_def sock_older_def)

lemma close_all_finishes:
  assumes "close_all (tie X n) c ec w = Inr w'" and "s \<in> set (registered_sockets (ctxs w c))"
    and "allocated (socks w s)"
  shows "finished s w w'"
proof -
  let ?E = "tie X n" and ?ss = "registered_sockets (ctxs w c)"
  let ?round = "\<lambda>s w. and_then (iterator_valid ?E c (length ?ss) w) (close_with_error ?E ec s)"
  have rounds: "keeps retained (steps (map ?round xs))" for xs
    by (rule retained.keeps_steps)
       (simp add: list_all_iff retained.keeps_and_then retained_tie.keeps_iterator_valid retained_tie.keeps_close_with_error)
  obtain xs zs where ss: "?ss = xs @ s # zs" using split_list [OF assms(2)] by blast
  have "steps (map ?round (xs @ s # zs)) w = Inr w'" using assms(1) ss by (simp add: close_all_def Let_def)
  then obtain v v' where v: "steps (map ?round xs) w = Inr v" and v': "?round s v = Inr v'"
    and rest: "steps (map ?round zs) v' = Inr w'"
    by (auto simp: steps_append and_then_Inr_iff)
  have 1: "retained w v" by (rule keepsD [OF rounds v])
  then have alloc: "allocated (socks v s)" using assms(3) by (rule retained_allocated)
  have close: "close_with_error ?E ec s v = Inr v'"
    using v' by (auto simp: and_then_Inr_iff iterator_valid_def split: if_splits)
  then have "allocated (socks v' s)"
    using keepsD [OF retained_tie.keeps_close_with_error] alloc retained_allocated by blast
  with close_finishes [OF close alloc] keepsD [OF rounds rest] have "finished s v w'"
    using finished_after by blast
  with 1 show ?thesis using assms(3) by (rule finished_before)
qed

text \<open>
  (C26) When the UDP socket fails to send a datagram of libutp with an error that is neither
  \<open>would_block\<close> nor \<open>bad_descriptor\<close>, and the callback returns, every socket of the context is
  closed and every read and write that was in progress on it is completed: its function is
  posted. This holds whatever libutp does inside \<open>utp_close\<close> (it may call back and close
  sockets again), and whatever the observers of the sends do. When there are none, the
  operations in progress of the first socket are completed first, all four kinds, each with
  the error of the UDP socket.
\<close>

theorem hard_send_error_closes_all:
  assumes "callback_sendto (tie X n) c bs addr w = Inr w'" and "alive (muxes w c)"
    and "to_endpoint (host_abi (sockets X)) addr = Inr dst"
    and "udp_send (sockets X) c bs dst (upd_mux c take_ref w) = (sent, ec)"
    and "ec \<noteq> no_error" and "ec \<noteq> would_block" and "ec \<noteq> bad_descriptor"
    and "\<forall>s \<in> set (registered_sockets (ctxs w c)). allocated (socks w s)"
  shows "(\<forall>s \<in> set (registered_sockets (ctxs w c)). closed (socks w' s) \<and> (\<exists>ys. posted w' = posted w @ ys
      \<and> (\<forall>k i. k = op_send \<or> k = op_recv \<longrightarrow> handler_of s k w = Some i \<longrightarrow> (\<exists>x \<in> set ys. work_fn x = func i))))
    \<and> (\<forall>s ss. connections (send_to_signal (muxes w c)) = [] \<longrightarrow> registered_sockets (ctxs w c) = s # ss
        \<longrightarrow> \<not> closed (socks w s) \<longrightarrow> (\<exists>ys. posted w' = posted w @ aborted ec (socks w s) @ ys))"
proof (intro conjI ballI allI impI)
  let ?E = "tie X n"
  let ?w = "upd_mux c take_ref w"
  obtain v v' where v: "mux_send_to ?E c bs dst ?w = Inr ((sent, ec), v)" and v': "close_all ?E c ec v = Inr v'"
    and drop: "mux_drop ?E c v' = Inr w'"
    using assms(1-7)
    by (auto simp: callback_sendto_def with_lock_def and_then_Inr_iff mux_send_to_def split: prod.splits)
  have drop': "retained v' w'"
    by (rule retained_tie.drop_kept [OF retained_free.release_ref_kept drop])
  have sent: "retained w v"
    by (rule retained_trans [OF retained_free.take_ref_kept keeps_valD [OF retained_tie.keeps_send_to v]])
  {
    fix s
    assume s: "s \<in> set (registered_sockets (ctxs w c))"
    then have alloc: "allocated (socks w s)" using assms(8) by blast
    have "s \<in> set (registered_sockets (ctxs v c))"
      using s sent assms(2) unfolding retained_def
      by (metis (no_types) alive_def ownership.simps(8) set_mono_prefix subsetD)
    with v' have "finished s v v'" by (rule close_all_finishes) (rule retained_allocated [OF sent alloc])
    moreover have "retained v v'" by (rule keepsD [OF retained_tie.keeps_close_all v'])
    ultimately have "finished s w w'"
      using drop' alloc sent by (meson finished_after finished_before retained_allocated)
    then show "closed (socks w' s)" and "\<exists>ys. posted w' = posted w @ ys
        \<and> (\<forall>k i. k = op_send \<or> k = op_recv \<longrightarrow> handler_of s k w = Some i \<longrightarrow> (\<exists>x \<in> set ys. work_fn x = func i))"
      unfolding finished_def transfers_def by fastforce+
  }
  fix s ss
  assume quiet: "connections (send_to_signal (muxes w c)) = []" and ss: "registered_sockets (ctxs w c) = s # ss"
    and "\<not> closed (socks w s)"
  have "v = log_call (ImmediateSendTo c bs dst) ?w"
    using v quiet by (auto simp: mux_send_to_def emit_def upd_mux_def take_ref_def log_call_def split: prod.splits)
  then have "registered_sockets (ctxs v c) = s # ss" "socks v = socks w" "posted v = posted w"
    using ss by (simp_all add: upd_mux_def log_call_def)
  with v' obtain u where u: "close_with_error ?E ec s v = Inr u"
    and rest: "steps (map (\<lambda>s w. and_then (iterator_valid ?E c (length (s # ss)) w) (close_with_error ?E ec s)) ss) u = Inr v'"
    by (auto simp: close_all_def and_then_Inr_iff iterator_valid_def split: if_splits)
  obtain ys where "posted u = posted w @ aborted ec (socks w s) @ ys"
    using close_aborts [OF u] \<open>\<not> closed (socks w s)\<close> \<open>socks v = socks w\<close> \<open>posted v = posted w\<close> by auto
  moreover have "retained u v'" by (rule keepsD [OF retained.keeps_steps rest])
    (simp add: list_all_iff retained.keeps_and_then retained_tie.keeps_iterator_valid retained_tie.keeps_close_with_error)
  ultimately show "\<exists>ys. posted w' = posted w @ aborted ec (socks w s) @ ys"
    using drop' unfolding retained_def by auto
qed

end
