(* ===== verification/Frontend.thy ===== *)
theory Frontend
  imports Programs
begin

text \<open>
  What the calls of the user do to a socket object: which errors they report and how, which
  multiplexer a bound socket uses, what moving a socket object moves, and the endpoints.
\<close>

section \<open>Endpoints\<close>

lemma supported_host: "h = little_endian \<or> h = big_endian \<Longrightarrow> posix_host h"
  using le.posix_host_axioms be.posix_host_axioms by blast

text \<open>
  (C30) libutp is never asked to connect to an unspecified address. \<open>async_connect\<close> on a bound
  socket connects to the target \<open>connect_target\<close>: 0.0.0.0 is replaced by 127.0.0.1 and :: by
  ::1, exactly; every other address is passed on unchanged, and the port is always kept. A
  socket object that is not bound completes the operation with \<open>bad_descriptor\<close>.
\<close>

theorem connect_target_specified:
  "async_connect E fr ep f w =
     (case impl (fronts w fr) of None \<Rightarrow> Inr (w\<lparr>posted := posted w @ [Work f bad_descriptor [] None]\<rparr>)
      | Some s \<Rightarrow> sock_do_connect E s (connect_target ep) (new_handler f) w)
    \<and> ep_address (connect_target ep) =
       (case ep_address ep of
          address_v4 bs \<Rightarrow> if bs = [0, 0, 0, 0] then address_v4 [127, 0, 0, 1] else address_v4 bs
        | address_v6 bs sc \<Rightarrow>
            if bs = replicate 16 0 then address_v6 (replicate 15 0 @ [1]) 0 else address_v6 bs sc)
    \<and> ep_port (connect_target ep) = ep_port ep
    \<and> \<not> is_unspecified (ep_address (connect_target ep))"
  by (cases "ep_address ep")
     (simp_all add: async_connect_def socket_do_connect_def connect_target_def loopback_v4_def loopback_v6_def
       new_handler_def numeral_eq_Suc split: option.split)

text \<open>
  \<open>remote_endpoint\<close> of a socket connected to an IPv4 peer is the address and port that
  libutp reports in the \<open>sockaddr_in\<close>, on both byte orders.
\<close>

lemma remote_endpoint_v4:
  assumes "host_abi E = little_endian \<or> host_abi E = big_endian"
    and "impl (fronts w fr) = Some s" and "utp_socket (socks w s) = Some us"
    and "getpeername E us 16 w = (0, store16 (host_abi E) (AF_INET (host_abi E))
           @ store16 (host_abi E) (htons (host_abi E) p) @ bs @ replicate 8 0)"
    and "length bs = 4"
  shows "socket_remote_endpoint E fr w = Inr \<lparr>ep_address = address_v4 bs, ep_port = p\<rparr>"
proof -
  note h = supported_host [OF assms(1)]
  show ?thesis
    using assms(2-5) posix_host.len_store16 [OF h] posix_host.endpoint_of_peer_v4 [OF h assms(5)]
    by (simp add: socket_remote_endpoint_def sock_remote_endpoint_def memcpy_def indeterminate_def
        del: map_append)
qed

text \<open>
  (C31) For an IPv6 peer \<open>remote_endpoint\<close> reads past the end of its \<open>struct sockaddr\<close>: 16 bytes
  of the 28 of the \<open>sockaddr_in6\<close> fit, and the conversion reads the address at bytes 8 to 23.
\<close>

theorem remote_endpoint_v6_out_of_bounds:
  assumes "host_abi E = little_endian \<or> host_abi E = big_endian"
    and "impl (fronts w fr) = Some s" and "utp_socket (socks w s) = Some us"
    and "getpeername E us 16 w = (0, store16 (host_abi E) (AF_INET6 (host_abi E))
           @ store16 (host_abi E) (htons (host_abi E) p) @ store32 (host_abi E) 0 @ take 8 bs)"
    and "length bs = 16"
  shows "socket_remote_endpoint E fr w = Inl OutOfBounds"
proof -
  note h = supported_host [OF assms(1)]
  have "length (store32 (host_abi E) 0 @ take 8 bs) = 12"
    using posix_host.len_store32 [OF h] assms(5) by simp
  from posix_host.endpoint_of_peer_v6 [OF h this] show ?thesis
    using assms(2-5) posix_host.len_store16 [OF h] posix_host.len_store32 [OF h]
    by (simp add: socket_remote_endpoint_def sock_remote_endpoint_def memcpy_def indeterminate_def
        del: map_append)
qed


section \<open>Sockets that are not bound\<close>

text \<open>
  On a socket object without a \<open>socket_impl\<close> (not bound yet, moved from, or closed) every
  asynchronous operation is completed through the executor with \<open>bad_descriptor\<close> and zero
  bytes; nothing else changes, and no operation is counted.
\<close>

lemma unbound_socket_reports_bad_descriptor:
  assumes "impl (fronts w fr) = None"
  shows "async_connect E fr ep f w = Inr (w\<lparr>posted := posted w @ [Work f bad_descriptor [] None]\<rparr>)
    \<and> async_accept fr f w = Inr (w\<lparr>posted := posted w @ [Work f bad_descriptor [] None]\<rparr>)
    \<and> async_write_some E fr bufs f w = Inr (w\<lparr>posted := posted w @ [Work f bad_descriptor [0] None]\<rparr>)
    \<and> async_read_some E fr bufs f w = Inr (w\<lparr>posted := posted w @ [Work f bad_descriptor [0] None]\<rparr>)
    \<and> socket_close E fr w = Inr w \<and> \<not> socket_is_open fr w"
  using assms
  by (simp add: async_connect_def async_accept_def async_write_some_def async_read_some_def
      socket_do_connect_def socket_do_accept_def socket_do_write_def socket_do_read_def
      store_tx_buffers_def store_rx_buffers_def new_handler_def socket_close_def socket_is_open_def)


section \<open>Binding\<close>


text \<open>
  A new multiplexer is created when the endpoint has none: it is registered with the service
  under the endpoint the UDP socket reports (an ephemeral port is resolved), so the next
  \<open>bind\<close> to that endpoint finds it, and it starts idle.
\<close>

lemma bind_creates_multiplexer:
  assumes "impl (fronts w fr) = None" and "multiplexer (fronts w fr) = None"
    and "multiplexers w ep = None" and "udp_open E ep w = no_error" and "udp_bind E ep w = (local, no_error)"
    and "unused_mux m w" and "unused_impl s w" and "utp_init E m w"
  shows "\<exists>w'. socket_bind E fr s m ep ec w = Inr (no_error, w')
    \<and> multiplexers w' local = Some m \<and> local_endpoint (muxes w' m) = local
    \<and> life (muxes w' m) = shared_by 1 \<and> rx_ops (muxes w' m) = 0
    \<and> outstanding_op_count (ctxs w' m) = 0 \<and> registered_sockets (ctxs w' m) = [s]
    \<and> socket_local_endpoint fr w' = Inr local"
  using assms
  by (simp add: socket_bind_def maybe_create_udp_multiplexer_def new_multiplexer_def mux_create_def
      new_mux_def new_context_def set_multiplexer_def
      install_impl_def on_unused_def unused_impl_def register_socket_def upd_front_def
      upd_sock_def upd_ctx_def Let_def socket_local_endpoint_def sock_local_endpoint_def new_socket_impl_def)

text \<open>
  \<open>bind\<close> to an endpoint that is in use reports the error that the caller's variable happened
  to hold: the lookup of an existing multiplexer leaves \<open>ec\<close> alone and \<open>bind\<close> returns when it
  is set. The socket stays unbound, and the state is what it was.
\<close>

lemma bind_keeps_stale_error:
  assumes "impl (fronts w fr) = None" and "multiplexers w ep = Some m"
    and "life (muxes w m) = shared_by n" and "1 \<le> n" and "ec \<noteq> no_error"
  shows "socket_bind E fr s m' ep ec w = Inr (ec, w)"
proof -
  let ?w = "upd_mux m take_ref w"
  have "upd_mux m drop_ref ?w = w"
    using assms(3,4) by (simp add: upd_mux_def take_ref_def drop_ref_def fun_upd_idem)
  moreover have "alive (muxes w m)" using assms(3) by (simp add: alive_def)
  ultimately have "mux_drop E m ?w = Inr w" by (simp add: mux_drop_def Let_def)
  with \<open>alive (muxes w m)\<close> assms(1,2,5) show ?thesis
    by (simp add: socket_bind_def maybe_create_udp_multiplexer_def)
qed


section \<open>Moving socket objects\<close>

text \<open>
  The move constructor moves the \<open>socket_impl\<close> and the multiplexer to the new object, makes
  the new object the owner, so that a close started by libutp clears the right one, and leaves
  the old object as good as new.
\<close>

lemma move_construct_moves_ownership:
  assumes "fronts w fr = new_socket" and "impl (fronts w other) = Some s"
  shows "\<exists>w'. socket_move_construct fr other w = Inr w' \<and> fronts w' fr = fronts w other
    \<and> fronts w' other = new_socket \<and> owner (socks w' s) = Some fr
    \<and> handlers (socks w' s) = handlers (socks w s)
    \<and> (\<exists>w''. detach_owner s w' = Inr w'' \<and> impl (fronts w'' fr) = None \<and> fronts w'' other = new_socket)"
proof -
  have "fr \<noteq> other" using assms by (auto simp: new_socket_def)
  with assms show ?thesis
    by (simp add: socket_move_construct_def on_unused_def Let_def set_owner_def upd_front_def upd_sock_def detach_owner_def)
qed

text \<open>
  (C29) Move assignment from a bound socket dereferences a null pointer: its assertion reads
  \<open>other._socket_impl->_owner\<close> after \<open>other._socket_impl\<close> was moved from.
\<close>

theorem move_assign_dereferences_null:
  assumes "fr \<noteq> other" and "impl (fronts w other) = Some s"
    and "impl (fronts w fr) = None" and "multiplexer (fronts w fr) = None"
  shows "socket_move_assign E fr other w = Inl (NullPointer ''other._socket_impl'')"
  using assms
  by (simp add: socket_move_assign_def socket_close_def Let_def set_multiplexer_def upd_front_def)

end
