(* ===== verification/Datagrams.thy ===== *)
theory Datagrams
  imports Ordering
begin

text \<open>
  Datagrams through the user-facing \<open>udp_multiplexer\<close>: delivery of a received datagram, the
  completion of sends, \<open>close\<close>, and the end of a multiplexer's life.
\<close>

section \<open>Receiving\<close>

text \<open>
  (C35) A datagram that arrives while a receive is pending completes it: the sender goes to the
  user's endpoint variable, the first bytes of the datagram, as many as fit, are in the user's
  buffers in order, the handler is posted once with the result and the byte count, and the
  state is ready for the next receive.
\<close>

theorem receive_from_delivers:
  assumes "asio_buffer_copy (buffer_copy E)" and "rx_handler (mstates w t) = Some i"
    and "rx_ep (mstates w t) = Some a" and "disjoint_buffers (ms_rx_buffers (mstates w t))"
  shows "\<exists>w' n. handle_read E t ec ep bs w = Inr w'
    \<and> n = min (buffer_size (ms_rx_buffers (mstates w t))) (length bs)
    \<and> take n (gather (mem w') (ms_rx_buffers (mstates w t))) = take n bs
    \<and> eps w' a = ep \<and> posted w' = posted w @ [Work (func i) ec [n] (after i)]
    \<and> rx_handler (mstates w' t) = None"
proof -
  let ?ds = "ms_rx_buffers (mstates w t)"
  obtain n m where nm: "buffer_copy E ?ds [bs] (mem w) = (n, m)" by fastforce
  have "n = min (buffer_size ?ds) (length bs)"
    using asio_buffer_copy.copy_count [OF assms(1), of ?ds "[bs]" "mem w"] nm by simp
  moreover have "take n (gather m ?ds) = take n bs"
    using asio_buffer_copy.copy_bytes [OF assms(1,4), of "[bs]" "mem w"] nm by simp
  ultimately show ?thesis
    using assms(2,3) nm by (simp add: handle_read_def upd_mstate_def)
qed

text \<open>
  A datagram that arrives after the receive was completed is dropped without effect: no
  handler runs and the user's memory and endpoint variables are left alone.
\<close>

lemma datagram_without_receive_ignored:
  assumes "rx_handler (mstates w t) = None"
  shows "handle_read E t ec ep bs w = Inr w"
  using assms by (simp add: handle_read_def)


section \<open>Sending\<close>

lemma post_tx_world:
  "post_tx_handler t ec args w = Inr (case tx_handler (mstates w t) of None \<Rightarrow> w
     | Some i \<Rightarrow> (upd_mstate t (\<lambda>x. x\<lparr>tx_handler := None\<rparr>) w)
         \<lparr>posted := posted w @ [Work (func i) ec args (after i)]\<rparr>)"
  by (simp add: post_tx_handler_def guarded_def upd_mstate_def split: option.split)

lemma drop_take_ref: "life x = shared_by n \<Longrightarrow> 1 \<le> n \<Longrightarrow> drop_ref (take_ref x) = x"
  by (simp add: take_ref_def drop_ref_def)

lemma mux_drop_shared:
  assumes "life (muxes w m) = shared_by n" and "1 < n"
  shows "mux_drop E m w = Inr (upd_mux m drop_ref w)"
  using assms by (simp add: mux_drop_def Let_def alive_def upd_mux_def drop_ref_def)

text \<open>A send completes while nobody is connected to the signal and the object is open.\<close>

lemma send_completed_quiet:
  assumes "life (muxes w m) = shared_by n" and "1 \<le> n" and "connections (send_to_signal (muxes w m)) = []"
    and "re_handler (entries w (state_entry t)) \<noteq> None"
  shows "send_completed E \<lparr>send_mux = m, send_state = t, send_dst = d\<rparr> ec k w =
    Inr (upd_mstate t (\<lambda>s. s\<lparr>tx_lambdas := tx_lambdas s - 1\<rparr>)
      (case tx_handler (mstates w t) of None \<Rightarrow> w
       | Some i \<Rightarrow> (upd_mstate t (\<lambda>x. x\<lparr>tx_handler := None\<rparr>) w)
           \<lparr>posted := posted w @ [Work (func i) ec [k] (after i)]\<rparr>))"
proof -
  let ?w = "upd_mux m take_ref w"
  let ?f = "\<lambda>w. case tx_handler (mstates w t) of None \<Rightarrow> w
     | Some i \<Rightarrow> (upd_mstate t (\<lambda>x. x\<lparr>tx_handler := None\<rparr>) w)
         \<lparr>posted := posted w @ [Work (func i) ec [k] (after i)]\<rparr>"
  have "muxes (?f ?w) m = take_ref (muxes w m)"
    by (simp add: upd_mux_def upd_mstate_def split: option.split)
  then have "life (muxes (?f ?w) m) = shared_by (Suc n)" using assms(1) by (simp add: take_ref_def)
  then have drop: "mux_drop E m (?f ?w) = Inr (upd_mux m drop_ref (?f ?w))"
    by (rule mux_drop_shared) (use assms(2) in simp)
  have same: "upd_mux m drop_ref (?f ?w) = ?f w"
    using drop_take_ref [OF assms(1,2)]
    by (simp add: upd_mux_def upd_mstate_def fun_upd_idem split: option.split)
  have alive: "alive (muxes w m)" using assms(1) by (simp add: alive_def)
  have sig: "connections (send_to_signal (muxes ?w m)) = []"
    using assms(3) by (simp add: upd_mux_def take_ref_def)
  have "with_lock (mux_drop E) m
      (steps [\<lambda>w. emit (\<lambda>w. send_to_signal (muxes w m))
        (\<lambda>f. slot E f (gather (mem w) (ms_tx_buffers (mstates w t))) k (eps w d) ec) (emission_bound E) w, send_finished t ec k]) w = Inr (?f w)"
    using alive sig drop same by (simp add: with_lock_def emit_def send_finished_def post_tx_world)
  moreover have "release_state E t (upd_mstate t g (?f w)) = Inr (upd_mstate t g (?f w))" for g
    using assms(4) by (simp add: release_state_def upd_mstate_def split: option.split)
  ultimately show ?thesis
    using alive by (simp add: send_completed_def Let_def)
qed

text \<open>
  (C38) A send that is started while another is pending loses a completion: the handler of the
  first is overwritten without being posted, the result of the first send goes to the handler
  of the second, and the result of the second to nobody.
\<close>

theorem overlapping_send_lost:
  assumes "mfronts w u = Some t" and "ms_impl (mstates w t) = Some m"
    and "tx_handler (mstates w t) = Some i"
    and "life (muxes w m) = shared_by n" and "1 \<le> n" and "connections (send_to_signal (muxes w m)) = []"
    and "re_handler (entries w (state_entry t)) \<noteq> None"
  shows "\<exists>w1 w2 w3. multiplexer_do_send u dst (Some j) w = Inr w1 \<and> posted w1 = posted w
    \<and> send_completed E \<lparr>send_mux = m, send_state = t, send_dst = d1\<rparr> ec1 k1 w1 = Inr w2
    \<and> posted w2 = posted w @ [Work (func j) ec1 [k1] (after j)]
    \<and> send_completed E \<lparr>send_mux = m, send_state = t, send_dst = d2\<rparr> ec2 k2 w2 = Inr w3
    \<and> posted w3 = posted w2"
proof -
  obtain w1 where w1: "multiplexer_do_send u dst (Some j) w = Inr w1" "posted w1 = posted w"
      "tx_handler (mstates w1 t) = Some j" "muxes w1 = muxes w" "entries w1 = entries w"
    using assms(1,2)
    by (simp add: multiplexer_do_send_def state_impl_def Let_def upd_mstate_def log_call_def)
  let ?x = "\<lambda>d. \<lparr>send_mux = m, send_state = t, send_dst = d\<rparr>"
  obtain w2 where w2: "send_completed E (?x d1) ec1 k1 w1 = Inr w2"
      "posted w2 = posted w @ [Work (func j) ec1 [k1] (after j)]" "tx_handler (mstates w2 t) = None"
      "muxes w2 = muxes w" "entries w2 = entries w"
    using send_completed_quiet [of w1 m n t E d1 ec1 k1] assms(4-7) w1
    by (simp add: upd_mstate_def)
  have "send_completed E (?x d2) ec2 k2 w2 = Inr (upd_mstate t (\<lambda>s. s\<lparr>tx_lambdas := tx_lambdas s - 1\<rparr>) w2)"
    using send_completed_quiet [of w2 m n t E d2 ec2 k2] assms(4-7) w2 by simp
  then show ?thesis using w1(1,2) w2(1,2) by (auto simp: upd_mstate_def)
qed


section \<open>Closing\<close>

lemma post_rx_world:
  "post_rx_handler t ec args w = Inr (case rx_handler (mstates w t) of None \<Rightarrow> w
     | Some i \<Rightarrow> (upd_mstate t (\<lambda>x. x\<lparr>rx_handler := None\<rparr>) w)
         \<lparr>posted := posted w @ [Work (func i) ec args (after i)]\<rparr>)"
  by (simp add: post_rx_handler_def guarded_def upd_mstate_def split: option.split)

definition aborted_handler :: "handler \<Rightarrow> work list" where
  "aborted_handler h = (case h of None \<Rightarrow> [] | Some i \<Rightarrow> [Work (func i) operation_aborted [0] (after i)])"

text \<open>The state after \<open>close\<close> except for what the destructor of the state does.\<close>

definition after_close :: "nat \<Rightarrow> nat \<Rightarrow> nat \<Rightarrow> 'a udp_world_scheme \<Rightarrow> 'a udp_world_scheme" where
  "after_close u t m w =
     w\<lparr>entries := (entries w)(state_entry t := (entries w (state_entry t))\<lparr>re_handler := None\<rparr>),
       posted := posted w @ aborted_handler (rx_handler (mstates w t)) @ aborted_handler (tx_handler (mstates w t)),
       mstates := (mstates w)(t := (mstates w t)\<lparr>rx_handler := None, tx_handler := None, ms_impl := None\<rparr>),
       muxes := (muxes w)(m := drop_ref (muxes w m)),
       mfronts := (mfronts w)(u := None)\<rparr>"

lemma multiplexer_close_eq:
  assumes "mfronts w u = Some t" and "ms_impl (mstates w t) = Some m"
    and "life (muxes w m) = shared_by n" and "1 < n"
  shows "multiplexer_close E u ec w =
    and_then (release_state E t (after_close u t m w)) (\<lambda>w. Inr (ec, w))"
proof -
  have clear: "x\<lparr>rx_handler := None\<rparr> = x" if "rx_handler x = None" for x :: mux_state
    using that by (cases x) simp
  have clear': "x\<lparr>tx_handler := None\<rparr> = x" if "tx_handler x = None" for x :: mux_state
    using that by (cases x) simp
  have drop: "mux_drop E m v = Inr (v\<lparr>muxes := (muxes w)(m := drop_ref (muxes w m))\<rparr>)"
    if "muxes v = muxes w" for v :: "'a udp_world_scheme"
    using mux_drop_shared [of v m n E] assms(3,4) that by (simp add: upd_mux_def)
  show ?thesis
    using assms(1,2)
    by (cases "rx_handler (mstates w t)"; cases "tx_handler (mstates w t)")
       (simp_all add: multiplexer_close_def post_rx_world post_tx_world drop_impl_def drop
         upd_mstate_def upd_entry_def set_state_def after_close_def aborted_handler_def
         clear clear')
qed


lemma release_state_frame:
  assumes "release_state E t w = Inr w'"
  shows "posted w' = posted w" and "mfronts w' = mfronts w" and "life (muxes w' m) = life (muxes w m)"
proof -
  have "keeps acct_frame (release_state E t)"
    unfolding release_state_def by (intro frame.keeps_guarded keeps_frame_unlink)
  from keepsD [OF this assms] show "posted w' = posted w" and "life (muxes w' m) = life (muxes w m)"
    by (simp_all add: acct_frame_def)
  show "mfronts w' = mfronts w"
    using assms
    by (auto simp: release_state_def entry_unlink_def on_recv_entry_unlinked_def hook_unlink_def guarded_def
        upd_mux_def log_call_def split: if_splits option.splits)
qed

text \<open>Up to the destructor of the state, for the last user of the multiplexer too.\<close>

lemma multiplexer_close_steps:
  assumes "mfronts w u = Some t" and "ms_impl (mstates w t) = Some m" and "multiplexer_close E u ec w = Inr (ec', w')"
  obtains v1 v2 where "posted v1 = posted w @ aborted_handler (rx_handler (mstates w t))
        @ aborted_handler (tx_handler (mstates w t))" and "muxes v1 = muxes w"
    and "mux_drop E m v1 = Inr v2" and "release_state E t (set_state u None v2) = Inr w'" and "ec' = ec"
proof -
  let ?v = "upd_entry (state_entry t) (\<lambda>r. r\<lparr>re_handler := None\<rparr>) w"
  obtain v1 where v1: "steps [post_rx_handler t operation_aborted [0], post_tx_handler t operation_aborted [0]] ?v = Inr v1"
    and "and_then (drop_impl E t v1) (\<lambda>v. release_state E t (set_state u None v)) = Inr w'" and "ec' = ec"
    using assms(1,3) by (auto simp: multiplexer_close_def and_then_Inr_iff)
  moreover from v1 have "posted v1 = posted w @ aborted_handler (rx_handler (mstates w t))
        @ aborted_handler (tx_handler (mstates w t))" "muxes v1 = muxes w" "ms_impl (mstates v1 t) = Some m"
    using assms(2) by (auto simp: post_rx_world post_tx_world upd_entry_def upd_mstate_def aborted_handler_def
        split: option.splits)
  ultimately show thesis
    using that [of "upd_mstate t (\<lambda>x. x\<lparr>ms_impl := None\<rparr>) v1"]
    by (auto simp: drop_impl_def and_then_Inr_iff upd_mstate_def)
qed

text \<open>
  (C36) Closing a bound multiplexer object completes its pending receive and then its pending send
  with \<open>operation_aborted\<close> and zero bytes, before anything else is posted; it leaves the caller's
  error code alone and the object closed, and a second close reports \<open>bad_descriptor\<close> and changes
  nothing. Exactly one reference to the shared multiplexer is given up: when it was the last one
  the multiplexer is destroyed (and libutp may run callbacks meanwhile), otherwise it stays
  with one user less and nothing else is posted.
\<close>

theorem multiplexer_close_aborts:
  assumes "mfronts w u = Some t" and "ms_impl (mstates w t) = Some m"
    and "life (muxes w m) = shared_by n" and "1 \<le> n" and "multiplexer_close (tie X k) u ec w = Inr (ec', w')"
  shows "ec' = ec \<and> (\<exists>ys. posted w' = posted w @ aborted_handler (rx_handler (mstates w t))
          @ aborted_handler (tx_handler (mstates w t)) @ ys \<and> (n > 1 \<longrightarrow> ys = []))
    \<and> life (muxes w' m) = (if n = 1 then destroyed else shared_by (n - 1)) \<and> \<not> multiplexer_is_open u w'
    \<and> multiplexer_close (tie X k) u ec w' = Inr (bad_descriptor, w')"
proof -
  obtain v1 v2 where v1: "posted v1 = posted w @ aborted_handler (rx_handler (mstates w t))
        @ aborted_handler (tx_handler (mstates w t))" "muxes v1 = muxes w"
    and v2: "mux_drop (tie X k) m v1 = Inr v2" and w': "release_state (tie X k) t (set_state u None v2) = Inr w'"
    and ec: "ec' = ec"
    using assms(1,2,5) by (rule multiplexer_close_steps)
  note frame = release_state_frame [OF w']
  have closed: "mfronts w' u = None" using frame(2) by (simp add: set_state_def)
  have grown: "grows (release_ref m v1) v2" by (rule grows_tie.drop_kept [OF grows.kept_refl v2])
  have posted: "posted w' = posted v2" "life (muxes w' m) = life (muxes v2 m)"
    using frame(1,3) by (simp_all add: set_state_def)
  have "(\<exists>ys. posted v2 = posted v1 @ ys \<and> (n > 1 \<longrightarrow> ys = []))
    \<and> life (muxes v2 m) = (if n = 1 then destroyed else shared_by (n - 1))"
  proof (cases "n = 1")
    case True
    have "life (muxes (release_ref m v1) m) = destroyed"
      using assms(3) v1(2) True by (intro release_ref_gone) (simp_all add: alive_def drop_ref_def)
    moreover have "posted (release_ref m v1) = posted v1" by (simp add: release_ref_def upd_mux_def)
    ultimately show ?thesis using grown True by (auto simp: grows_def)
  next
    case False
    then have "mux_drop (tie X k) m v1 = Inr (upd_mux m drop_ref v1)"
      using assms(3,4) v1(2) by (intro mux_drop_shared [of _ _ n]) simp_all
    with v2 False assms(3,4) v1(2) show ?thesis by (auto simp: upd_mux_def drop_ref_def)
  qed
  with v1(1) posted closed ec show ?thesis
    by (auto simp: multiplexer_is_open_def multiplexer_close_def)
qed



section \<open>The end of a multiplexer\<close>

text \<open>
  Giving up the last reference destroys the multiplexer: the service forgets its endpoint
  (so a later bind makes a new one), the libutp context is destroyed, the ticker stops, no
  receive entry stays registered and weak pointers to it no longer lock. Giving up any other
  reference only lowers the use count.
\<close>

lemma last_reference_destroys:
  assumes "life (muxes w m) = shared_by 1" and "\<And>c w. utp E (utp_destroy c) w = Inr (0, w)"
    and "re_multiplexer (entries w (ctx_entry m)) = Some m"
  shows "\<exists>w'. mux_drop E m w = Inr w' \<and> \<not> alive (muxes w' m)
    \<and> multiplexers w' (local_endpoint (muxes w m)) = None \<and> \<not> utp_ctx (ctxs w' m)
    \<and> \<not> running (ticking (ctxs w' m)) \<and> recv_handlers (muxes w' m) = []
    \<and> posted w' = posted w"
proof -
  let ?w = "(upd_mux m drop_ref w)\<lparr>multiplexers := (multiplexers w)(local_endpoint (muxes w m) := None)\<rparr>"
  have dead: "\<not> alive (muxes ?w m)" and ent: "re_multiplexer (entries ?w (ctx_entry m)) = Some m"
    using assms(1,3) by (simp_all add: upd_mux_def alive_def drop_ref_def)
  have "mux_drop E m w = and_then (ctx_close E m ?w) (\<lambda>w. Inr (upd_mux m (\<lambda>x. x\<lparr>recv_handlers := []\<rparr>) w))"
    using assms(1)
    by (simp add: mux_drop_def Let_def mux_destroy_def erase_multiplexer_def upd_mux_def alive_def drop_ref_def steps_single)
  moreover obtain v where "ctx_close E m ?w = Inr v" "\<not> utp_ctx (ctxs v m)" "\<not> running (ticking (ctxs v m))"
      "muxes v = muxes ?w" "multiplexers v = multiplexers ?w" "posted v = posted w"
    using dead ent
    by (cases "utp_ctx (ctxs ?w m)"; cases "running (ticking (ctxs ?w m))")
       (simp_all add: ctx_close_def utp_do_def assms(2) ctx_stop_receiving_def ctx_ticker_stop_def
         entry_unlink_def upd_ctx_def log_call_def ticker_stop_def upd_mux_def)
  ultimately show ?thesis
    using dead by (simp add: upd_mux_def alive_def)
qed

text \<open>
  Assigning to an open \<open>udp_multiplexer\<close> object leaves its old state behind: no object refers
  to it any more, so nothing can close it, and it still holds its reference to the multiplexer.
\<close>

lemma multiplexer_move_orphans_state:
  assumes "mfronts w u = Some t" and "\<And>v. mfronts w v = Some t \<Longrightarrow> v = u" and "u \<noteq> other"
  shows "mfronts (multiplexer_move u other w) v \<noteq> Some t
    \<and> mstates (multiplexer_move u other w) t = mstates w t \<and> muxes (multiplexer_move u other w) = muxes w"
proof -
  have "x \<noteq> u \<Longrightarrow> mfronts w x \<noteq> Some t" for x using assms(2) by blast
  then show ?thesis using assms(3) by (simp add: multiplexer_move_def Let_def set_state_def)
qed

text \<open>
  Copy assignment does what the copy constructor does to a fresh object: what the assigned object
  was bound to before plays no part.
\<close>

lemma multiplexer_copy_assign_eq:
  assumes "mfronts w tmp = None" and "u \<noteq> tmp"
  shows "multiplexer_copy_assign E u other tmp t w = multiplexer_copy u other t w"
  using assms
  by (auto simp: multiplexer_copy_assign_def multiplexer_copy_def multiplexer_move_def multiplexer_destroy_def
      multiplexer_close_def install_state_def on_unused_def unused_state_def set_state_def upd_mux_def upd_entry_def
      upd_mstate_def Let_def fun_upd_idem fun_upd_twist split: option.splits)

end
