(* ===== verification/Scenarios.thy ===== *)
theory Scenarios
  imports End_To_End Retention Frontend Datagrams Samples
begin

text \<open>
  The properties of the components at concrete states: each theorem of this theory applies a
  property of another theory to a sample state in which its hypotheses hold.
\<close>

section \<open>Sockets\<close>

theorem close_completes_everything_witness:
  "close_with_error quiet_env connection_reset 0 (with_impl (\<lambda>x. (reading x)\<lparr>utp_socket := None\<rparr>))
    = Inr (closed_state connection_reset 0 (with_impl (\<lambda>x. (reading x)\<lparr>utp_socket := None\<rparr>)))"
  by (subst close_completes_everything) (simp_all add: sample_simps)

text \<open>The UDP socket of the multiplexer fails to send while socket 0 is registered and reads.\<close>

definition failing :: "nat outside" where
  "failing = quiet\<lparr>sockets := quiet_env\<lparr>udp_send := (\<lambda>m bs dst w. (0, connection_reset))\<rparr>\<rparr>"

definition failing_state :: "nat utp_world" where
  "failing_state = upd_ctx 0 (\<lambda>x. x\<lparr>registered_sockets := [0]\<rparr>) (with_impl reading)"

theorem hard_send_error_closes_all_witness:
  "\<exists>w' ys. callback_sendto (tie failing 1) 0 [1, 2] peer_addr failing_state = Inr w'
    \<and> posted w' = Work 7 connection_reset [0] (Some (decrement_of 0)) # ys \<and> closed (socks w' 0)"
proof -
  obtain dst where dst: "to_endpoint little_endian peer_addr = Inr dst" using peer_addr_converts by blast
  obtain w' where w': "callback_sendto (tie failing 1) 0 [1, 2] peer_addr failing_state = Inr w'"
    using dst
    by (simp add: callback_sendto_def with_lock_def guarded_def mux_send_to_def emit_def close_all_def
        iterator_valid_def close_with_error_def post_if_def post_op_def close_utp_def utp_do_def detach_owner_def
        assert_that_def increment_outstanding_ops_def mux_drop_def drop_ref_def take_ref_def alive_def Let_def
        failing_state_def failing_def quiet_def quiet_env_def empty_signal_def log_call_def set_handler_def
        upd_mux_def upd_ctx_def upd_front_def sample_simps)
  have "closed (socks w' 0)
    \<and> (\<exists>ys. posted w' = posted failing_state @ aborted connection_reset (socks failing_state 0) @ ys)"
    using hard_send_error_closes_all [OF w', of dst 0 connection_reset] dst
    by (auto simp: failing_state_def failing_def quiet_def quiet_env_def upd_ctx_def empty_signal_def alive_def
        sample_simps)
  with w' show ?thesis
    by (auto simp: aborted_def aborted_one_def failing_state_def upd_ctx_def sample_simps)
qed

text \<open>Socket 0 accepts: it is in the queue of its context.\<close>

definition accepting_state :: "nat utp_world" where
  "accepting_state = upd_ctx 0 (\<lambda>c. c\<lparr>accepting_sockets := [0]\<rparr>)
     (with_impl (\<lambda>x. x\<lparr>utp_socket := None, handlers := (handlers x)(op_accept := pending_handler)\<rparr>))"

theorem accept_first_in_queue_witness:
  "(\<exists>w'. callback_on_accept quiet_env 0 9 accepting_state = Inr w' \<and> utp_socket (socks w' 0) = Some 9
      \<and> posted w' = [Work 7 no_error [] (Some (decrement_of 0))])
   \<and> (\<exists>w'. userdata w' 9 = Some 0 \<and> callback_on_accept (quiet_env\<lparr>inline := (\<lambda>w. True)\<rparr>) 0 9 accepting_state
      = decrement_outstanding_ops (quiet_env\<lparr>inline := (\<lambda>w. True)\<rparr>) 0 w')"
proof -
  let ?E = "quiet_env\<lparr>inline := (\<lambda>w. True)\<rparr> :: (nat utp_world) env"
  have s: "accepting_sockets (ctxs accepting_state 0) = [0]" "utp_socket (socks accepting_state 0) = None"
    "handler_of 0 op_accept accepting_state = Some \<lparr>func = 7, after = Some (decrement_of 0)\<rparr>"
    "posted accepting_state = []"
    by (simp_all add: accepting_state_def upd_ctx_def sample_simps)
  have "\<not> inline quiet_env w" "user ?E f ec args w = Inr w" "inline ?E w" for f ec args and w :: "nat utp_world"
    by (simp_all add: quiet_env_def)
  then show ?thesis
    using accept_first_in_queue [OF s(1-3), where E = quiet_env and us = 9]
      accept_first_in_queue [OF s(1-3), where E = ?E and us = 9] s(4)
    by (auto simp: run_work_def run_after_def)
qed

theorem aborted_accept_stays_queued_witness:
  "\<exists>w1 w2. sock_do_accept 0 (new_handler 7) (with_impl (\<lambda>x. x\<lparr>utp_socket := None\<rparr>)) = Inr w1
    \<and> close_with_error quiet_env operation_aborted 0 w1 = Inr w2
    \<and> callback_on_accept quiet_env 0 9 w2 = Inl (AssertFailed ''_accept_handler'')"
proof -
  let ?w = "with_impl (\<lambda>x. x\<lparr>utp_socket := None\<rparr>)"
  obtain w1 where w1: "sock_do_accept 0 (new_handler 7) ?w = Inr w1" "\<not> closed (socks w1 0)"
      "utp_socket (socks w1 0) = None"
    by (simp add: sock_do_accept_def add_accepting_socket_def assert_that_def setup_op_def set_handler_def
        increment_outstanding_ops_def exec_after_def new_handler_def upd_ctx_def Let_def sample_simps)
  then obtain w2 where w2: "close_with_error quiet_env operation_aborted 0 w1 = Inr w2"
    by (simp add: close_open_socket)
  have c: "sock_context (socks ?w 0) = 0" by (simp add: sample_simps)
  from w1(1) w2 have "callback_on_accept quiet_env (sock_context (socks ?w 0)) 9 w2
      = Inl (AssertFailed ''_accept_handler'')"
    by (rule aborted_accept_stays_queued [THEN conjunct2]) (simp_all add: sample_simps)
  with w1(1) w2 c show ?thesis by auto
qed

section \<open>Streams\<close>

theorem reads_are_a_pipe_witness:
  "\<exists>bs w'. rx_run (tie sending 1) 0 0 5
       [Arrive [] [1, 2, 3], Read [\<lparr>base = 10, len = 2\<rparr>] 8, Arrive [] [4], Read [\<lparr>base = 20, len = 9\<rparr>] 9] connected_state
     = Inr (bs, w') \<and> bs @ unread 0 w' = [1, 2, 3, 4]"
proof -
  have "rx_outside sending 0 5 connected_state" "rx_ready 0 0 5 connected_state" "unread 0 connected_state = []"
    by (fact connected_reader)+
  then show ?thesis
    using reads_are_a_pipe [of sending 0 5 connected_state 0
        "[Arrive [] [1, 2, 3], Read [\<lparr>base = 10, len = 2\<rparr>] 8, Arrive [] [4], Read [\<lparr>base = 20, len = 9\<rparr>] 9]" 0]
    by (auto simp del: tie.simps)
qed


section \<open>Socket objects\<close>

definition peer_env :: "byte list \<Rightarrow> (nat utp_world) env" where
  "peer_env bs = quiet_env\<lparr>getpeername := (\<lambda>us n w. (0, bs))\<rparr>"

theorem remote_endpoint_v6_out_of_bounds_witness:
  "socket_remote_endpoint (peer_env (store16 little_endian (AF_INET6 little_endian)
       @ store16 little_endian (htons little_endian 6881) @ store32 little_endian 0
       @ take 8 (replicate 15 0 @ [1]))) 0 sample = Inl OutOfBounds"
  by (rule remote_endpoint_v6_out_of_bounds [of _ sample 0 0 5 6881 "replicate 15 0 @ [1]"])
     (simp_all add: peer_env_def sample_simps, simp_all add: quiet_env_def)


theorem move_assign_dereferences_null_witness:
  "socket_move_assign quiet_env 1 0 sample = Inl (NullPointer ''other._socket_impl'')"
  by (rule move_assign_dereferences_null [of 1 0 sample 0]) (simp_all add: sample_simps)


section \<open>Multiplexers\<close>

text \<open>
  User-facing multiplexer 0 with state 3 on multiplexer 0, which another user shares: a receive
  into the endpoint variable 1 and the four bytes at 100, and a send are pending.
\<close>

definition datagram_state :: "nat utp_world" where
  "datagram_state = sample\<lparr>
     mstates := (mstates sample)(3 := (new_state (Some 0))\<lparr>rx_ep := Some 1, rx_handler := new_handler 8,
       tx_handler := new_handler 9, ms_rx_buffers := [\<lparr>base = 100, len = 4\<rparr>], tx_lambdas := 1\<rparr>),
     mfronts := (mfronts sample)(0 := Some 3),
     entries := (entries sample)(state_entry 3 :=
       \<lparr>re_multiplexer = Some 0, re_handler = Some (state_handle_read 3)\<rparr>,
       ctx_entry 0 := \<lparr>re_multiplexer = Some 0, re_handler = Some (context_on_read 0)\<rparr>),
     muxes := (muxes sample)(0 := (muxes sample 0)\<lparr>recv_handlers := [state_entry 3], is_receiving := True,
       rx_ops := 1\<rparr>)\<rparr>"

lemma datagram_state_facts:
  "mfronts datagram_state 0 = Some 3" "ms_impl (mstates datagram_state 3) = Some 0"
  "life (muxes datagram_state 0) = shared_by 2" "tx_lambdas (mstates datagram_state 3) = 1"
  "rx_handler (mstates datagram_state 3) = Some \<lparr>func = 8, after = None\<rparr>"
  "tx_handler (mstates datagram_state 3) = Some \<lparr>func = 9, after = None\<rparr>"
  "rx_ep (mstates datagram_state 3) = Some 1" "posted datagram_state = []"
  "ms_rx_buffers (mstates datagram_state 3) = [\<lparr>base = 100, len = 4\<rparr>]"
  "re_handler (entries datagram_state (state_entry 3)) = Some (state_handle_read 3)"
  "recv_handlers (muxes datagram_state 0) = [state_entry 3]" "is_receiving (muxes datagram_state 0)"
  "connections (send_to_signal (muxes datagram_state 0)) = []"
  "re_multiplexer (entries datagram_state (ctx_entry 0)) = Some 0"
  by (simp_all add: datagram_state_def sample_simps new_state_def new_handler_def empty_signal_def)

theorem receive_from_delivers_witness:
  "\<exists>w'. handle_read quiet_env 3 no_error local_ep [1, 2, 3, 4, 5, 6] datagram_state = Inr w'
    \<and> take 4 (gather (mem w') [\<lparr>base = 100, len = 4\<rparr>]) = [1, 2, 3, 4] \<and> eps w' 1 = local_ep
    \<and> posted w' = [Work 8 no_error [4] None]"
proof -
  have "asio_buffer_copy (buffer_copy quiet_env)"
    using ref_copy.asio_buffer_copy_axioms by (simp add: quiet_env_def)
  from receive_from_delivers [OF this datagram_state_facts(5,7), of no_error local_ep "[1, 2, 3, 4, 5, 6]"]
  show ?thesis by (auto simp: datagram_state_facts buffer_size_def)
qed

theorem overlapping_send_lost_witness:
  "\<exists>w1 w2. multiplexer_do_send 0 2 (new_handler 10) datagram_state = Inr w1 \<and> posted w1 = []
    \<and> send_completed quiet_env \<lparr>send_mux = 0, send_state = 3, send_dst = 1\<rparr> no_error 5 w1 = Inr w2
    \<and> posted w2 = [Work 10 no_error [5] None]"
  using overlapping_send_lost [OF datagram_state_facts(1,2,6,3) _ datagram_state_facts(13),
      of 2 "\<lparr>func = 10, after = None\<rparr>" quiet_env 1 no_error 5 2 no_error 6]
  by (auto simp: datagram_state_facts new_handler_def)

theorem multiplexer_close_aborts_witness:
  "\<exists>w'. multiplexer_close (tie quiet 1) 0 no_error datagram_state = Inr (no_error, w')
    \<and> posted w' = [Work 8 operation_aborted [0] None, Work 9 operation_aborted [0] None]
    \<and> life (muxes w' 0) = shared_by 1"
proof -
  obtain w' where w': "multiplexer_close (tie quiet 1) 0 no_error datagram_state = Inr (no_error, w')"
    using multiplexer_close_eq [OF datagram_state_facts(1-3)]
    by (simp add: release_state_def guarded_def after_close_def datagram_state_facts)
  with multiplexer_close_aborts [OF datagram_state_facts(1-3) _ w'] show ?thesis
    by (auto simp: aborted_handler_def datagram_state_facts)
qed


end
