(* ===== verification/Flushing.thy ===== *)
theory Flushing
  imports Frames "HOL-Library.Sublist"
begin

text \<open>
  A received datagram and the receive entries (\<open>flush_handlers\<close> of
  \<open>src/src/udp_multiplexer_impl.cpp\<close>). The functions of the entries are the library's own:
  \<open>context::on_read\<close>, which calls into libutp and registers its entry again, and the lambda of
  \<open>udp_multiplexer\<close>. Whatever they do, libutp and the user's functions they run included, they
  never add to the list that is being flushed (\<open>shrinks\<close>); so the loop ends after one round per
  registered entry and visits the entries in the order of registration.
\<close>

section \<open>The list being flushed only gets shorter\<close>

definition shrinks :: "'a udp_world_scheme \<Rightarrow> 'a udp_world_scheme \<Rightarrow> bool" where
  "shrinks w w' \<longleftrightarrow> (\<forall>m. subseq (flushing (muxes w' m)) (flushing (muxes w m)))
     \<and> (\<forall>m. life (muxes w m) = destroyed \<longrightarrow> life (muxes w' m) = destroyed)"

lemma shrinks_same:
  assumes "\<And>m. flushing (muxes w' m) = flushing (muxes w m)"
    and "\<And>m. life (muxes w m) = destroyed \<Longrightarrow> life (muxes w' m) = destroyed"
  shows "shrinks w w'"
  using assms by (simp add: shrinks_def)

lemma shrinks_at: "shrinks w w' \<Longrightarrow> subseq (flushing (muxes w' m)) (flushing (muxes w m))"
  by (simp add: shrinks_def)

lemma shrinks_muxes: "muxes w' = muxes w \<Longrightarrow> shrinks w w'"
  by (simp add: shrinks_def)

lemma shrinks_mux: "(\<And>x. flushing (f x) = flushing x) \<Longrightarrow> (\<And>x. life (f x) = life x) \<Longrightarrow> shrinks w (upd_mux m f w)"
  by (auto simp: shrinks_def upd_mux_def)

interpretation shrinks: kept_relation shrinks
proof
  show "shrinks w w" for w :: "'a udp_world_scheme" by (simp add: shrinks_def)
  show "shrinks w w' \<Longrightarrow> shrinks w' w'' \<Longrightarrow> shrinks w w''" for w w' w'' :: "'a udp_world_scheme"
    unfolding shrinks_def by (blast intro: subseq_order.trans)
qed

interpretation shrinks_free: kept_free shrinks
proof unfold_locales
  show "shrinks w (mux_create m ep w)" if "unused_mux m w" for m ep and w :: "'a udp_world_scheme"
    using that by (auto simp: shrinks_def mux_create_def unused_mux_def new_mux_def)
qed (rule shrinks_same; auto simp: upd_front_def upd_mux_def take_ref_def drop_ref_def upd_mstate_def)+

lemma shrinks_mux_start: "keeps shrinks (mux_start_receiving m)"
  by (rule keepsI) (auto simp: mux_start_receiving_def and_then_Inr_iff shrinks_def upd_mux_def log_call_def)

lemma shrinks_register: "keeps shrinks (register_recv_handler m e)"
proof (rule keepsI)
  fix w w' :: "'a udp_world_scheme"
  let ?w = "upd_mux m (\<lambda>x. x\<lparr>recv_handlers := recv_handlers x @ [e]\<rparr>)
      (upd_entry e (\<lambda>r. r\<lparr>re_multiplexer := Some m\<rparr>) w)"
  assume "register_recv_handler m e w = Inr w'"
  then have "guarded (\<lambda>w. \<not> is_receiving (muxes w m)) (mux_start_receiving m) ?w = Inr w'"
    by (auto simp: register_recv_handler_def and_then_Inr_iff)
  then have "shrinks ?w w'" by (rule keepsD [OF shrinks.keeps_guarded [OF shrinks_mux_start]])
  then show "shrinks w w'"
    by (rule shrinks.kept_trans [rotated]) (rule shrinks_same; auto simp: upd_mux_def upd_entry_def)
qed

lemma shrinks_unlink: "keeps shrinks (entry_unlink E e)"
proof (rule keepsI)
  fix w w' :: "'a udp_world_scheme"
  assume a: "entry_unlink E e w = Inr w'"
  have "shrinks w (hook_unlink m e w)" for m
    by (auto simp: shrinks_def hook_unlink_def upd_mux_def removeAll_filter_not_eq subseq_filter_left)
  moreover have "muxes w' = muxes w \<or> (\<exists>m. muxes w' = muxes (hook_unlink m e w))"
    using a by (auto simp: entry_unlink_def on_recv_entry_unlinked_def guarded_def log_call_def
        split: option.splits if_splits)
  ultimately show "shrinks w w'" by (elim disjE exE) (simp_all add: shrinks_def)
qed

lemma shrinks_ticker: "keeps shrinks (ctx_ticker_start c)" "keeps shrinks (ctx_ticker_stop c)"
  by (rule keepsI, rule shrinks_muxes, auto simp: ctx_ticker_start_def ctx_ticker_stop_def upd_ctx_def log_call_def
      split: if_splits)+

lemma shrinks_ctx_start: "keeps shrinks (ctx_start_receiving c)"
  unfolding ctx_start_receiving_def
  by (intro shrinks.keeps_guarded shrinks.keeps_steps)
     (simp add: shrinks.keeps_guarded shrinks.keeps_assert_that shrinks_ticker shrinks_register)

lemma shrinks_ctx_stop: "keeps shrinks (ctx_stop_receiving E c)"
  unfolding ctx_stop_receiving_def
  by (intro shrinks.keeps_steps) (simp add: shrinks_ticker shrinks_unlink)

lemma shrinks_increment: "keeps shrinks (increment_outstanding_ops c)"
proof (rule keepsI)
  fix w w' :: "'a udp_world_scheme"
  let ?w = "upd_ctx c (\<lambda>x. x\<lparr>outstanding_op_count := outstanding_op_count (ctxs w c) + 1\<rparr>) w"
  assume "increment_outstanding_ops c w = Inr w'"
  then have "shrinks ?w w'"
    using keepsD [OF shrinks_ctx_start]
    by (auto simp: increment_outstanding_ops_def Let_def shrinks.kept_refl split: if_splits)
  then show "shrinks w w'" by (rule shrinks.kept_trans [rotated]) (rule shrinks_muxes, simp add: upd_ctx_def)
qed

lemma shrinks_decrement: "keeps shrinks (decrement_outstanding_ops E c)"
proof (rule keepsI)
  fix w w' :: "'a udp_world_scheme"
  let ?w = "upd_ctx c (\<lambda>x. x\<lparr>outstanding_op_count := size_t_decrement (outstanding_op_count (ctxs w c))\<rparr>) w"
  assume "decrement_outstanding_ops E c w = Inr w'"
  then have "shrinks ?w w'"
    using keepsD [OF shrinks_ctx_stop]
    by (auto simp: decrement_outstanding_ops_def Let_def shrinks.kept_refl split: if_splits)
  then show "shrinks w w'" by (rule shrinks.kept_trans [rotated]) (rule shrinks_muxes, simp add: upd_ctx_def)
qed

interpretation shrinks: work_relation shrinks
proof unfold_locales
  show "keeps shrinks (decrement_outstanding_ops E c)" for E :: "'a udp_world_scheme env" and c
    by (rule shrinks_decrement)
qed (rule shrinks_muxes; simp)+

lemma shrinks_sock: "shrinks w (upd_sock s f w)"
  by (rule shrinks_muxes) (simp add: upd_sock_def)

lemma shrinks_setup: "keeps shrinks (setup_op s k h)"
proof (rule keepsI)
  fix w w' :: "'a udp_world_scheme"
  assume "setup_op s k h w = Inr w'"
  then obtain w1 h' where "increment_outstanding_ops (sock_context (socks w s)) w = Inr w1" "w' = set_handler s k h' w1"
    by (auto simp: setup_op_def and_then_Inr_iff)
  then show "shrinks w w'"
    using keepsD [OF shrinks_increment] shrinks.set_handler_kept shrinks.kept_trans by blast
qed

lemma shrinks_restart: "keeps shrinks (restart_send s)"
proof (rule keepsI)
  fix w w' :: "'a udp_world_scheme"
  assume "restart_send s w = Inr w'"
  then have "shrinks (set_handler s op_send None w) w'"
    unfolding restart_send_def by (rule keepsD [OF shrinks_setup])
  with shrinks.set_handler_kept show "shrinks w w'" by (rule shrinks.kept_trans)
qed

lemma shrinks_post: "keeps shrinks (post_op s k ec args)"
  by (rule keepsI) (erule post_op_effect, rule shrinks_muxes, simp)

lemma shrinks_begin_close: "keeps shrinks (begin_close s)"
proof -
  have "keeps shrinks (\<lambda>w. increment_outstanding_ops (sock_context (socks w s)) w)"
    by (rule shrinks.keeps_arg) (rule shrinks_increment)
  then show ?thesis
    unfolding begin_close_def
    by (intro shrinks.keeps_steps) (simp add: shrinks.keeps_assert_that shrinks.keeps_update shrinks_sock)
qed

lemma shrinks_end_close: "keeps shrinks (end_close E s)"
proof -
  have "keeps shrinks (\<lambda>w. decrement_outstanding_ops E (sock_context (socks w s)) w)"
    by (rule shrinks.keeps_arg) (rule shrinks_decrement)
  then show ?thesis
    unfolding end_close_def
    by (intro shrinks.keeps_guarded shrinks.keeps_steps) (simp add: shrinks.keeps_update shrinks_sock)
qed

lemma shrinks_kept_lib:
  fixes E :: "'a udp_world_scheme env"
  assumes user: "\<And>f ec args. keeps shrinks (user E f ec args)"
    and slot: "\<And>sl bs n dst ec. keeps shrinks (slot E sl bs n dst ec)"
  shows "kept_lib shrinks E"
proof -
  have "kept_core shrinks E"
  proof
    fix w w' :: "'a udp_world_scheme" and m c
    show "shrinks w w' \<Longrightarrow> life (muxes w m) = destroyed \<Longrightarrow> life (muxes w' m) = destroyed"
      by (simp add: shrinks_def)
    show "ctx_stop_receiving E c w = Inr w' \<Longrightarrow> shrinks w w'" by (rule keepsD [OF shrinks_ctx_stop])
    show "shrinks (upd_mux m take_ref w) w' \<Longrightarrow> shrinks w (release_ref m w')"
      by (rule shrinks_free.free_lock_kept)
    show "shrinks w (upd_mux m (\<lambda>x. x\<lparr>recv_handlers := []\<rparr>) w)" by (rule shrinks_mux) simp_all
  qed (rule slot keeps_start [OF shrinks.kept_relation_axioms shrinks_setup] shrinks_restart shrinks_post
      shrinks.dispatch_kept [OF user] shrinks.plain_post_kept shrinks_begin_close shrinks_end_close
      shrinks_free.any_front_kept shrinks_sock
    | rule shrinks_muxes; simp add: log_call_def upd_ctx_def)+
  moreover have "kept_lib_axioms shrinks E"
  proof
    fix w :: "'a udp_world_scheme" and t m ec args
    show "keeps shrinks (post_rx_handler t ec args :: 'a udp_world_scheme \<Rightarrow> _)"
      "keeps shrinks (post_tx_handler t ec args :: 'a udp_world_scheme \<Rightarrow> _)"
      by (rule keepsI, rule shrinks_muxes, auto simp: post_rx_handler_def post_tx_handler_def guarded_def upd_mstate_def
          split: if_splits)+
    show "shrinks w (upd_mux m (\<lambda>x. x\<lparr>send_to_signal := sg x\<rparr>) w)" for sg by (rule shrinks_mux) simp_all
  qed (rule user shrinks_unlink shrinks_register shrinks_sock
    | rule shrinks_muxes; simp add: upd_ctx_def upd_entry_def upd_mstate_def)+
  ultimately show ?thesis using shrinks_free.kept_refs_axioms by (simp add: kept_lib_def)
qed

interpretation shrinks_tie: kept_ops shrinks "tie X n" for X :: "'l outside" and n
  by (rule tie_kept [OF shrinks_kept_lib]) (simp_all add: shrinks_muxes)

interpretation shrinks_reads: kept_reads shrinks "tie X n" for X :: "'l outside" and n
proof unfold_locales
  show "keeps shrinks (register_recv_handler m e :: 'l utp_world \<Rightarrow> _)" for m e by (rule shrinks_register)
qed (rule shrinks_muxes; simp add: upd_ctx_def)


section \<open>One round per entry\<close>

text \<open>
  The turn of an entry: it is skipped if it is not the first of the entries left, that is, if it
  was unlinked since the flush began; otherwise it leaves the list and its function gets the
  bytes and the sender.
\<close>

definition visit ::
  "('a udp_world_scheme) env \<Rightarrow> nat \<Rightarrow> error_code \<Rightarrow> nat \<Rightarrow> entry_ref \<Rightarrow> 'a udp_world_scheme \<Rightarrow> 'a udp_world_scheme result"
  where
  "visit E m ec sz e w =
     (case flushing (muxes w m) of
        [] \<Rightarrow> Inr w
      | e' # es \<Rightarrow>
          if e' \<noteq> e then Inr w
          else (case re_handler (entries w e) of
              None \<Rightarrow> Inl (AssertFailed ''e.handler'')
            | Some f \<Rightarrow> recv_call E f ec (rx_endpoint (muxes w m)) (take sz (rx_buffer (muxes w m)))
                (upd_mux m (\<lambda>x. x\<lparr>flushing := es\<rparr>) w)))"

lemma flush_loop_visits:
  assumes "subseq (flushing (muxes w m)) es" and "length es \<le> k"
  shows "flush_loop (recv_call (tie X n)) k m ec sz w = steps (map (visit (tie X n) m ec sz) es) w"
  using assms
proof (induction es arbitrary: k w rule: list.induct)
  case Nil
  then have "flushing (muxes w m) = []" by simp
  then show ?case by (cases k) simp_all
next
  case (Cons e es)
  then obtain j where j: "k = Suc j" "length es \<le> j" by (cases k) auto
  show ?case
  proof (cases "\<exists>fs. flushing (muxes w m) = e # fs")
    case True
    then obtain fs where fs: "flushing (muxes w m) = e # fs" "subseq fs es"
      using Cons.prems(1) by (auto dest: subseq_Cons2')
    have "flush_loop (recv_call (tie X n)) j m ec sz w1 = steps (map (visit (tie X n) m ec sz) es) w1"
      if "recv_call (tie X n) f ec ep bs (upd_mux m (\<lambda>x. x\<lparr>flushing := fs\<rparr>) w) = Inr w1" for f ep bs w1
    proof (rule Cons.IH)
      have "subseq (flushing (muxes w1 m)) fs"
        using shrinks_at [OF keepsD [OF shrinks_reads.keeps_recv_call that], of m] by (simp add: upd_mux_def)
      then show "subseq (flushing (muxes w1 m)) es" using fs(2) by (rule subseq_order.trans)
    qed (use j in simp)
    moreover have "visit (tie X n) m ec sz e w = (case re_handler (entries w e) of
        None \<Rightarrow> Inl (AssertFailed ''e.handler'')
      | Some f \<Rightarrow> recv_call (tie X n) f ec (rx_endpoint (muxes w m)) (take sz (rx_buffer (muxes w m)))
          (upd_mux m (\<lambda>x. x\<lparr>flushing := fs\<rparr>) w))"
      by (simp add: visit_def fs(1))
    ultimately show ?thesis
      by (cases "re_handler (entries w e)") (auto simp: j(1) fs(1) intro!: and_then_cong)
  next
    case False
    then have "subseq (flushing (muxes w m)) es"
      using Cons.prems(1) by (cases "flushing (muxes w m)") (auto simp: subseq_Cons2_iff split: if_splits)
    then have "flush_loop (recv_call (tie X n)) k m ec sz w = steps (map (visit (tie X n) m ec sz) es) w"
      by (rule Cons.IH) (use Cons.prems(2) in simp)
    moreover have "visit (tie X n) m ec sz e w = Inr w" using False by (auto simp: visit_def split: list.split)
    ultimately show ?thesis by simp
  qed
qed

text \<open>
  (C19) A received datagram reaches the registered receive entries in the order of registration,
  each at most once, with the bytes received (none if there was an error) and the sender: the
  list of registered entries is emptied first, so that an entry registered meanwhile has to wait
  for the next datagram, and then each entry has its turn, in which it is skipped only if it was
  unlinked meanwhile. The loop ends with the last turn: more rounds than there were entries
  change nothing. This holds for the library's own receive functions, with every libutp, user
  program and nesting depth.
\<close>

theorem flush_delivers_in_order:
  fixes w :: "'l utp_world"
  shows "flush_handlers (recv_call (tie X n)) m ec sz w =
      steps (map (visit (tie X n) m ec (if ec = no_error then sz else 0)) (recv_handlers (muxes w m)))
        (upd_mux m (\<lambda>x. x\<lparr>recv_handlers := [], flushing := recv_handlers (muxes w m)\<rparr>) w)
    \<and> (\<forall>k. flush_loop (recv_call (tie X n)) (length (recv_handlers (muxes w m)) + k) m ec
          (if ec = no_error then sz else 0)
          (upd_mux m (\<lambda>x. x\<lparr>recv_handlers := [], flushing := recv_handlers (muxes w m)\<rparr>) w)
        = flush_handlers (recv_call (tie X n)) m ec sz w)"
proof -
  let ?hs = "recv_handlers (muxes w m)"
  let ?w = "upd_mux m (\<lambda>x. x\<lparr>recv_handlers := [], flushing := ?hs\<rparr>) w"
  have "subseq (flushing (muxes ?w m)) ?hs" by (simp add: upd_mux_def)
  from flush_loop_visits [OF this] show ?thesis by (simp add: flush_handlers_def Let_def)
qed

end
