(* ===== verification/Logging.thy ===== *)
theory Logging
  imports Prelude
begin

text \<open>
  The log of the library, \<open>src/include/asio_utp/log.hpp\<close> and \<open>src/src/log.cpp\<close>. \<open>g_logstream\<close> is
  a pointer to the stream the user set, null at first; \<open>streams\<close> is what has been written to
  each stream. An argument is the text that its \<open>operator<<\<close> writes. The library logs only
  under its \<open>_debug\<close> flags and nothing it does depends on the log, so the log is not part of the
  state of the other theories.
\<close>

record log_state =
  g_logstream :: "nat option"
  streams :: "nat \<Rightarrow> string"

definition initial_log :: "(nat \<Rightarrow> string) \<Rightarrow> log_state" where
  "initial_log ss = \<lparr>g_logstream = None, streams = ss\<rparr>"

definition put :: "nat \<Rightarrow> string \<Rightarrow> log_state \<Rightarrow> log_state" where
  "put ss text st = st\<lparr>streams := (streams st)(ss := streams st ss @ text)\<rparr>"

fun log_impl :: "nat \<Rightarrow> string list \<Rightarrow> log_state \<Rightarrow> log_state" where
  "log_impl ss [] st = put ss [char_of (10 :: nat)] st"
| "log_impl ss (arg # args) st = log_impl ss args (put ss arg st)"

definition set_log_stream :: "nat option \<Rightarrow> log_state \<Rightarrow> log_state" where
  "set_log_stream logstream st = st\<lparr>g_logstream := logstream\<rparr>"

definition log :: "string list \<Rightarrow> log_state \<Rightarrow> log_state" where
  "log args st =
     (case g_logstream st of None \<Rightarrow> st | Some ss \<Rightarrow> log_impl ss args st)"

text \<open>\<open>context::callback_log\<close>: the texts of the socket's address and of the message libutp reports.\<close>

definition callback_log :: "string \<Rightarrow> string \<Rightarrow> log_state \<Rightarrow> nat \<times> log_state" where
  "callback_log socket buf st = (0, log [''LOG: '', socket, '' '', buf] st)"


section \<open>Lemmas\<close>

lemma log_impl_line: "log_impl ss args st = put ss (concat args @ [char_of (10 :: nat)]) st"
  by (induction args arbitrary: st) (simp_all add: put_def)

text \<open>
  A call of \<open>log\<close> writes one line, the arguments one after the other, to the stream that was set
  last, and nothing anywhere else; with no stream set it does nothing.
\<close>

lemma log_writes_one_line:
  "log args (set_log_stream None st) = set_log_stream None st"
  "streams (log args (set_log_stream (Some ss) st)) x
     = streams st x @ (if x = ss then concat args @ [char_of (10 :: nat)] else [])"
  "g_logstream (log args st) = g_logstream st"
  by (auto simp: log_def set_log_stream_def log_impl_line put_def split: option.split)

lemma no_log_before_set: "log args (initial_log ss) = initial_log ss"
  by (simp add: log_def initial_log_def)

end
