(* ===== verification/Udp_Socket.thy ===== *)
theory Udp_Socket
  imports Buffers Sockaddr
begin

text \<open>
  \<open>udp_socket_wrapper\<close>, from \<open>src/include/asio_utp/udp_socket.hpp\<close>: a \<open>boost::asio::ip::udp::socket\<close>
  behind the interface \<open>abstract_udp_socket\<close> that a multiplexer uses. The Asio socket is not part of
  the sources: its operations are an argument, the record \<open>asio_socket\<close> of functions on its state,
  and \<open>asio_udp_socket\<close> states what their documentation says about the non-blocking mode. A call that
  blocks the thread is the value \<open>None\<close>. Completion handlers are numbers.

  \<open>checked_local_endpoint\<close> is \<open>abstract_udp_socket::local_endpoint\<close> without an error code
  (\<open>src/src/udp_socket.cpp\<close>), which throws.
\<close>

section \<open>Operations\<close>

record 'i asio_socket =
  non_blocking :: "'i \<Rightarrow> bool"
  set_non_blocking :: "bool \<Rightarrow> 'i \<Rightarrow> 'i"
  asio_local_endpoint :: "'i \<Rightarrow> endpoint \<times> error_code"
  asio_is_open :: "'i \<Rightarrow> bool"
  asio_cancel :: "'i \<Rightarrow> error_code \<times> 'i"
  asio_available :: "'i \<Rightarrow> nat \<times> error_code"
  asio_async_receive_from :: "buffer list \<Rightarrow> nat \<Rightarrow> nat \<Rightarrow> 'i \<Rightarrow> 'i"      \<comment> \<open>buffers, sender, handler\<close>
  asio_async_send_to :: "buffer list \<Rightarrow> endpoint \<Rightarrow> nat \<Rightarrow> 'i \<Rightarrow> 'i"
  asio_send_to :: "buffer list \<Rightarrow> endpoint \<Rightarrow> int \<Rightarrow> 'i \<Rightarrow> ((nat \<times> error_code) \<times> 'i) option"

text \<open>The wrapper is its member \<open>_inner\<close>. The constructor takes a socket over.\<close>

record 'i udp_socket_wrapper =
  inner :: 'i

definition new_wrapper :: "'i asio_socket \<Rightarrow> 'i \<Rightarrow> 'i udp_socket_wrapper" where
  "new_wrapper A i =
     \<lparr>inner = (if \<not> non_blocking A i then set_non_blocking A True i else i)\<rparr>"

definition wrapper_local_endpoint :: "'i asio_socket \<Rightarrow> 'i udp_socket_wrapper \<Rightarrow> endpoint \<times> error_code" where
  "wrapper_local_endpoint A x = asio_local_endpoint A (inner x)"

definition wrapper_is_open :: "'i asio_socket \<Rightarrow> 'i udp_socket_wrapper \<Rightarrow> bool" where
  "wrapper_is_open A x = asio_is_open A (inner x)"

definition wrapper_cancel ::
  "'i asio_socket \<Rightarrow> 'i udp_socket_wrapper \<Rightarrow> error_code \<times> 'i udp_socket_wrapper" where
  "wrapper_cancel A x = (case asio_cancel A (inner x) of (ec, i) \<Rightarrow> (ec, x\<lparr>inner := i\<rparr>))"

definition wrapper_available :: "'i asio_socket \<Rightarrow> 'i udp_socket_wrapper \<Rightarrow> nat \<times> error_code" where
  "wrapper_available A x = asio_available A (inner x)"

definition wrapper_async_receive_from ::
  "'i asio_socket \<Rightarrow> buffer list \<Rightarrow> nat \<Rightarrow> nat \<Rightarrow> 'i udp_socket_wrapper \<Rightarrow> 'i udp_socket_wrapper" where
  "wrapper_async_receive_from A bufs sender h x =
     x\<lparr>inner := asio_async_receive_from A bufs sender h (inner x)\<rparr>"

definition wrapper_async_send_to ::
  "'i asio_socket \<Rightarrow> buffer list \<Rightarrow> endpoint \<Rightarrow> nat \<Rightarrow> 'i udp_socket_wrapper \<Rightarrow> 'i udp_socket_wrapper" where
  "wrapper_async_send_to A bufs receiver h x =
     x\<lparr>inner := asio_async_send_to A bufs receiver h (inner x)\<rparr>"

definition immediate_send_to ::
  "'i asio_socket \<Rightarrow> buffer list \<Rightarrow> endpoint \<Rightarrow> int \<Rightarrow> 'i udp_socket_wrapper
     \<Rightarrow> ((nat \<times> error_code) \<times> 'i udp_socket_wrapper) option" where
  "immediate_send_to A bufs receiver flags x =
     (case asio_send_to A bufs receiver flags (inner x) of
        None \<Rightarrow> None
      | Some (r, i) \<Rightarrow> Some (r, x\<lparr>inner := i\<rparr>))"

text \<open>\<open>abstract_udp_socket::local_endpoint()\<close> calls the virtual one and throws its error.\<close>

definition checked_local_endpoint :: "endpoint \<times> error_code \<Rightarrow> endpoint result" where
  "checked_local_endpoint r =
     (case r of (ep, ec) \<Rightarrow> if ec \<noteq> no_error then Inl (SystemError ec) else Inr ep)"


section \<open>The contract of \<open>immediate_send_to\<close>\<close>

text \<open>What the documentation of \<open>boost::asio::basic_socket\<close> says of the non-blocking mode.\<close>

definition asio_udp_socket :: "'i asio_socket \<Rightarrow> bool" where
  "asio_udp_socket A \<longleftrightarrow>
     (\<forall>i b. non_blocking A (set_non_blocking A b i) = b)
     \<and> (\<forall>i. non_blocking A (snd (asio_cancel A i)) = non_blocking A i)
     \<and> (\<forall>i bufs a h. non_blocking A (asio_async_receive_from A bufs a h i) = non_blocking A i)
     \<and> (\<forall>i bufs ep h. non_blocking A (asio_async_send_to A bufs ep h i) = non_blocking A i)
     \<and> (\<forall>i bufs ep fl r i'. asio_send_to A bufs ep fl i = Some (r, i') \<longrightarrow> non_blocking A i' = non_blocking A i)
     \<and> (\<forall>i bufs ep fl. non_blocking A i \<longrightarrow> asio_send_to A bufs ep fl i \<noteq> None)"

text \<open>What a multiplexer does with its socket over time.\<close>

inductive wrapper_used :: "'i asio_socket \<Rightarrow> 'i udp_socket_wrapper \<Rightarrow> bool" for A where
  construct: "wrapper_used A (new_wrapper A i)"
| cancel: "wrapper_used A x \<Longrightarrow> wrapper_used A (snd (wrapper_cancel A x))"
| receive: "wrapper_used A x \<Longrightarrow> wrapper_used A (wrapper_async_receive_from A bufs sender h x)"
| send: "wrapper_used A x \<Longrightarrow> wrapper_used A (wrapper_async_send_to A bufs receiver h x)"
| immediate: "wrapper_used A x \<Longrightarrow> immediate_send_to A bufs receiver flags x = Some (r, x') \<Longrightarrow> wrapper_used A x'"

lemma used_non_blocking:
  assumes "asio_udp_socket A" and "wrapper_used A x"
  shows "non_blocking A (inner x)"
  using assms(2)
proof induction
  case (construct i)
  show ?case using assms(1) by (simp add: new_wrapper_def asio_udp_socket_def)
next
  case (cancel x)
  then show ?case using assms(1) by (simp add: wrapper_cancel_def asio_udp_socket_def split: prod.split) (metis sndI)
next
  case (immediate x bufs receiver flags r x')
  then obtain i where "asio_send_to A bufs receiver flags (inner x) = Some (r, i)" "inner x' = i"
    by (auto simp: immediate_send_to_def split: option.splits)
  then show ?case using assms(1) immediate.IH unfolding asio_udp_socket_def by metis
qed (use assms(1) in \<open>simp_all add: wrapper_async_receive_from_def wrapper_async_send_to_def asio_udp_socket_def\<close>)

text \<open>
  \<open>immediate_send_to\<close> never blocks the thread, whatever was done with the socket since the
  wrapper took it over, even when it was handed over in blocking mode.
\<close>

lemma immediate_send_to_never_blocks:
  assumes "asio_udp_socket A" and "wrapper_used A x"
  shows "\<exists>r x'. immediate_send_to A bufs receiver flags x = Some (r, x') \<and> wrapper_used A x'"
proof -
  obtain r i where i: "asio_send_to A bufs receiver flags (inner x) = Some (r, i)"
    using used_non_blocking [OF assms] assms(1) unfolding asio_udp_socket_def by (metis not_None_eq surj_pair)
  then have "immediate_send_to A bufs receiver flags x = Some (r, x\<lparr>inner := i\<rparr>)"
    by (simp add: immediate_send_to_def)
  with assms(2) show ?thesis by (blast intro: wrapper_used.immediate)
qed

end
