(* ===== verification/Cstrings.thy ===== *)
theory Cstrings
  imports Ids
begin

text \<open>
  The parts of the C++ string library that the example programs use: \<open>find\<close> of a character,
  \<open>find\<close> of a substring, \<open>rfind\<close>, \<open>std::stoi\<close> and \<open>std::atoi\<close> in the C locale with 32-bit \<open>int\<close>.
\<close>

fun find_char :: "char \<Rightarrow> string \<Rightarrow> nat option" where
  "find_char c [] = None"
| "find_char c (x # xs) = (if x = c then Some 0 else map_option Suc (find_char c xs))"

fun contains :: "string \<Rightarrow> string \<Rightarrow> bool" where
  "contains [] p = (p = [])"
| "contains (x # xs) p = (take (length p) (x # xs) = p \<or> contains xs p)"

definition rfind_char :: "char \<Rightarrow> string \<Rightarrow> nat option" where
  "rfind_char c s = map_option (\<lambda>i. length s - 1 - i) (find_char c (rev s))"

text \<open>What \<open>strtol\<close> reads in base 10: white space, a sign, digits; the rest is ignored.\<close>

definition is_space :: "char \<Rightarrow> bool" where
  "is_space c \<longleftrightarrow> (of_char c :: nat) \<in> {9, 10, 11, 12, 13, 32}"

definition is_digit :: "char \<Rightarrow> bool" where
  "is_digit c \<longleftrightarrow> (of_char c :: nat) \<in> {48..<58}"

definition digits_value :: "string \<Rightarrow> nat" where
  "digits_value s = foldl (\<lambda>a c. 10 * a + (of_char c - 48)) 0 s"

definition read_number :: "string \<Rightarrow> int option" where
  "read_number s =
     (let t = dropWhile is_space s;
          (sign, t) = (case t of
             [] \<Rightarrow> (1, t)
           | x # xs \<Rightarrow> if x = CHR ''-'' then (-1, xs) else if x = CHR ''+'' then (1, xs) else (1, t));
          ds = takeWhile is_digit t
      in if ds = [] then None else Some (sign * int (digits_value ds)))"

definition fits_int :: "int \<Rightarrow> bool" where
  "fits_int i \<longleftrightarrow> - (2 ^ 31) \<le> i \<and> i < 2 ^ 31"

definition stoi :: "string \<Rightarrow> int result" where
  "stoi s =
     (case read_number s of
        None \<Rightarrow> Inl (StdException ''invalid_argument'')
      | Some i \<Rightarrow> if fits_int i then Inr i else Inl (StdException ''out_of_range''))"

text \<open>\<open>atoi\<close> of a number that does not fit is undefined: the value is then an argument.\<close>

definition atoi :: "int \<Rightarrow> string \<Rightarrow> int" where
  "atoi undef s =
     (case read_number s of None \<Rightarrow> 0 | Some i \<Rightarrow> if fits_int i then i else undef)"


section \<open>Lemmas\<close>

lemma find_char_first: "c \<notin> set xs \<Longrightarrow> find_char c (xs @ c # ys) = Some (length xs)"
  by (induction xs) auto

lemma find_char_None: "find_char c xs = None \<longleftrightarrow> c \<notin> set xs"
  by (induction xs) auto

lemma find_char_Some:
  "find_char c xs = Some i \<Longrightarrow> i < length xs \<and> xs ! i = c \<and> c \<notin> set (take i xs)"
  by (induction xs arbitrary: i) (auto split: if_splits)

lemma rfind_char_last: "c \<notin> set ys \<Longrightarrow> rfind_char c (xs @ c # ys) = Some (length xs)"
  using find_char_first [of c "rev ys" "rev xs"] by (simp add: rfind_char_def)

lemma rfind_char_None: "rfind_char c xs = None \<longleftrightarrow> c \<notin> set xs"
  by (simp add: rfind_char_def find_char_None)

lemma contains_iff: "contains s p \<longleftrightarrow> (\<exists>xs ys. s = xs @ p @ ys)"
proof (induction s)
  case (Cons x s)
  have "(\<exists>xs ys. x # s = xs @ p @ ys) \<longleftrightarrow> (\<exists>ys. x # s = p @ ys) \<or> (\<exists>xs ys. s = xs @ p @ ys)"
    by (metis append_Cons append_Nil list.exhaust list.inject)
  moreover have "(\<exists>ys. x # s = p @ ys) \<longleftrightarrow> take (length p) (x # s) = p"
    by (metis append_eq_conv_conj append_take_drop_id)
  ultimately show ?case using Cons by simp
qed simp

lemma is_digit_decimal: "c \<in> set (decimal n) \<Longrightarrow> is_digit c"
proof -
  assume "c \<in> set (decimal n)"
  then obtain k :: nat where "k \<in> {48..<58}" "c = char_of k" using decimal_digits by blast
  then show "is_digit c" by (auto simp: is_digit_def)
qed

lemma read_number_decimal:
  assumes "rest = [] \<or> \<not> is_digit (hd rest)"
  shows "read_number (decimal n @ rest) = Some (int n)"
proof -
  obtain x xs where x: "decimal n = x # xs" using decimal_nonempty by (cases "decimal n") auto
  have "is_digit x" using is_digit_decimal [of x n] x by simp
  then have "\<not> is_space x" "x \<noteq> CHR ''-''" "x \<noteq> CHR ''+''" by (auto simp: is_digit_def is_space_def)
  moreover have "takeWhile is_digit (decimal n @ rest) = decimal n"
    using assms is_digit_decimal [of _ n] by (cases rest) (auto simp: takeWhile_append2)
  ultimately show ?thesis
    using x decimal_value [of n] by (simp add: read_number_def digits_value_def)
qed

end
