(* ===== verification/Http_Server.thy ===== *)
theory Http_Server
  imports Cstrings Sockaddr
begin

text \<open>
  The HTTP server of \<open>src/example/http/http_server_coro.cpp\<close>, the part that answers requests; its
  loop over incoming connections is in the theory Http_Listen. Boost.Beast is not part of the
  sources: what the server asks of it is the record \<open>beast\<close> of functions, an argument. The file
  system is the function \<open>fs\<close> of the state, which a session finds unchanged, and \<open>opened\<close> the paths the
  server opened, so far. A request target has no null character: Beast's parser refuses it.
\<close>

section \<open>Requests and responses\<close>

datatype verb = verb_get | verb_head | other_verb nat

record request =
  req_method :: verb
  req_target :: string
  req_version :: nat
  req_keep_alive :: bool

datatype status = status_ok | status_bad_request | status_not_found | status_internal_server_error

datatype body = string_body string | empty_body | file_body "byte list"

record response =
  res_status :: status
  res_version :: nat
  res_server :: string
  res_content_type :: string
  res_content_length :: "nat option"
  res_keep_alive :: bool
  res_body :: body

record beast =
  iequals :: "string \<Rightarrow> string \<Rightarrow> bool"
  version_string :: string
  prepare_payload :: "response \<Rightarrow> response"
  need_eof :: "response \<Rightarrow> bool"
  ec_message :: "error_code \<Rightarrow> string"

datatype open_result = opened_file "byte list" | open_failed error_code

record http_world =
  fs :: "string \<Rightarrow> open_result"
  opened :: "string list"

text \<open>\<open>beast::errc::no_such_file_or_directory\<close>, \<open>ENOENT\<close>.\<close>

definition no_such_file :: error_code where
  "no_such_file = other_error 2"


section \<open>Helpers\<close>

definition file_extension :: "string \<Rightarrow> string" where
  "file_extension path =
     (case rfind_char (CHR ''.'') path of None \<Rightarrow> [] | Some pos \<Rightarrow> drop pos path)"

definition mime_types :: "(string \<times> string) list" where
  "mime_types =
     [(''.htm'', ''text/html''), (''.html'', ''text/html''), (''.php'', ''text/html''),
      (''.css'', ''text/css''), (''.txt'', ''text/plain''), (''.js'', ''application/javascript''),
      (''.json'', ''application/json''), (''.xml'', ''application/xml''),
      (''.swf'', ''application/x-shockwave-flash''), (''.flv'', ''video/x-flv''),
      (''.png'', ''image/png''), (''.jpe'', ''image/jpeg''), (''.jpeg'', ''image/jpeg''),
      (''.jpg'', ''image/jpeg''), (''.gif'', ''image/gif''), (''.bmp'', ''image/bmp''),
      (''.ico'', ''image/vnd.microsoft.icon''), (''.tiff'', ''image/tiff''), (''.tif'', ''image/tiff''),
      (''.svg'', ''image/svg+xml''), (''.svgz'', ''image/svg+xml'')]"

definition mime_type :: "beast \<Rightarrow> string \<Rightarrow> string" where
  "mime_type B path =
     (case find (\<lambda>(e, t). iequals B (file_extension path) e) mime_types of
        None \<Rightarrow> ''application/text''
      | Some (e, t) \<Rightarrow> t)"

text \<open>\<open>path_cat\<close>, compiled by a compiler other than Microsoft's.\<close>

definition path_cat :: "string \<Rightarrow> string \<Rightarrow> string" where
  "path_cat base path =
     (if base = [] then path
      else (if last base = CHR ''/'' then butlast base else base) @ path)"


section \<open>Answering a request\<close>

definition text_response :: "beast \<Rightarrow> request \<Rightarrow> status \<Rightarrow> string \<Rightarrow> response" where
  "text_response B req st text =
     prepare_payload B
       \<lparr>res_status = st, res_version = req_version req, res_server = version_string B,
        res_content_type = ''text/html'', res_content_length = None,
        res_keep_alive = req_keep_alive req, res_body = string_body text\<rparr>"

definition bad_request :: "beast \<Rightarrow> request \<Rightarrow> string \<Rightarrow> response" where
  "bad_request B req why = text_response B req status_bad_request why"

definition not_found :: "beast \<Rightarrow> request \<Rightarrow> string \<Rightarrow> response" where
  "not_found B req target =
     text_response B req status_not_found (''The resource '' @ [CHR 0x27] @ target @ [CHR 0x27] @ '' was not found.'')"

definition server_error :: "beast \<Rightarrow> request \<Rightarrow> string \<Rightarrow> response" where
  "server_error B req what =
     text_response B req status_internal_server_error (''An error occurred: '' @ [CHR 0x27] @ what @ [CHR 0x27])"

definition file_response :: "beast \<Rightarrow> request \<Rightarrow> string \<Rightarrow> byte list \<Rightarrow> response" where
  "file_response B req path contents =
     \<lparr>res_status = status_ok, res_version = req_version req, res_server = version_string B,
      res_content_type = mime_type B path, res_content_length = Some (length contents),
      res_keep_alive = req_keep_alive req,
      res_body = (if req_method req = verb_head then empty_body else file_body contents)\<rparr>"

definition requested_path :: "string \<Rightarrow> request \<Rightarrow> string" where
  "requested_path doc_root req =
     path_cat doc_root (req_target req) @ (if last (req_target req) = CHR ''/'' then ''index.html'' else [])"

definition handle_request ::
  "beast \<Rightarrow> string \<Rightarrow> request \<Rightarrow> (response \<Rightarrow> 'a http_world_scheme \<Rightarrow> 'b)
     \<Rightarrow> 'a http_world_scheme \<Rightarrow> 'b" where
  "handle_request B doc_root req send w =
     (if req_method req \<noteq> verb_get \<and> req_method req \<noteq> verb_head
      then send (bad_request B req ''Unknown HTTP-method'') w
      else if req_target req = [] \<or> hd (req_target req) \<noteq> CHR ''/'' \<or> contains (req_target req) ''..''
      then send (bad_request B req ''Illegal request-target'') w
      else
        let path = requested_path doc_root req;
            w = w\<lparr>opened := opened w @ [path]\<rparr>
        in case fs w path of
             open_failed ec \<Rightarrow>
               if ec = no_such_file then send (not_found B req (req_target req)) w
               else send (server_error B req (ec_message B ec)) w
           | opened_file contents \<Rightarrow> send (file_response B req path contents) w)"


section \<open>A session\<close>

text \<open>
  \<open>do_session\<close> reads requests until the stream ends. What a read and the write of the response
  end with comes from the connection: a list of outcomes, the coroutine is suspended at its end.
  \<open>sent\<close> are the messages handed to \<open>async_write\<close>.
\<close>

datatype read_outcome = got_request request | end_of_stream | read_failed error_code

datatype session_end =
    suspended                      \<comment> \<open>in \<open>async_read\<close>\<close>
  | closed_gracefully              \<comment> \<open>after \<open>socket.close()\<close>\<close>
  | failed error_code string       \<comment> \<open>\<open>fail(ec, what)\<close>, then return\<close>

record session_world = http_world +
  close_after :: bool              \<comment> \<open>the local variable \<open>close\<close>\<close>
  sent :: "response list"

definition send_lambda :: "beast \<Rightarrow> response \<Rightarrow> session_world \<Rightarrow> session_world" where
  "send_lambda B msg w = w\<lparr>close_after := need_eof B msg, sent := sent w @ [msg]\<rparr>"

fun do_session ::
  "beast \<Rightarrow> string \<Rightarrow> (read_outcome \<times> error_code) list \<Rightarrow> session_world \<Rightarrow> session_end \<times> session_world" where
  "do_session B doc_root [] w = (suspended, w)"
| "do_session B doc_root ((r, write_ec) # outcomes) w =
     (case r of
        end_of_stream \<Rightarrow> (closed_gracefully, w)
      | read_failed ec \<Rightarrow> (failed ec ''read'', w)
      | got_request req \<Rightarrow>
          let w = handle_request B doc_root req (send_lambda B) w
          in if write_ec \<noteq> no_error then (failed write_ec ''write'', w)
             else if close_after w then (closed_gracefully, w)
             else do_session B doc_root outcomes w)"


section \<open>Command line\<close>

datatype server_start =
    server_usage
  | serve address "16 word" string nat      \<comment> \<open>address, port, document root, threads\<close>

definition http_server_main ::
  "(string \<Rightarrow> address result) \<Rightarrow> int \<Rightarrow> string list \<Rightarrow> server_start result" where
  "http_server_main make_address undef argv =
     (if length argv \<noteq> 5 then Inr server_usage
      else
        and_then (make_address (argv ! 1)) (\<lambda>a.
          Inr (serve a (word_of_int (atoi undef (argv ! 2))) (argv ! 3) (nat (max 1 (atoi undef (argv ! 4)))))))"


section \<open>Which files are opened\<close>

lemma contains_append_pair:
  "contains (xs @ ys) [a, b] \<longleftrightarrow> contains xs [a, b] \<or> contains ys [a, b]
     \<or> (xs \<noteq> [] \<and> ys \<noteq> [] \<and> last xs = a \<and> hd ys = b)"
proof (induction xs)
  case (Cons x xs)
  then show ?case by (cases xs; cases ys) auto
qed simp

definition doc_base :: "string \<Rightarrow> string" where
  "doc_base doc_root = (if last doc_root = CHR ''/'' then butlast doc_root else doc_root)"

text \<open>A path below the document root: it starts there and never leaves it through \<open>..\<close>.\<close>

definition below :: "string \<Rightarrow> string \<Rightarrow> bool" where
  "below doc_root path \<longleftrightarrow>
     (\<exists>rest. path = doc_base doc_root @ CHR ''/'' # rest \<and> \<not> contains (CHR ''/'' # rest) ''..'')"

lemma requested_path_below:
  assumes "doc_root \<noteq> []" and "req_target req \<noteq> []" and "hd (req_target req) = CHR ''/''"
    and "\<not> contains (req_target req) ''..''"
  shows "below doc_root (requested_path doc_root req)"
proof -
  let ?rest = "req_target req @ (if last (req_target req) = CHR ''/'' then ''index.html'' else [])"
  have "requested_path doc_root req = doc_base doc_root @ ?rest"
    using assms(1) by (simp add: requested_path_def path_cat_def doc_base_def)
  moreover have "\<not> contains ''index.html'' ''..''" by code_simp
  then have "\<not> contains ?rest ''..''" using assms(2,4) by (simp add: contains_append_pair del: contains.simps(2))
  moreover obtain t where "req_target req = CHR ''/'' # t" using assms(2,3) by (cases "req_target req") auto
  ultimately show ?thesis unfolding below_def by (intro exI [of _ "tl ?rest"]) auto
qed

lemma handle_request_opens:
  assumes "doc_root \<noteq> []"
  shows "\<exists>ps msg. handle_request B doc_root req send w = send msg (w\<lparr>opened := opened w @ ps\<rparr>)
    \<and> list_all (below doc_root) ps"
proof (cases "req_method req \<noteq> verb_get \<and> req_method req \<noteq> verb_head
    \<or> req_target req = [] \<or> hd (req_target req) \<noteq> CHR ''/'' \<or> contains (req_target req) ''..''")
  case True
  then show ?thesis
    by (intro exI [of _ "[]"]) (auto simp: handle_request_def)
next
  case False
  then have "below doc_root (requested_path doc_root req)" using requested_path_below [OF assms] by blast
  with False show ?thesis
    by (intro exI [of _ "[requested_path doc_root req]"])
       (auto simp: handle_request_def Let_def split: open_result.split)
qed

text \<open>
  (C21) Whatever requests arrive in a session, the server opens only files below its document
  root: every path it opens is the document root, a slash and a path that never contains two
  dots in a row, so no request reaches a file outside (for a document root that is not empty).
\<close>

theorem session_stays_in_doc_root:
  assumes "doc_root \<noteq> []" and "do_session B doc_root outcomes w = (e, w')"
  shows "\<exists>ps. opened w' = opened w @ ps \<and> list_all (below doc_root) ps"
  using assms(2)
proof (induction outcomes arbitrary: w)
  case (Cons o' outcomes)
  obtain r write_ec where o: "o' = (r, write_ec)" by (cases o')
  show ?case
  proof (cases r)
    case (got_request req)
    obtain ps msg where h: "handle_request B doc_root req (send_lambda B) w
        = send_lambda B msg (w\<lparr>opened := opened w @ ps\<rparr>)" and ps: "list_all (below doc_root) ps"
      using handle_request_opens [OF assms(1)] by blast
    let ?w = "send_lambda B msg (w\<lparr>opened := opened w @ ps\<rparr>)"
    have w1: "opened ?w = opened w @ ps" by (simp add: send_lambda_def)
    from Cons.prems consider "w' = ?w" | "do_session B doc_root outcomes ?w = (e, w')"
      by (auto simp: o got_request h Let_def split: if_splits)
    then show ?thesis
    proof cases
      case 2
      from Cons.IH [OF this] w1 obtain qs where "opened w' = opened w @ ps @ qs" "list_all (below doc_root) qs"
        by auto
      with ps show ?thesis by (intro exI [of _ "ps @ qs"]) simp
    qed (use w1 ps in auto)
  qed (use Cons.prems o in auto)
qed simp

definition plain_beast :: beast where
  "plain_beast = \<lparr>iequals = (=), version_string = ''Boost.Beast'', prepare_payload = id,
     need_eof = (\<lambda>r. \<not> res_keep_alive r), ec_message = (\<lambda>ec. ''error'')\<rparr>"

definition sample_request :: "string \<Rightarrow> bool \<Rightarrow> request" where
  "sample_request target ka =
     \<lparr>req_method = verb_get, req_target = target, req_version = 11, req_keep_alive = ka\<rparr>"

definition sample_session :: session_world where
  "sample_session = \<lparr>fs = (\<lambda>p. if p = ''/www/index.html'' then opened_file [1, 2] else open_failed no_such_file),
     opened = [], close_after = False, sent = []\<rparr>"

theorem session_stays_in_doc_root_witness:
  "\<exists>e w'. do_session plain_beast ''/www/''
       [(got_request (sample_request ''/../etc/passwd'' True), no_error),
        (got_request (sample_request ''/'' False), no_error)] sample_session = (e, w')
    \<and> opened w' = [''/www/index.html''] \<and> list_all (below ''/www/'') [''/www/index.html'']"
proof -
  let ?os = "[(got_request (sample_request ''/../etc/passwd'' True), no_error),
        (got_request (sample_request ''/'' False), no_error)]"
  obtain e w' where r: "do_session plain_beast ''/www/'' ?os sample_session = (e, w')" by (metis surj_pair)
  then have "opened w' = [''/www/index.html'']"
    by (auto simp: handle_request_def send_lambda_def sample_request_def sample_session_def plain_beast_def
        bad_request_def text_response_def requested_path_def path_cat_def file_response_def Let_def)
  moreover have "\<exists>ps. opened w' = opened sample_session @ ps \<and> list_all (below ''/www/'') ps"
    by (rule session_stays_in_doc_root [OF _ r]) simp
  ultimately show ?thesis using r by (auto simp: sample_session_def)
qed


section \<open>What is answered\<close>

text \<open>The answer to a request, a function of the request and the file system.\<close>

definition answer :: "beast \<Rightarrow> string \<Rightarrow> (string \<Rightarrow> open_result) \<Rightarrow> request \<Rightarrow> response" where
  "answer B doc_root files req = handle_request B doc_root req (\<lambda>msg w. msg) \<lparr>fs = files, opened = []\<rparr>"

lemma handle_request_answer:
  "\<exists>ps. handle_request B doc_root req send w = send (answer B doc_root (fs w) req) (w\<lparr>opened := opened w @ ps\<rparr>)"
proof (cases "req_method req \<noteq> verb_get \<and> req_method req \<noteq> verb_head
    \<or> req_target req = [] \<or> hd (req_target req) \<noteq> CHR ''/'' \<or> contains (req_target req) ''..''")
  case True
  then show ?thesis by (intro exI [of _ "[]"]) (auto simp: handle_request_def answer_def)
next
  case False
  then show ?thesis
    by (intro exI [of _ "[requested_path doc_root req]"])
       (auto simp: handle_request_def answer_def Let_def split: open_result.split)
qed

text \<open>The requests a session answers: up to the first write that fails or response that ends the connection.\<close>

fun answered :: "(request \<Rightarrow> response) \<Rightarrow> beast \<Rightarrow> (read_outcome \<times> error_code) list \<Rightarrow> request list" where
  "answered ans B ((got_request req, write_ec) # os) =
     req # (if write_ec \<noteq> no_error \<or> need_eof B (ans req) then [] else answered ans B os)"
| "answered ans B os = []"

text \<open>
  (C22) A session answers the requests in the order they arrive, each with exactly one response,
  the one its contents and the file system determine, and goes on until a write fails, a
  response ends the connection, or reading ends. It is suspended only when every outcome so far
  was a request that was answered and did not end the connection.
\<close>

theorem session_answers_in_order:
  assumes "do_session B doc_root outcomes w = (e, w')"
  shows "sent w' = sent w @ map (answer B doc_root (fs w)) (answered (answer B doc_root (fs w)) B outcomes)
    \<and> (e = suspended \<longrightarrow> length (answered (answer B doc_root (fs w)) B outcomes) = length outcomes)"
  using assms
proof (induction outcomes arbitrary: w)
  case (Cons o' outcomes)
  obtain r write_ec where o: "o' = (r, write_ec)" by (cases o')
  show ?case
  proof (cases r)
    case (got_request req)
    let ?msg = "answer B doc_root (fs w) req"
    obtain ps where h: "handle_request B doc_root req (send_lambda B) w
        = send_lambda B ?msg (w\<lparr>opened := opened w @ ps\<rparr>)"
      using handle_request_answer [of B doc_root req "send_lambda B" w] by blast
    define w1 where "w1 = send_lambda B ?msg (w\<lparr>opened := opened w @ ps\<rparr>)"
    have w1: "fs w1 = fs w" "sent w1 = sent w @ [?msg]" "close_after w1 = need_eof B ?msg"
      by (simp_all add: w1_def send_lambda_def)
    show ?thesis
    proof (cases "write_ec \<noteq> no_error \<or> need_eof B ?msg")
      case True
      with Cons.prems w1 show ?thesis
        by (auto simp: o got_request h Let_def simp flip: w1_def split: if_splits)
    next
      case False
      with Cons.prems w1 have "do_session B doc_root outcomes w1 = (e, w')"
        by (auto simp: o got_request h Let_def simp flip: w1_def)
      from Cons.IH [OF this] False w1 show ?thesis by (simp add: o got_request)
    qed
  qed (use Cons.prems o in auto)
qed simp

theorem session_answers_in_order_witness:
  "\<exists>e w'. do_session plain_beast ''/www/'' [(got_request (sample_request ''/'' False), no_error)] sample_session
      = (e, w') \<and> map res_status (sent w') = [status_ok] \<and> map res_content_length (sent w') = [Some 2]"
proof -
  let ?os = "[(got_request (sample_request ''/'' False), no_error)]"
  let ?ans = "answer plain_beast ''/www/'' (fs sample_session)"
  obtain e w' where r: "do_session plain_beast ''/www/'' ?os sample_session = (e, w')" by (metis surj_pair)
  have "res_status (?ans (sample_request ''/'' False)) = status_ok"
    "res_content_length (?ans (sample_request ''/'' False)) = Some 2"
    by (simp_all add: answer_def handle_request_def sample_request_def sample_session_def requested_path_def
        path_cat_def file_response_def Let_def)
  with session_answers_in_order [OF r] r show ?thesis by (auto simp: sample_session_def)
qed

text \<open>A \<open>HEAD\<close> request is answered like the \<open>GET\<close> request for the same target, without the body of a file.\<close>

lemma head_is_get_without_body:
  assumes "res_status (answer B doc_root files (req\<lparr>req_method := verb_get\<rparr>)) = status_ok"
    and "\<And>r. res_status (prepare_payload B r) = res_status r"
  shows "answer B doc_root files (req\<lparr>req_method := verb_head\<rparr>)
    = (answer B doc_root files (req\<lparr>req_method := verb_get\<rparr>))\<lparr>res_body := empty_body\<rparr>"
  using assms
  by (auto simp: answer_def handle_request_def bad_request_def not_found_def server_error_def text_response_def
      file_response_def requested_path_def Let_def split: if_splits open_result.splits)

end
