(* ===== verification/Http_Listen.thy ===== *)
theory Http_Listen
  imports Samples Frontend Frames Http_Server
begin

text \<open>
  The accept loop of \<open>src/example/http/http_server_coro.cpp\<close> over the library: \<open>do_listen\<close> binds a
  new socket, accepts one connection with it and hands it to a session. The variable \<open>ec\<close> lives
  across the rounds of the loop. \<open>fr\<close> is the socket object of the loop, \<open>sess\<close> the one inside the
  function object given to \<open>spawn\<close>, \<open>f\<close> the completion that resumes the coroutine; what \<open>fail\<close>
  reports is a list of errors with their texts.
\<close>

type_synonym reports = "(error_code \<times> string) list"

definition report :: "error_code \<Rightarrow> string \<Rightarrow> reports" where
  "report ec what = (if ec \<noteq> no_error then [(ec, what)] else [])"

text \<open>
  A round up to the suspension in \<open>async_accept\<close>, and the rest of it, from the resumption with \<open>ec\<close>
  to the end of the body, where \<open>socket\<close> is destroyed.
\<close>

definition listen_round ::
  "('a sock_world_scheme) env \<Rightarrow> nat \<Rightarrow> nat \<Rightarrow> nat \<Rightarrow> endpoint \<Rightarrow> user_fn \<Rightarrow> error_code
     \<Rightarrow> 'a sock_world_scheme \<Rightarrow> (reports \<times> 'a sock_world_scheme) result" where
  "listen_round E fr s m ep f ec w =
     and_then (socket_bind E fr s m ep ec w) (\<lambda>(ec, w).
     and_then (async_accept fr f w) (\<lambda>w. Inr (report ec ''bind'', w)))"

definition listen_accepted ::
  "('a sock_world_scheme) env \<Rightarrow> nat \<Rightarrow> nat \<Rightarrow> error_code
     \<Rightarrow> 'a sock_world_scheme \<Rightarrow> ((reports \<times> nat list) \<times> 'a sock_world_scheme) result" where
  "listen_accepted E fr sess ec w =
     (if ec \<noteq> no_error then
        and_then (socket_destroy E fr w) (\<lambda>w. Inr ((report ec ''accept'', []), w))
      else
        and_then (socket_move_construct sess fr w) (\<lambda>w.
        and_then (socket_destroy E fr w) (\<lambda>w. Inr (([], [sess]), w))))"

text \<open>What the completion of an accept runs: the end of one round and the beginning of the next.\<close>

definition listen_resume ::
  "('a sock_world_scheme) env \<Rightarrow> nat \<Rightarrow> nat \<Rightarrow> nat \<Rightarrow> endpoint \<Rightarrow> user_fn \<Rightarrow> nat \<Rightarrow> error_code
     \<Rightarrow> 'a sock_world_scheme \<Rightarrow> ((reports \<times> nat list) \<times> 'a sock_world_scheme) result" where
  "listen_resume E fr s m ep f sess ec w =
     and_then (listen_accepted E fr sess ec w) (\<lambda>((rs, sp), w).
     and_then (listen_round E fr s m ep f ec w) (\<lambda>(rs', w). Inr ((rs @ rs', sp), w)))"

text \<open>
  The loop from a suspension on, over \<open>k\<close> rounds: the executor runs the oldest posted function, as
  \<open>run_posted\<close> does, as long as it is the completion of the accept. Sessions, new \<open>socket_impl\<close>s and new
  multiplexers get a number of their own in every round.
\<close>

primrec do_listen ::
  "('a sock_world_scheme) env \<Rightarrow> nat \<Rightarrow> nat \<Rightarrow> nat \<Rightarrow> endpoint \<Rightarrow> user_fn \<Rightarrow> nat \<Rightarrow> nat
     \<Rightarrow> 'a sock_world_scheme \<Rightarrow> ((reports \<times> nat list) \<times> 'a sock_world_scheme) result" where
  "do_listen E fr s m ep f sess 0 w = Inr (([], []), w)"
| "do_listen E fr s m ep f sess (Suc k) w =
     (case posted w of
        [] \<Rightarrow> Inr (([], []), w)
      | x # xs \<Rightarrow>
          if work_fn x \<noteq> f then Inr (([], []), w)
          else
            and_then (listen_resume E fr (s + k) (m + k) ep f (sess + k) (work_ec x) (w\<lparr>posted := xs\<rparr>))
              (\<lambda>((rs, sp), w).
            and_then (case work_after x of None \<Rightarrow> Inr w | Some h \<Rightarrow> run_after E h w) (\<lambda>w.
            and_then (do_listen E fr s m ep f sess k w) (\<lambda>((rs', sps), w).
              Inr ((rs @ rs', sp @ sps), w)))))"


text \<open>
  The same as a program of the user's (theory Programs): what is proved of every user program
  holds for the server.
\<close>

definition listen_prog ::
  "nat \<Rightarrow> nat \<Rightarrow> nat \<Rightarrow> endpoint \<Rightarrow> user_fn \<Rightarrow> nat \<Rightarrow> error_code \<Rightarrow> 'w prog" where
  "listen_prog fr s m ep f sess ec =
     calls_of ((if ec \<noteq> no_error then [] else [Socket_move_construct sess fr])
       @ [Socket_destroy fr, Socket_bind fr s m ep ec, Async_accept fr f])"

lemma listen_resume_is_prog:
  "drop_value (listen_resume E fr s m ep f sess ec) w = run_prog E (listen_prog fr s m ep f sess ec) w"
  by (simp add: drop_value_def listen_resume_def listen_accepted_def listen_round_def listen_prog_def
      split_def cong: and_then_cong)


section \<open>An accept that fails\<close>

lemma destroy_new: "fronts w fr = new_socket \<Longrightarrow> socket_destroy E fr w = Inr w"
  by (simp add: socket_destroy_def socket_close_def set_multiplexer_def new_socket_def upd_front_def fun_upd_idem)

text \<open>
  The socket of the loop: not bound, or still bound to the \<open>socket_impl\<close> on which the accept
  failed, which is closed. Besides it the multiplexer \<open>m\<close> has \<open>n\<close> users, the sessions.
\<close>

definition listen_failed :: "nat \<Rightarrow> endpoint \<Rightarrow> nat \<Rightarrow> nat \<Rightarrow> 'a sock_world_scheme \<Rightarrow> bool" where
  "listen_failed fr ep m n w \<longleftrightarrow> multiplexers w ep = Some m
     \<and> (fronts w fr = new_socket \<and> life (muxes w m) = shared_by n
        \<or> (\<exists>i. fronts w fr = \<lparr>impl = Some i, multiplexer = Some m\<rparr> \<and> closed (socks w i))
          \<and> life (muxes w m) = shared_by (Suc n))"

lemma destroy_failed:
  assumes "listen_failed fr ep m n w" and "1 \<le> n"
  obtains v where "socket_destroy E fr w = Inr v" and "fronts v fr = new_socket" and "multiplexers v = multiplexers w"
    and "life (muxes v m) = shared_by n" and "posted v = posted w"
proof (cases "fronts w fr = new_socket")
  case True
  with assms have "life (muxes w m) = shared_by n" by (auto simp: listen_failed_def new_socket_def)
  with True show thesis using that [OF destroy_new [OF True]] by simp
next
  case False
  with assms(1) obtain i where i: "fronts w fr = \<lparr>impl = Some i, multiplexer = Some m\<rparr>" "closed (socks w i)"
    "life (muxes w m) = shared_by (Suc n)"
    by (auto simp: listen_failed_def)
  let ?w = "upd_front fr (\<lambda>f. f\<lparr>multiplexer := None\<rparr>) (upd_front fr (\<lambda>f. f\<lparr>impl := None\<rparr>) w)"
  have "mux_drop E m ?w = Inr (upd_mux m drop_ref ?w)"
    using i(3) assms(2) by (simp add: mux_drop_def Let_def alive_def upd_mux_def drop_ref_def upd_front_def)
  then have "socket_destroy E fr w = Inr (upd_mux m drop_ref ?w)"
    using i(1,2) by (simp add: socket_destroy_def socket_close_def is_open_def set_multiplexer_def Let_def
        upd_front_def upd_mux_def fun_upd_idem)
  then show thesis
    by (rule that) (use i assms(2) in \<open>simp_all add: new_socket_def upd_front_def upd_mux_def drop_ref_def\<close>)
qed

lemma failed_round:
  assumes "listen_failed fr ep m n w" and "1 \<le> n" and "ec \<noteq> no_error"
  obtains v where "listen_resume E fr s m' ep f sess ec w = Inr (([(ec, ''accept''), (ec, ''bind'')], []), v)"
    and "fronts v fr = new_socket" and "multiplexers v = multiplexers w" and "life (muxes v m) = shared_by n"
    and "posted v = posted w @ [Work f bad_descriptor [] None]"
proof -
  obtain v where v: "socket_destroy E fr w = Inr v" "fronts v fr = new_socket" "multiplexers v = multiplexers w"
    "life (muxes v m) = shared_by n" "posted v = posted w"
    using assms(1,2) by (rule destroy_failed)
  have "listen_round E fr s m' ep f ec v
      = Inr ([(ec, ''bind'')], v\<lparr>posted := posted v @ [Work f bad_descriptor [] None]\<rparr>)"
    using bind_keeps_stale_error [of v fr ep m n ec E s m'] v assms
    by (simp add: listen_round_def report_def async_accept_def socket_do_accept_def new_handler_def new_socket_def
        listen_failed_def)
  moreover have "listen_accepted E fr sess ec w = Inr (([(ec, ''accept'')], []), v)"
    using v(1) assms(3) by (simp add: listen_accepted_def report_def)
  ultimately show thesis
    by (intro that [of "v\<lparr>posted := posted v @ [Work f bad_descriptor [] None]\<rparr>"])
       (simp_all add: listen_resume_def v)
qed

text \<open>The hook of the failed accept, when cancelling receives of the UDP socket works.\<close>

lemma hook_returns:
  fixes w :: "'a udp_world_scheme"
  assumes "\<And>m v. udp_cancel E m v = no_error"
  obtains v where "(case h of None \<Rightarrow> Inr w | Some k \<Rightarrow> run_after E k w) = Inr v" and "fronts v = fronts w"
    and "multiplexers v = multiplexers w" and "\<And>m. life (muxes v m) = life (muxes w m)" and "posted v = posted w"
proof (cases h)
  case (Some k)
  obtain c where c: "k = decrement_of c" by (cases k)
  have "\<exists>v. ctx_stop_receiving E c w = Inr v" for w :: "'a udp_world_scheme"
    by (auto simp: ctx_stop_receiving_def ctx_ticker_stop_def entry_unlink_def on_recv_entry_unlinked_def guarded_def
        assms split: option.split)
  then have "\<exists>v. decrement_outstanding_ops E c w = Inr v" by (simp add: decrement_outstanding_ops_def Let_def)
  then obtain v where v: "decrement_outstanding_ops E c w = Inr v" by blast
  then show thesis
    using decrement_effect [OF v] Some c by (intro that [of v]) (simp_all add: run_after_def rest_same_def)
qed (auto intro: that)

text \<open>One turn of the loop after a failure, whatever else is queued.\<close>

lemma listen_turn:
  fixes w :: "'a udp_world_scheme"
  assumes "listen_failed fr ep m n w" and "1 \<le> n" and "ec \<noteq> no_error"
    and "posted w = Work f ec [] h # xs" and cancel: "\<And>m v. udp_cancel E m v = no_error"
  obtains w1 where "do_listen E fr s m' ep f sess (Suc k) w = and_then (do_listen E fr s m' ep f sess k w1)
        (\<lambda>((rs, sps), w). Inr (((ec, ''accept'') # (ec, ''bind'') # rs, sps), w))"
    and "listen_failed fr ep m n w1" and "posted w1 = xs @ [Work f bad_descriptor [] None]"
proof -
  have "listen_failed fr ep m n (w\<lparr>posted := xs\<rparr>)" using assms(1) by (simp add: listen_failed_def)
  from failed_round [OF this assms(2,3), of E "s + k" "m' + k" f "sess + k"] obtain v where
    v: "listen_resume E fr (s + k) (m' + k) ep f (sess + k) ec (w\<lparr>posted := xs\<rparr>)
      = Inr (([(ec, ''accept''), (ec, ''bind'')], []), v)"
    "fronts v fr = new_socket" "multiplexers v = multiplexers w" "life (muxes v m) = shared_by n"
    "posted v = xs @ [Work f bad_descriptor [] None]"
    by auto
  obtain u where u: "(case h of None \<Rightarrow> Inr v | Some k \<Rightarrow> run_after E k v) = Inr u" "fronts u = fronts v"
    "multiplexers u = multiplexers v" "life (muxes u m) = life (muxes v m)" "posted u = posted v"
    using hook_returns [OF cancel, where h = h and w = v] by metis
  have "do_listen E fr s m' ep f sess (Suc k) w = and_then (do_listen E fr s m' ep f sess k u)
        (\<lambda>((rs, sps), w). Inr (((ec, ''accept'') # (ec, ''bind'') # rs, sps), w))"
    using v(1) u(1) assms(4) by simp
  then show thesis by (rule that) (use v u assms(1) in \<open>simp_all add: listen_failed_def\<close>)
qed

lemma listen_spins:
  fixes w :: "'a udp_world_scheme"
  assumes "listen_failed fr ep m n w" and "1 \<le> n" and "ec \<noteq> no_error"
    and "posted w = [Work f ec [] h]" and cancel: "\<And>m v. udp_cancel E m v = no_error"
  shows "\<exists>rs w'. do_listen E fr s m' ep f sess (Suc k) w = Inr ((rs, []), w') \<and> length rs = 2 * Suc k
    \<and> listen_failed fr ep m n w' \<and> posted w' = [Work f bad_descriptor [] None]"
  using assms(1-4)
proof (induction k arbitrary: ec h w)
  case 0
  obtain w1 where "do_listen E fr s m' ep f sess (Suc 0) w = and_then (do_listen E fr s m' ep f sess 0 w1)
        (\<lambda>((rs, sps), w). Inr (((ec, ''accept'') # (ec, ''bind'') # rs, sps), w))"
    "listen_failed fr ep m n w1" "posted w1 = [] @ [Work f bad_descriptor [] None]"
    using listen_turn [OF "0.prems" cancel] by metis
  then show ?case by (intro exI [of _ "[(ec, ''accept''), (ec, ''bind'')]"] exI [of _ w1]) simp
next
  case (Suc k)
  obtain w1 where w1: "do_listen E fr s m' ep f sess (Suc (Suc k)) w = and_then (do_listen E fr s m' ep f sess (Suc k) w1)
        (\<lambda>((rs, sps), w). Inr (((ec, ''accept'') # (ec, ''bind'') # rs, sps), w))"
    "listen_failed fr ep m n w1" "posted w1 = [] @ [Work f bad_descriptor [] None]"
    using listen_turn [OF Suc.prems cancel] by metis
  from Suc.IH [OF w1(2) Suc.prems(2), of bad_descriptor None] w1(3) obtain rs w' where
    "do_listen E fr s m' ep f sess (Suc k) w1 = Inr ((rs, []), w')" "length rs = 2 * Suc k"
    "listen_failed fr ep m n w'" "posted w' = [Work f bad_descriptor [] None]"
    by auto
  with w1(1) show ?case
    by (intro exI [of _ "(ec, ''accept'') # (ec, ''bind'') # rs"] exI [of _ w']) (simp del: do_listen.simps)
qed

text \<open>
  (C28) The server does not recover from a failed accept while the multiplexer of its endpoint
  lives (\<open>n\<close> sessions of earlier connections keep it). When the accept is completed with an error,
  with whatever hook, and the socket of the loop is still bound to the closed \<open>socket_impl\<close> on which
  it failed, or not bound, then the round, whatever else is queued, reports two failures and
  spawns no session: the error left in \<open>ec\<close> makes the next \<open>bind\<close> fail, and the accept on the
  unbound socket posts a completion with \<open>bad_descriptor\<close>, which will find the same situation
  again. When nothing else is queued the loop spins: every number of rounds reports two failures
  each, spawns nothing and ends with the next failure posted. (Cancelling the receives of
  a UDP socket, which the hook may do, succeeds.)
\<close>

theorem listen_never_recovers:
  fixes w :: "'a udp_world_scheme"
  assumes "listen_failed fr ep m n w" and "1 \<le> n" and "ec \<noteq> no_error"
    and "posted w = Work f ec [] h # xs" and "\<And>m v. udp_cancel E m v = no_error"
  shows "(\<exists>w'. do_listen E fr s m' ep f sess 1 w = Inr (([(ec, ''accept''), (ec, ''bind'')], []), w')
        \<and> listen_failed fr ep m n w' \<and> posted w' = xs @ [Work f bad_descriptor [] None])
    \<and> (\<forall>k. xs = [] \<longrightarrow> (\<exists>rs w'. do_listen E fr s m' ep f sess (Suc k) w = Inr ((rs, []), w')
        \<and> length rs = 2 * Suc k \<and> listen_failed fr ep m n w' \<and> posted w' = [Work f bad_descriptor [] None]))"
proof (intro conjI allI impI)
  obtain w1 where "do_listen E fr s m' ep f sess (Suc 0) w = and_then (do_listen E fr s m' ep f sess 0 w1)
        (\<lambda>((rs, sps), w). Inr (((ec, ''accept'') # (ec, ''bind'') # rs, sps), w))"
    "listen_failed fr ep m n w1" "posted w1 = xs @ [Work f bad_descriptor [] None]"
    using listen_turn [OF assms] by metis
  then show "\<exists>w'. do_listen E fr s m' ep f sess 1 w = Inr (([(ec, ''accept''), (ec, ''bind'')], []), w')
        \<and> listen_failed fr ep m n w' \<and> posted w' = xs @ [Work f bad_descriptor [] None]"
    by (intro exI [of _ w1]) simp
  show "\<exists>rs w'. do_listen E fr s m' ep f sess (Suc k) w = Inr ((rs, []), w')
      \<and> length rs = 2 * Suc k \<and> listen_failed fr ep m n w' \<and> posted w' = [Work f bad_descriptor [] None]"
    if "xs = []" for k
    using listen_spins [OF assms(1-3) _ assms(5), of f h] assms(4) that by simp
qed

text \<open>
  Socket 1 of the loop is bound to the closed socket 1, whose accept was aborted; besides it
  socket 0, a session, keeps the multiplexer of \<open>local_ep\<close>.
\<close>

definition aborted_accept :: "nat utp_world" where
  "aborted_accept = sample\<lparr>
     socks := (socks sample)(1 := (new_socket_impl 1 0)\<lparr>closed := True\<rparr>),
     fronts := (fronts sample)(1 := \<lparr>impl = Some 1, multiplexer = Some 0\<rparr>),
     posted := [Work 9 operation_aborted [] (Some (decrement_of 0))]\<rparr>"

theorem listen_never_recovers_witness:
  "\<exists>rs w'. do_listen quiet_env 1 10 20 local_ep 9 30 5 aborted_accept = Inr ((rs, []), w') \<and> length rs = 10
    \<and> posted w' = [Work 9 bad_descriptor [] None]"
proof -
  have "listen_failed 1 local_ep 0 1 aborted_accept"
    "posted aborted_accept = [Work 9 operation_aborted [] (Some (decrement_of 0))]"
    by (simp_all add: listen_failed_def aborted_accept_def sample_simps)
  moreover have "udp_cancel quiet_env m v = no_error" for m and v :: "nat utp_world" by (simp add: quiet_env_def)
  ultimately have "\<exists>rs w'. do_listen quiet_env 1 10 20 local_ep 9 30 (Suc 4) aborted_accept = Inr ((rs, []), w')
      \<and> length rs = 2 * Suc 4 \<and> listen_failed 1 local_ep 0 1 w' \<and> posted w' = [Work 9 bad_descriptor [] None]"
    using listen_never_recovers [of 1 local_ep 0 1 aborted_accept operation_aborted 9 "Some (decrement_of 0)" "[]"
        quiet_env 10 20 30] by blast
  then show ?thesis by (auto simp del: do_listen.simps)
qed

end
