(* ===== verification/Http_Client.thy ===== *)
theory Http_Client
  imports Http_Listen
begin

text \<open>
  The HTTP client of \<open>src/example/http/http_client_coro.cpp\<close>. \<open>do_session\<close> is a coroutine: the model has
  the state it is suspended in, \<open>client_start\<close> for the code up to the first suspension and
  \<open>client_resume\<close> for what each completion runs. \<open>fr\<close> is its socket object and \<open>f\<close> the completion that
  resumes it. The reads and writes of Boost.Beast, which is not part of the sources, are the
  arguments \<open>http_write\<close> and \<open>http_read\<close>.
\<close>

section \<open>A session\<close>

record get_request =
  get_target :: string
  get_version :: nat
  get_host :: string
  get_user_agent :: string

definition client_request :: "beast \<Rightarrow> string \<Rightarrow> string \<Rightarrow> nat \<Rightarrow> get_request" where
  "client_request B host target version =
     \<lparr>get_target = target, get_version = version, get_host = host, get_user_agent = version_string B\<rparr>"

record 'w http_stream =
  http_write :: "get_request \<Rightarrow> user_fn \<Rightarrow> 'w \<Rightarrow> 'w result"
  http_read :: "user_fn \<Rightarrow> 'w \<Rightarrow> 'w result"

datatype client_stage = client_connecting | client_writing | client_reading | client_returned

text \<open>\<open>return fail(ec, what)\<close>: the socket is destroyed.\<close>

definition client_fail ::
  "('a sock_world_scheme) env \<Rightarrow> nat \<Rightarrow> error_code \<Rightarrow> string
     \<Rightarrow> 'a sock_world_scheme \<Rightarrow> ((reports \<times> client_stage) \<times> 'a sock_world_scheme) result" where
  "client_fail E fr ec what w =
     and_then (socket_destroy E fr w) (\<lambda>w. Inr (([(ec, what)], client_returned), w))"

definition any_v4 :: address where
  "any_v4 = address_v4 [0, 0, 0, 0]"

definition client_start ::
  "('a sock_world_scheme) env \<Rightarrow> nat \<Rightarrow> nat \<Rightarrow> nat \<Rightarrow> endpoint \<Rightarrow> user_fn
     \<Rightarrow> 'a sock_world_scheme \<Rightarrow> ((reports \<times> client_stage) \<times> 'a sock_world_scheme) result" where
  "client_start E fr s m ep f w =
     and_then (socket_bind E fr s m \<lparr>ep_address = any_v4, ep_port = 0\<rparr> no_error w) (\<lambda>(ec, w).
       if ec \<noteq> no_error then client_fail E fr ec ''bind'' w
       else and_then (async_connect E fr ep f w) (\<lambda>w. Inr (([], client_connecting), w)))"

text \<open>\<open>beast::errc::not_connected\<close>, \<open>ENOTCONN\<close>.\<close>

definition not_connected :: error_code where
  "not_connected = other_error 107"

text \<open>
  After the response was printed the socket is closed; \<open>ec\<close> is not assigned by the close, so the
  test that follows it sees the value it had after the read.
\<close>

definition client_resume ::
  "('a sock_world_scheme) env \<Rightarrow> ('a sock_world_scheme) http_stream \<Rightarrow> nat \<Rightarrow> get_request \<Rightarrow> user_fn
     \<Rightarrow> client_stage \<Rightarrow> error_code
     \<Rightarrow> 'a sock_world_scheme \<Rightarrow> ((reports \<times> client_stage) \<times> 'a sock_world_scheme) result" where
  "client_resume E H fr req f st ec w =
     (case st of
        client_connecting \<Rightarrow>
          if ec \<noteq> no_error then client_fail E fr ec ''connect'' w
          else and_then (http_write H req f w) (\<lambda>w. Inr (([], client_writing), w))
      | client_writing \<Rightarrow>
          if ec \<noteq> no_error then client_fail E fr ec ''write'' w
          else and_then (http_read H f w) (\<lambda>w. Inr (([], client_reading), w))
      | client_reading \<Rightarrow>
          if ec \<noteq> no_error then client_fail E fr ec ''read'' w
          else
            and_then (socket_close E fr w) (\<lambda>w.
              if ec \<noteq> no_error \<and> ec \<noteq> not_connected then client_fail E fr ec ''shutdown'' w
              else and_then (socket_destroy E fr w) (\<lambda>w. Inr (([], client_returned), w)))
      | client_returned \<Rightarrow> Inr (([], client_returned), w))"

text \<open>The session under the outcomes of its operations, in the order they complete.\<close>

primrec client_session ::
  "('a sock_world_scheme) env \<Rightarrow> ('a sock_world_scheme) http_stream \<Rightarrow> nat \<Rightarrow> get_request \<Rightarrow> user_fn
     \<Rightarrow> error_code list \<Rightarrow> client_stage
     \<Rightarrow> 'a sock_world_scheme \<Rightarrow> ((reports \<times> client_stage) \<times> 'a sock_world_scheme) result" where
  "client_session E H fr req f [] st w = Inr (([], st), w)"
| "client_session E H fr req f (ec # ecs) st w =
     and_then (client_resume E H fr req f st ec w) (\<lambda>((rs, st), w).
     and_then (client_session E H fr req f ecs st w) (\<lambda>((rs', st), w). Inr ((rs @ rs', st), w)))"


section \<open>Command line\<close>

datatype client_command = client_usage | client_get endpoint string string nat

definition http_client_main ::
  "(string \<Rightarrow> address result) \<Rightarrow> string list \<Rightarrow> client_command result" where
  "http_client_main make_address argv =
     (if length argv \<noteq> 5 \<and> length argv \<noteq> 6 then Inr client_usage
      else
        and_then (stoi (argv ! 2)) (\<lambda>port.
        and_then (make_address (argv ! 1)) (\<lambda>a.
          Inr (client_get \<lparr>ep_address = a, ep_port = word_of_int port\<rparr> (argv ! 3) (argv ! 4)
                 (if length argv = 6 \<and> argv ! 5 = ''1.0'' then 10 else 11)))))"


section \<open>Lemmas\<close>

lemma client_returned_stays:
  "client_session E H fr req f ecs client_returned w = Inr (([], client_returned), w)"
  by (induction ecs) (simp_all add: client_resume_def)

text \<open>The name under which \<open>fail\<close> reports the failure of the operation a stage waits for.\<close>

fun stage_name :: "client_stage \<Rightarrow> string" where
  "stage_name client_connecting = ''connect''"
| "stage_name client_writing = ''write''"
| "stage_name client_reading = ''read''"
| "stage_name client_returned = ''''"

fun next_stage :: "client_stage \<Rightarrow> client_stage" where
  "next_stage client_connecting = client_writing"
| "next_stage client_writing = client_reading"
| "next_stage st = client_returned"

lemma client_resume_reports:
  assumes "client_resume E H fr req f st ec w = Inr ((rs, st'), w')" and "st \<noteq> client_returned"
  shows "rs = (if ec = no_error then [] else [(ec, stage_name st)])
    \<and> st' = (if ec = no_error then next_stage st else client_returned)"
  using assms
  by (cases st) (auto simp: client_resume_def client_fail_def and_then_Inr_iff split: if_splits)

text \<open>
  A session reports at most one failure, that of the first operation that fails, and nothing
  after it: the report of a failed shutdown is never made.
\<close>

lemma client_reports_first_failure:
  assumes "client_session E H fr req f ecs st w = Inr ((rs, st'), w')" and "st \<noteq> client_returned"
  shows "(rs = [] \<or> (\<exists>ec what. rs = [(ec, what)] \<and> ec \<noteq> no_error \<and> st' = client_returned
            \<and> what \<in> {''connect'', ''write'', ''read''} \<and> ec \<in> set ecs))"
  using assms
proof (induction ecs arbitrary: st w rs)
  case (Cons ec ecs)
  from Cons.prems(1) obtain rs1 st1 w1 rs2 where
    r: "client_resume E H fr req f st ec w = Inr ((rs1, st1), w1)"
    and s: "client_session E H fr req f ecs st1 w1 = Inr ((rs2, st'), w')" and rs: "rs = rs1 @ rs2"
    by (auto simp: and_then_Inr_iff)
  note one = client_resume_reports [OF r Cons.prems(2)]
  show ?case
  proof (cases "st1 = client_returned")
    case True
    with s have "rs2 = []" "st' = client_returned" by (simp_all add: client_returned_stays)
    then show ?thesis using one rs Cons.prems(2) True by (cases st) (auto split: if_splits)
  next
    case False
    then have "rs1 = []" using one by (auto split: if_splits)
    then show ?thesis using Cons.IH [OF s False] rs by auto
  qed
qed simp

text \<open>
  The first example call of the usage text has one argument too few; the second one is taken as
  \<open><ip> <port> <host> <target>\<close>, with the version as the target.
\<close>

lemma client_usage_examples:
  "http_client_main mk [''http-client-coro'', ''127.0.0.1'', ''80'', ''/''] = Inr client_usage
    \<and> (mk ''127.0.0.1'' = Inr a \<longrightarrow>
        http_client_main mk [''http-client-coro'', ''127.0.0.1'', ''80'', ''/'', ''1.0'']
          = Inr (client_get \<lparr>ep_address = a, ep_port = 80\<rparr> ''/'' ''1.0'' 11))"
proof -
  have "stoi ''80'' = Inr 80" by code_simp
  then show ?thesis by (simp add: http_client_main_def)
qed

end
