(* ===== verification/Ucat.thy ===== *)
theory Ucat
  imports Socket Cstrings
begin

text \<open>
  The example program \<open>ucat\<close>, from \<open>src/example/ucat/ucat.cpp\<close> and \<open>src/example/ucat/block.h\<close>: the
  command line, one direction of the forwarding, and the class \<open>block\<close> on which the main coroutine
  waits. The two directions and the coroutine that waits for them are put together in the theory
  Ucat_Duplex. \<open>boost::asio::ip::make_address\<close> is the argument \<open>make_address\<close>.
\<close>

section \<open>Endpoints\<close>

definition parse_endpoint :: "(string \<Rightarrow> address result) \<Rightarrow> string \<Rightarrow> endpoint result" where
  "parse_endpoint make_address s =
     (case find_char (CHR '':'') s of
        None \<Rightarrow> Inl (StdException ''Failed to parse endpoint'')
      | Some pos \<Rightarrow>
          and_then (make_address (take pos s)) (\<lambda>addr.
            let port = drop (pos + 1) s;
                port = (if port = [] then ''0'' else port)
            in and_then (stoi port) (\<lambda>p. Inr \<lparr>ep_address = addr, ep_port = word_of_int p\<rparr>)))"


section \<open>Forwarding in one direction\<close>

text \<open>
  \<open>half_duplex_forward\<close> is suspended in the read, in the write of the first \<open>n\<close> bytes of its buffer,
  or has returned. \<open>fwd_read\<close> and \<open>fwd_wrote\<close> are what it does when resumed: a read that completes
  with \<open>bs\<close> left these bytes at the beginning of the buffer.
\<close>

datatype fwd_stage = fwd_reading | fwd_writing nat | fwd_returned

record fwd =
  fwd_buffer :: "byte list"
  fwd_stage :: fwd_stage

definition fwd_buffer_size :: nat where
  "fwd_buffer_size = 4 * 1024"

definition new_fwd :: fwd where
  "new_fwd = \<lparr>fwd_buffer = replicate fwd_buffer_size 0, fwd_stage = fwd_reading\<rparr>"

definition fwd_read :: "byte list \<Rightarrow> error_code \<Rightarrow> fwd \<Rightarrow> fwd" where
  "fwd_read bs ec x =
     (let x = x\<lparr>fwd_buffer := bs @ drop (length bs) (fwd_buffer x)\<rparr>
      in if ec \<noteq> no_error then x\<lparr>fwd_stage := fwd_returned\<rparr>
         else x\<lparr>fwd_stage := fwd_writing (length bs)\<rparr>)"

definition fwd_wrote :: "error_code \<Rightarrow> fwd \<Rightarrow> fwd" where
  "fwd_wrote ec x =
     (if ec \<noteq> no_error then x\<lparr>fwd_stage := fwd_returned\<rparr> else x\<lparr>fwd_stage := fwd_reading\<rparr>)"

text \<open>The bytes that \<open>async_write\<close> is called with.\<close>

definition fwd_data :: "fwd \<Rightarrow> byte list" where
  "fwd_data x = (case fwd_stage x of fwd_writing n \<Rightarrow> take n (fwd_buffer x) | _ \<Rightarrow> [])"

text \<open>
  The loop under the outcomes of its reads and writes, a write paired with the read before it; it
  stays suspended at the end of the list. The result has the data of every \<open>async_write\<close>.
\<close>

fun half_duplex_forward ::
  "((byte list \<times> error_code) \<times> error_code) list \<Rightarrow> fwd \<Rightarrow> byte list list \<times> fwd" where
  "half_duplex_forward [] x = ([], x)"
| "half_duplex_forward (((bs, read_ec), write_ec) # os) x =
     (let x = fwd_read bs read_ec x
      in if fwd_stage x = fwd_returned then ([], x)
         else
           let data = fwd_data x; x = fwd_wrote write_ec x
           in if fwd_stage x = fwd_returned then ([data], x)
              else case half_duplex_forward os x of (ds, x) \<Rightarrow> (data # ds, x))"


section \<open>\<open>block\<close>\<close>

text \<open>
  A handler is the number of the coroutine it resumes. \<open>left\<close> is what moving out of \<open>_on_notify\<close> leaves
  there, which the standard does not say. \<open>wait\<close> returns at once (the flag of the result) or
  suspends the caller. The work guard that the handler holds only keeps the executor running.
\<close>

record block =
  on_notify :: "nat option"
  released :: bool

definition new_block :: block where
  "new_block = \<lparr>on_notify = None, released = False\<rparr>"

definition block_notify ::
  "nat option \<Rightarrow> error_code \<Rightarrow> block \<Rightarrow> 'a io_scheme \<Rightarrow> block \<times> 'a io_scheme" where
  "block_notify left ec b w =
     (case on_notify b of
        None \<Rightarrow> (b, w)
      | Some h \<Rightarrow> (b\<lparr>on_notify := left\<rparr>, w\<lparr>posted := posted w @ [Work h ec [] None]\<rparr>))"

definition block_destroy :: "nat option \<Rightarrow> block \<Rightarrow> 'a io_scheme \<Rightarrow> block \<times> 'a io_scheme" where
  "block_destroy left b w = block_notify left operation_aborted b w"

definition block_release :: "nat option \<Rightarrow> block \<Rightarrow> 'a io_scheme \<Rightarrow> block \<times> 'a io_scheme" where
  "block_release left b w = block_notify left no_error (b\<lparr>released := True\<rparr>) w"

definition block_wait :: "nat \<Rightarrow> block \<Rightarrow> bool \<times> block" where
  "block_wait h b = (if released b then (True, b) else (False, b\<lparr>on_notify := Some h\<rparr>))"


section \<open>The program\<close>

text \<open>
  \<open>server\<close> and \<open>client\<close> up to the suspension in \<open>async_accept\<close> and \<open>async_connect\<close>, and what follows:
  with an error they throw and the socket is destroyed, without they forward. \<open>fr\<close> is the
  socket, \<open>fr'\<close> the parameter of \<open>full_duplex_forward\<close> it is moved to.
\<close>

datatype ucat_state = ucat_suspended | ucat_bind_failed endpoint error_code | ucat_forwarding nat

definition ucat_server ::
  "('a sock_world_scheme) env \<Rightarrow> (string \<Rightarrow> address result) \<Rightarrow> nat \<Rightarrow> nat \<Rightarrow> nat \<Rightarrow> user_fn
     \<Rightarrow> string list \<Rightarrow> 'a sock_world_scheme \<Rightarrow> (ucat_state \<times> 'a sock_world_scheme) result" where
  "ucat_server E make_address fr s m f argv w =
     and_then (assert_that ''argc >= 3'' (\<lambda>_. 3 \<le> length argv) w) (\<lambda>w.
     and_then (parse_endpoint make_address (argv ! 2)) (\<lambda>ep.
     and_then (socket_bind E fr s m ep no_error w) (\<lambda>(ec, w).
       if ec \<noteq> no_error then and_then (socket_destroy E fr w) (\<lambda>w. Inr (ucat_bind_failed ep ec, w))
       else
         and_then (socket_local_endpoint fr w) (\<lambda>_.
         and_then (async_accept fr f w) (\<lambda>w. Inr (ucat_suspended, w))))))"

definition ucat_client ::
  "('a sock_world_scheme) env \<Rightarrow> (string \<Rightarrow> address result) \<Rightarrow> nat \<Rightarrow> nat \<Rightarrow> nat \<Rightarrow> user_fn
     \<Rightarrow> string list \<Rightarrow> 'a sock_world_scheme \<Rightarrow> (ucat_state \<times> 'a sock_world_scheme) result" where
  "ucat_client E make_address fr s m f argv w =
     and_then (assert_that ''argc >= 3'' (\<lambda>_. 3 \<le> length argv) w) (\<lambda>w.
     and_then (socket_bind E fr s m \<lparr>ep_address = loopback_v4, ep_port = 0\<rparr> no_error w) (\<lambda>(ec, w).
     and_then (assert_that ''!ec'' (\<lambda>_. ec = no_error) w) (\<lambda>w.
     and_then (parse_endpoint make_address (argv ! 2)) (\<lambda>ep.
     and_then (async_connect E fr ep f w) (\<lambda>w. Inr (ucat_suspended, w))))))"

definition ucat_resume ::
  "('a sock_world_scheme) env \<Rightarrow> nat \<Rightarrow> nat \<Rightarrow> error_code
     \<Rightarrow> 'a sock_world_scheme \<Rightarrow> (ucat_state \<times> 'a sock_world_scheme) result" where
  "ucat_resume E fr fr' ec w =
     (if ec \<noteq> no_error then and_then (socket_destroy E fr w) (\<lambda>w. Inl (SystemError ec))
      else and_then (socket_move_construct fr' fr w) (\<lambda>w. Inr (ucat_forwarding fr', w)))"

datatype ucat_command = ucat_usage | ucat_run_client | ucat_run_server

definition ucat_main :: "string list \<Rightarrow> ucat_command" where
  "ucat_main argv =
     (if length argv < 2 then ucat_usage
      else if argv ! 1 = ''c'' then ucat_run_client
      else if argv ! 1 = ''s'' then ucat_run_server
      else ucat_usage)"


section \<open>Reading back an endpoint\<close>

lemma stoi_decimal: "n < 2 ^ 31 \<Longrightarrow> stoi (decimal n) = Inr (int n)"
  using read_number_decimal [of "[]" n] by (simp add: stoi_def fits_int_def)

text \<open>The text of an endpoint: address, colon, port.\<close>

definition print_endpoint :: "string \<Rightarrow> 16 word \<Rightarrow> string" where
  "print_endpoint a p = a @ CHR '':'' # decimal (unat p)"

text \<open>
  (C33) \<open>parse_endpoint\<close> reads back the endpoint that was written as an address, a colon and the
  decimal port, for every address without a colon in its text and every port; the port may be
  left out and is then 0. For an IPv6 address it does not: \<open>make_address\<close> is given only what
  stands before the first colon of the address.
\<close>

theorem parse_endpoint_roundtrip:
  assumes "CHR '':'' \<notin> set a"
  shows "parse_endpoint mk (print_endpoint a p) = and_then (mk a) (\<lambda>x. Inr \<lparr>ep_address = x, ep_port = p\<rparr>)
    \<and> parse_endpoint mk (a @ '':'') = and_then (mk a) (\<lambda>x. Inr \<lparr>ep_address = x, ep_port = 0\<rparr>)
    \<and> (\<forall>e rest. mk a = Inl e \<longrightarrow> parse_endpoint mk (print_endpoint (a @ CHR '':'' # rest) p) = Inl e)"
proof -
  have first: "find_char (CHR '':'') (a @ CHR '':'' # ys) = Some (length a)" for ys
    by (rule find_char_first [OF assms])
  have "unat p < 2 ^ 31" using unsigned_less [of p, where 'a = nat] by simp
  then have "stoi (decimal (unat p)) = Inr (int (unat p))" by (rule stoi_decimal)
  moreover have "stoi ''0'' = Inr 0" by code_simp
  ultimately show ?thesis
    using first decimal_nonempty [of "unat p"]
    by (simp add: parse_endpoint_def print_endpoint_def Let_def)
qed

theorem parse_endpoint_roundtrip_witness:
  "\<exists>mk. parse_endpoint mk ''127.0.0.1:6881'' = Inr \<lparr>ep_address = loopback_v4, ep_port = 6881\<rparr>
    \<and> parse_endpoint mk ''127.0.0.1:'' = Inr \<lparr>ep_address = loopback_v4, ep_port = 0\<rparr>"
proof -
  let ?mk = "\<lambda>s. if s = ''127.0.0.1'' then Inr loopback_v4 else Inl (SystemError (other_error 22))"
  have "print_endpoint ''127.0.0.1'' 6881 = ''127.0.0.1:6881''"
    by (simp add: print_endpoint_def decimal.simps char_of_def bit_0)
  with parse_endpoint_roundtrip [of "''127.0.0.1''" ?mk 6881] show ?thesis by (intro exI [of _ ?mk]) simp
qed

text \<open>Without an endpoint on the command line both forms of the program run into an assert.\<close>

lemma ucat_needs_endpoint:
  assumes "length argv = 2"
  shows "ucat_server E mk fr s m f argv w = Inl (AssertFailed ''argc >= 3'')"
    and "ucat_client E mk fr s m f argv w = Inl (AssertFailed ''argc >= 3'')"
  using assms by (simp_all add: ucat_server_def ucat_client_def assert_that_def)


section \<open>Bytes arrive in order\<close>

text \<open>The chunks a direction forwards: those it read, up to the first failure.\<close>

fun chunks :: "((byte list \<times> error_code) \<times> error_code) list \<Rightarrow> byte list list" where
  "chunks [] = []"
| "chunks (((bs, read_ec), write_ec) # os) =
     (if read_ec \<noteq> no_error then []
      else bs # (if write_ec \<noteq> no_error then [] else chunks os))"

fun outcome_fails :: "(byte list \<times> error_code) \<times> error_code \<Rightarrow> bool" where
  "outcome_fails ((bs, read_ec), write_ec) \<longleftrightarrow> read_ec \<noteq> no_error \<or> write_ec \<noteq> no_error"

fun outcome_fits :: "nat \<Rightarrow> (byte list \<times> error_code) \<times> error_code \<Rightarrow> bool" where
  "outcome_fits n ((bs, read_ec), write_ec) \<longleftrightarrow> length bs \<le> n"

lemma fwd_data_read: "fwd_data (fwd_read bs no_error x) = bs"
  by (simp add: fwd_data_def fwd_read_def Let_def)

lemma fwd_stage_simps [simp]:
  "fwd_stage (fwd_read bs ec x) = (if ec = no_error then fwd_writing (length bs) else fwd_returned)"
  "fwd_stage (fwd_wrote ec x) = (if ec = no_error then fwd_reading else fwd_returned)"
  by (simp_all add: fwd_read_def fwd_wrote_def Let_def)

text \<open>
  (C23) One direction of \<open>ucat\<close> is a pipe: whatever outcomes its reads and writes have, the data it
  writes are the chunks it read, each once and in order, with no byte of an earlier chunk left
  over in the buffer; the buffer keeps its 4096 bytes; and it returns exactly when a read or a
  write failed.
\<close>

theorem forward_is_a_pipe:
  assumes "fwd_stage x = fwd_reading" and "list_all (outcome_fits (length (fwd_buffer x))) os"
  shows "fst (half_duplex_forward os x) = chunks os
    \<and> length (fwd_buffer (snd (half_duplex_forward os x))) = length (fwd_buffer x)
    \<and> (fwd_stage (snd (half_duplex_forward os x)) = fwd_returned
        \<longleftrightarrow> list_ex outcome_fails os)"
  using assms
proof (induction os arbitrary: x)
  case (Cons o' os)
  obtain bs r wr where o: "o' = ((bs, r), wr)" by (metis surj_pair)
  let ?x = "fwd_wrote wr (fwd_read bs r x)"
  have "length (fwd_buffer ?x) = length (fwd_buffer x)" "length (fwd_buffer (fwd_read bs r x)) = length (fwd_buffer x)"
    using Cons.prems(2) by (simp_all add: o fwd_wrote_def fwd_read_def Let_def)
  then show ?case
    using Cons.IH [of ?x] Cons.prems(2) by (auto simp: o fwd_data_read Let_def split: prod.splits if_splits)
qed simp

theorem forward_is_a_pipe_witness:
  "fst (half_duplex_forward [(([1, 2, 3], no_error), no_error), (([4], no_error), no_error),
      (([], connection_reset), no_error)] new_fwd) = [[1, 2, 3], [4]]"
  using forward_is_a_pipe [of new_fwd "[(([1, 2, 3], no_error), no_error), (([4], no_error), no_error),
      (([], connection_reset), no_error)]"]
  by (simp add: new_fwd_def fwd_buffer_size_def)

end
