(* ===== verification/Ucat_Duplex.thy ===== *)
theory Ucat_Duplex
  imports Ucat Ordering
begin

text \<open>
  \<open>full_duplex_forward\<close> of \<open>src/example/ucat/ucat.cpp\<close>: a coroutine that spawns one coroutine per
  direction and waits for both on two \<open>block\<close>s. The two capture its local variables by reference,
  so they must have ended when it returns. The state has the positions of the three coroutines,
  the blocks, which descriptors are open and the state of the library; \<open>duplex_step\<close> interleaves them.
  What a pending read or write completes with is left open, so is what the library does meanwhile.

  \<open>main_fn\<close> is the handler that resumes the waiting coroutine, \<open>fr\<close> the socket object \<open>s\<close>. The function
  objects posted by the blocks are in \<open>posted\<close>. A \<open>close\<close> of a descriptor that throws is not modelled.
\<close>

section \<open>State and operations\<close>

datatype main_stage = main_begins | main_in_b1 | main_in_b2 | main_returned | main_threw error_code

record 'w duplex = io +
  library :: 'w
  output_open :: bool
  input_open :: bool
  b1 :: block
  b2 :: block
  down :: fwd                   \<comment> \<open>from the socket to \<open>output\<close>\<close>
  up :: fwd                     \<comment> \<open>from \<open>input\<close> to the socket\<close>
  main_at :: main_stage

definition new_duplex :: "'w \<Rightarrow> 'w duplex" where
  "new_duplex w = \<lparr>posted = [], library = w, output_open = True, input_open = True,
     b1 = new_block, b2 = new_block, down = new_fwd, up = new_fwd, main_at = main_begins\<rparr>"

definition close_everything ::
  "('a sock_world_scheme) env \<Rightarrow> nat \<Rightarrow> ('a sock_world_scheme) duplex
     \<Rightarrow> (('a sock_world_scheme) duplex) result" where
  "close_everything E fr d =
     and_then (socket_close E fr (library d)) (\<lambda>w.
       let d = d\<lparr>library := w\<rparr>;
           d = (if output_open d then d\<lparr>output_open := False\<rparr> else d)
       in Inr (if input_open d then d\<lparr>input_open := False\<rparr> else d))"

text \<open>
  What the coroutines of the two directions do when their half of the forwarding moves to \<open>x\<close>:
  when it returned, \<open>on_exit\<close> is destroyed.
\<close>

definition down_moves ::
  "('a sock_world_scheme) env \<Rightarrow> nat \<Rightarrow> nat option \<Rightarrow> fwd \<Rightarrow> ('a sock_world_scheme) duplex
     \<Rightarrow> (('a sock_world_scheme) duplex) result" where
  "down_moves E fr left x d =
     (let d = d\<lparr>down := x\<rparr>
      in if fwd_stage x \<noteq> fwd_returned then Inr d
         else
           and_then (close_everything E fr d) (\<lambda>d.
             case block_release left (b1 d) d of (b, d) \<Rightarrow> Inr (d\<lparr>b1 := b\<rparr>)))"

definition up_moves ::
  "('a sock_world_scheme) env \<Rightarrow> nat \<Rightarrow> nat option \<Rightarrow> fwd \<Rightarrow> ('a sock_world_scheme) duplex
     \<Rightarrow> (('a sock_world_scheme) duplex) result" where
  "up_moves E fr left x d =
     (let d = d\<lparr>up := x\<rparr>
      in if fwd_stage x \<noteq> fwd_returned then Inr d
         else
           and_then (close_everything E fr d) (\<lambda>d.
             case block_release left (b2 d) d of (b, d) \<Rightarrow> Inr (d\<lparr>b2 := b\<rparr>)))"

text \<open>The waiting coroutine: \<open>b1.wait(yield); b2.wait(yield)\<close>, and its resumption.\<close>

definition wait_b2 :: "nat \<Rightarrow> 'w duplex \<Rightarrow> 'w duplex" where
  "wait_b2 main_fn d =
     (case block_wait main_fn (b2 d) of
        (True, b) \<Rightarrow> d\<lparr>main_at := main_returned\<rparr>
      | (False, b) \<Rightarrow> d\<lparr>b2 := b, main_at := main_in_b2\<rparr>)"

definition wait_b1 :: "nat \<Rightarrow> 'w duplex \<Rightarrow> 'w duplex" where
  "wait_b1 main_fn d =
     (case block_wait main_fn (b1 d) of
        (True, b) \<Rightarrow> wait_b2 main_fn d
      | (False, b) \<Rightarrow> d\<lparr>b1 := b, main_at := main_in_b1\<rparr>)"

definition main_resumes :: "nat \<Rightarrow> error_code \<Rightarrow> 'w duplex \<Rightarrow> 'w duplex" where
  "main_resumes main_fn ec d =
     (if ec \<noteq> no_error then d\<lparr>main_at := main_threw ec\<rparr>
      else if main_at d = main_in_b1 then wait_b2 main_fn d
      else d\<lparr>main_at := main_returned\<rparr>)"

inductive duplex_step ::
  "('a sock_world_scheme) env \<Rightarrow> nat \<Rightarrow> nat \<Rightarrow> ('a sock_world_scheme) duplex
     \<Rightarrow> ('a sock_world_scheme) duplex \<Rightarrow> bool"
  for E fr main_fn where
  main_begins: "main_at d = main_begins \<Longrightarrow> duplex_step E fr main_fn d (wait_b1 main_fn d)"
| main_resumes:
    "posted d = Work main_fn ec [] None # xs
      \<Longrightarrow> duplex_step E fr main_fn d (main_resumes main_fn ec (d\<lparr>posted := xs\<rparr>))"
| down_read:
    "fwd_stage (down d) = fwd_reading \<Longrightarrow> length bs \<le> fwd_buffer_size
      \<Longrightarrow> down_moves E fr left (fwd_read bs ec (down d)) d = Inr d' \<Longrightarrow> duplex_step E fr main_fn d d'"
| down_wrote:
    "fwd_stage (down d) = fwd_writing n
      \<Longrightarrow> down_moves E fr left (fwd_wrote ec (down d)) d = Inr d' \<Longrightarrow> duplex_step E fr main_fn d d'"
| up_read:
    "fwd_stage (up d) = fwd_reading \<Longrightarrow> length bs \<le> fwd_buffer_size
      \<Longrightarrow> up_moves E fr left (fwd_read bs ec (up d)) d = Inr d' \<Longrightarrow> duplex_step E fr main_fn d d'"
| up_wrote:
    "fwd_stage (up d) = fwd_writing n
      \<Longrightarrow> up_moves E fr left (fwd_wrote ec (up d)) d = Inr d' \<Longrightarrow> duplex_step E fr main_fn d d'"
| library_runs: "duplex_step E fr main_fn d (d\<lparr>library := w\<rparr>)"

definition duplex_reachable ::
  "('a sock_world_scheme) env \<Rightarrow> nat \<Rightarrow> nat \<Rightarrow> ('a sock_world_scheme) duplex \<Rightarrow> bool" where
  "duplex_reachable E fr main_fn d \<longleftrightarrow> (\<exists>w. (duplex_step E fr main_fn)\<^sup>*\<^sup>* (new_duplex w) d)"


section \<open>The invariant\<close>

text \<open>
  A block on which the coroutine waits either has its handler and was not released, or was
  released and the resumption is the only function posted.
\<close>

fun waiting_on :: "nat \<Rightarrow> block \<Rightarrow> work list \<Rightarrow> bool" where
  "waiting_on main_fn b q \<longleftrightarrow>
     (if released b then q = [Work main_fn no_error [] None]
      else on_notify b = Some main_fn \<and> q = [])"

fun main_inv :: "nat \<Rightarrow> main_stage \<Rightarrow> block \<Rightarrow> block \<Rightarrow> work list \<Rightarrow> bool" where
  "main_inv main_fn main_begins x y q \<longleftrightarrow> on_notify x = None \<and> on_notify y = None \<and> q = []"
| "main_inv main_fn main_in_b1 x y q \<longleftrightarrow> waiting_on main_fn x q \<and> on_notify y = None"
| "main_inv main_fn main_in_b2 x y q \<longleftrightarrow> released x \<and> waiting_on main_fn y q"
| "main_inv main_fn main_returned x y q \<longleftrightarrow> released x \<and> released y \<and> q = []"
| "main_inv main_fn (main_threw ec) x y q \<longleftrightarrow> False"

definition duplex_inv :: "nat \<Rightarrow> 'w duplex \<Rightarrow> bool" where
  "duplex_inv main_fn d \<longleftrightarrow>
     released (b1 d) = (fwd_stage (down d) = fwd_returned)
     \<and> released (b2 d) = (fwd_stage (up d) = fwd_returned)
     \<and> main_inv main_fn (main_at d) (b1 d) (b2 d) (posted d)
     \<and> (released (b1 d) \<or> released (b2 d) \<longrightarrow> \<not> output_open d \<and> \<not> input_open d)"

lemma duplex_frame [simp]:
  "library (d\<lparr>posted := q\<rparr>) = library d" "library (d\<lparr>up := x\<rparr>) = library d"
  by (cases d; simp)+

lemma close_everything_frame:
  "close_everything E fr d = Inr d' \<Longrightarrow> \<exists>w. d' = d\<lparr>library := w, output_open := False, input_open := False\<rparr>"
  by (cases d) (auto simp: close_everything_def and_then_Inr_iff Let_def split: if_splits)

text \<open>What a release makes of the block and of the queue.\<close>

definition release_of :: "nat option \<Rightarrow> block \<Rightarrow> work list \<Rightarrow> block \<times> work list" where
  "release_of left b q =
     (case on_notify b of
        None \<Rightarrow> (b\<lparr>released := True\<rparr>, q)
      | Some h \<Rightarrow> (\<lparr>on_notify = left, released = True\<rparr>, q @ [Work h no_error [] None]))"

lemma block_release_eq:
  "block_release left b (w :: 'w duplex)
    = (fst (release_of left b (posted w)), w\<lparr>posted := snd (release_of left b (posted w))\<rparr>)"
  by (cases b) (auto simp: block_release_def block_notify_def release_of_def split: option.split)

lemma down_moves_eq:
  assumes "down_moves E fr left x d = Inr d'"
  shows "if fwd_stage x = fwd_returned
    then \<exists>w. d' = d\<lparr>down := x, library := w, output_open := False, input_open := False,
           b1 := fst (release_of left (b1 d) (posted d)), posted := snd (release_of left (b1 d) (posted d))\<rparr>
    else d' = d\<lparr>down := x\<rparr>"
  using assms
  by (cases d) (auto simp: down_moves_def and_then_Inr_iff Let_def block_release_eq dest!: close_everything_frame)

lemma up_moves_eq:
  assumes "up_moves E fr left x d = Inr d'"
  shows "if fwd_stage x = fwd_returned
    then \<exists>w. d' = d\<lparr>up := x, library := w, output_open := False, input_open := False,
           b2 := fst (release_of left (b2 d) (posted d)), posted := snd (release_of left (b2 d) (posted d))\<rparr>
    else d' = d\<lparr>up := x\<rparr>"
  using assms
  by (cases d) (auto simp: up_moves_def and_then_Inr_iff Let_def block_release_eq dest!: close_everything_frame)

lemma released_release_of [simp]: "released (fst (release_of left b q))"
  by (simp add: release_of_def split: option.split)

lemma release_b1:
  assumes "main_inv main_fn st x y q" and "\<not> released x"
  shows "main_inv main_fn st (fst (release_of left x q)) y (snd (release_of left x q))"
  using assms by (cases st) (auto simp: release_of_def split: option.splits)

lemma release_b2:
  assumes "main_inv main_fn st x y q" and "\<not> released y"
  shows "main_inv main_fn st x (fst (release_of left y q)) (snd (release_of left y q))"
  using assms by (cases st) (auto simp: release_of_def split: option.splits)

lemma down_moves_inv:
  assumes "duplex_inv main_fn d" and "fwd_stage (down d) \<noteq> fwd_returned" and "down_moves E fr left x d = Inr d'"
  shows "duplex_inv main_fn d'"
  using down_moves_eq [OF assms(3)] release_b1 [of main_fn "main_at d" "b1 d" "b2 d" "posted d" left] assms(1,2)
  by (auto simp: duplex_inv_def split: if_splits)

lemma up_moves_inv:
  assumes "duplex_inv main_fn d" and "fwd_stage (up d) \<noteq> fwd_returned" and "up_moves E fr left x d = Inr d'"
  shows "duplex_inv main_fn d'"
  using up_moves_eq [OF assms(3)] release_b2 [of main_fn "main_at d" "b1 d" "b2 d" "posted d" left] assms(1,2)
  by (auto simp: duplex_inv_def split: if_splits)

lemma main_resumes_inv:
  assumes "duplex_inv main_fn d" and "posted d = Work main_fn ec [] None # xs"
  shows "duplex_inv main_fn (main_resumes main_fn ec (d\<lparr>posted := xs\<rparr>))"
  using assms
  by (cases "main_at d")
     (auto simp: duplex_inv_def main_resumes_def wait_b2_def block_wait_def split: if_splits)

lemma main_begins_inv:
  assumes "duplex_inv main_fn d" and "main_at d = main_begins"
  shows "duplex_inv main_fn (wait_b1 main_fn d)"
  using assms
  by (auto simp: duplex_inv_def wait_b1_def wait_b2_def block_wait_def split: if_splits)

lemma duplex_step_inv:
  assumes "duplex_step E fr main_fn d d'" and "duplex_inv main_fn d"
  shows "duplex_inv main_fn d'"
  using assms
proof cases
  case (library_runs w)
  then show ?thesis using assms(2) by (cases d) (simp add: duplex_inv_def)
qed (auto intro: main_begins_inv main_resumes_inv down_moves_inv up_moves_inv)

lemma duplex_reachable_inv:
  assumes "duplex_reachable E fr main_fn d"
  shows "duplex_inv main_fn d"
proof -
  obtain w where "(duplex_step E fr main_fn)\<^sup>*\<^sup>* (new_duplex w) d"
    using assms by (auto simp: duplex_reachable_def)
  moreover have "duplex_inv main_fn (new_duplex w)"
    by (simp add: duplex_inv_def new_duplex_def new_block_def new_fwd_def)
  ultimately show ?thesis by induction (auto intro: duplex_step_inv)
qed


section \<open>The coroutine outlives the two directions\<close>

text \<open>
  (C14) \<open>full_duplex_forward\<close> returns only after both directions ended, in whatever order the
  reads, writes, wake-ups and the start of the coroutines are interleaved: when it has returned, the
  coroutines that refer to its local variables are gone, both descriptors are closed, and no
  function posted by a block is left. It never ends with an exception from a \<open>wait\<close>.
\<close>

theorem duplex_joins_both_directions:
  assumes "duplex_reachable E fr main_fn d"
  shows "main_at d \<noteq> main_threw ec
    \<and> (main_at d = main_returned \<longrightarrow>
         fwd_stage (down d) = fwd_returned \<and> fwd_stage (up d) = fwd_returned
         \<and> \<not> output_open d \<and> \<not> input_open d \<and> posted d = [])"
  using duplex_reachable_inv [OF assms] by (auto simp: duplex_inv_def)

text \<open>
  (C15) No wake-up is lost: once both directions ended, the waiting coroutine has returned or one
  step of its own makes it return; it cannot stay suspended on a block that was released before
  or after it began to wait.
\<close>

theorem duplex_wait_ends:
  assumes "duplex_reachable E fr main_fn d"
    and "fwd_stage (down d) = fwd_returned" and "fwd_stage (up d) = fwd_returned"
  shows "main_at d = main_returned \<or> (\<exists>d'. duplex_step E fr main_fn d d' \<and> main_at d' = main_returned)"
proof -
  note inv = duplex_reachable_inv [OF assms(1)]
  then have r: "released (b1 d)" "released (b2 d)" using assms(2,3) by (auto simp: duplex_inv_def)
  show ?thesis
  proof (cases "posted d")
    case Nil
    with inv r have "main_at d = main_begins \<or> main_at d = main_returned"
      by (cases "main_at d") (auto simp: duplex_inv_def)
    moreover have "main_at (wait_b1 main_fn d) = main_returned"
      using r by (simp add: wait_b1_def wait_b2_def block_wait_def)
    ultimately show ?thesis using duplex_step.main_begins by blast
  next
    case (Cons x xs)
    with inv r have x: "x = Work main_fn no_error [] None"
      by (cases "main_at d") (auto simp: duplex_inv_def)
    have "main_at (main_resumes main_fn no_error (d\<lparr>posted := xs\<rparr>)) = main_returned"
      using r by (simp add: main_resumes_def wait_b2_def block_wait_def)
    then show ?thesis using duplex_step.main_resumes [OF Cons [unfolded x]] by blast
  qed
qed


section \<open>The end of one direction ends the other\<close>

lemma up_moves_library:
  assumes "up_moves E fr left x d = Inr d'" and "fwd_stage x = fwd_returned"
  shows "socket_close E fr (library d) = Inr (library d')"
proof -
  from assms obtain d1 where c: "close_everything E fr (d\<lparr>up := x\<rparr>) = Inr d1" and d1: "library d' = library d1"
    by (auto simp: up_moves_def and_then_Inr_iff Let_def block_release_eq)
  from c have "socket_close E fr (library d) = Inr (library d1)"
    by (auto simp: close_everything_def and_then_Inr_iff Let_def split: if_splits)
  with d1 show ?thesis by simp
qed

text \<open>
  (C16) The end of one direction reaches the other through the library: when the direction from
  \<open>input\<close> to the socket ends while the other one waits in a read from the socket, closing the
  socket completes that read. Whatever the library, libutp and other user code do next, there is
  a fixed number of completions after which the executor runs the function of the read with
  \<open>operation_aborted\<close> and zero bytes; the direction that it resumes returns.
\<close>

theorem ucat_end_reaches_reader:
  assumes "up_moves (tie X n) fr left x d = Inr d'" and "fwd_stage x = fwd_returned"
    and "impl (fronts (library d) fr) = Some s" and "\<not> closed (socks (library d) s)"
    and "handler_of s op_recv (library d) = Some i"
  shows "\<exists>k. \<forall>xs w. sys_run X (library d') xs w \<longrightarrow> k < length xs \<longrightarrow>
      xs ! k = Work (func i) operation_aborted [0] (after i)
      \<and> fwd_stage (fwd_read [] (work_ec (xs ! k)) (down d')) = fwd_returned"
proof -
  let ?x = "Work (func i) operation_aborted [0] (after i)"
  have "?x \<in> set (aborted operation_aborted (socks (library d) s))"
    using assms(5) by (simp add: aborted_def aborted_one_def)
  with socket_close_aborts [OF up_moves_library [OF assms(1,2)] assms(3,4)]
  obtain us vs where q: "posted (library d') = us @ ?x # vs"
    by (metis append.assoc append_Cons split_list)
  have "xs ! length us = ?x" if "sys_run X (library d') xs w" "length us < length xs" for xs w
  proof -
    have "\<exists>ys. xs @ posted w = us @ ?x # vs @ ys" using sys_run_order [OF that(1)] q by simp
    then show ?thesis using that(2) by (metis nth_append nth_append_length)
  qed
  then show ?thesis by (intro exI [of _ "length us"]) simp
qed


section \<open>A run\<close>

text \<open>
  The coroutine waits on \<open>b1\<close>; the read from the socket fails, then the one from \<open>input\<close>. The socket
  object 1 of the state \<open>sample\<close> was closed before.
\<close>

definition ended_fwd :: fwd where
  "ended_fwd = fwd_read [] connection_reset new_fwd"

definition ended_run :: "(nat utp_world) duplex" where
  "ended_run = \<lparr>posted = [Work 7 no_error [] None], library = sample, output_open = False, input_open = False,
     b1 = \<lparr>on_notify = None, released = True\<rparr>, b2 = \<lparr>on_notify = None, released = True\<rparr>,
     down = ended_fwd, up = ended_fwd, main_at = main_in_b1\<rparr>"

lemma sample_close_1: "socket_close E (Suc 0) sample = Inr sample"
  by (simp add: socket_close_def sample_simps)

lemma ended_run_reachable: "duplex_reachable E 1 7 ended_run"
proof -
  let ?step = "duplex_step E 1 7"
  define d1 where "d1 = wait_b1 7 (new_duplex sample)"
  define d2 where "d2 = d1\<lparr>posted := [Work 7 no_error [] None], output_open := False, input_open := False,
    b1 := \<lparr>on_notify = None, released = True\<rparr>, down := ended_fwd\<rparr>"
  note defs = d1_def d2_def new_duplex_def wait_b1_def block_wait_def new_block_def
  have "?step (new_duplex sample) d1" unfolding d1_def
    by (rule duplex_step.main_begins) (simp add: new_duplex_def)
  moreover have "down d1 = new_fwd" "up d2 = new_fwd" by (simp_all add: defs)
  moreover have "fwd_stage new_fwd = fwd_reading" by (simp add: new_fwd_def)
  moreover have "fwd_stage ended_fwd = fwd_returned" by (simp add: ended_fwd_def)
  moreover from this have "down_moves E 1 None ended_fwd d1 = Inr d2"
    by (simp add: down_moves_def close_everything_def sample_close_1 block_release_def block_notify_def defs)
  moreover have "up_moves E 1 None ended_fwd d2 = Inr ended_run"
    using \<open>fwd_stage ended_fwd = fwd_returned\<close>
    by (simp add: up_moves_def close_everything_def sample_close_1 block_release_def block_notify_def defs ended_run_def)
  ultimately have "?step\<^sup>*\<^sup>* (new_duplex sample) ended_run"
    using duplex_step.down_read [of d1 "[]" E 1 None connection_reset d2 7]
      duplex_step.up_read [of d2 "[]" E 1 None connection_reset ended_run 7]
    by (simp add: ended_fwd_def converse_rtranclp_into_rtranclp)
  then show ?thesis by (auto simp: duplex_reachable_def)
qed

theorem duplex_wait_ends_witness:
  "\<exists>d'. duplex_step quiet_env 1 7 ended_run d' \<and> main_at d' = main_returned"
  using duplex_wait_ends [OF ended_run_reachable] by (auto simp: ended_run_def ended_fwd_def)

theorem duplex_joins_both_directions_witness:
  "\<exists>d :: (nat utp_world) duplex. duplex_reachable quiet_env 1 7 d \<and> main_at d = main_returned
    \<and> fwd_stage (down d) = fwd_returned \<and> fwd_stage (up d) = fwd_returned \<and> posted d = []"
proof -
  let ?d = "main_resumes 7 no_error (ended_run\<lparr>posted := []\<rparr>)"
  have "duplex_step quiet_env 1 7 ended_run ?d"
    by (rule duplex_step.main_resumes) (simp add: ended_run_def)
  with ended_run_reachable have "duplex_reachable quiet_env 1 7 ?d"
    by (meson duplex_reachable_def rtranclp.rtrancl_into_rtrancl)
  moreover have "main_at ?d = main_returned"
    by (simp add: main_resumes_def wait_b2_def block_wait_def ended_run_def)
  ultimately show ?thesis using duplex_joins_both_directions [of quiet_env 1 7 ?d no_error] by blast
qed

text \<open>
  The socket object 0 of \<open>sample\<close> has a read in progress; \<open>input\<close> ends.
\<close>

definition reading_duplex :: "(nat utp_world) duplex" where
  "reading_duplex = new_duplex (with_impl (\<lambda>x. (reading x)\<lparr>utp_socket := None\<rparr>))"

theorem ucat_end_reaches_reader_witness:
  "\<exists>d' k. up_moves (tie quiet 1) 0 None ended_fwd reading_duplex = Inr d'
    \<and> (\<forall>xs w. sys_run quiet (library d') xs w \<longrightarrow> k < length xs \<longrightarrow>
         xs ! k = Work 7 operation_aborted [0] (Some (decrement_of 0)))"
proof -
  let ?w = "with_impl (\<lambda>x. (reading x)\<lparr>utp_socket := None\<rparr>)"
  have h: "impl (fronts ?w 0) = Some 0" "\<not> closed (socks ?w 0)"
    "handler_of 0 op_recv ?w = Some \<lparr>func = 7, after = Some (decrement_of 0)\<rparr>"
    by (simp_all add: sample_simps)
  have "\<exists>w. socket_close (tie quiet 1) 0 ?w = Inr w"
    by (simp add: socket_close_def guarded_def is_open_def sock_close_def close_open_socket set_multiplexer_def
        closed_state_def mux_drop_def drop_ref_def alive_def Let_def upd_front_def upd_mux_def sample_simps)
  then obtain d' where d': "up_moves (tie quiet 1) 0 None ended_fwd reading_duplex = Inr d'"
    by (auto simp: up_moves_def close_everything_def block_release_eq reading_duplex_def new_duplex_def
        ended_fwd_def Let_def)
  have "library reading_duplex = ?w" "fwd_stage ended_fwd = fwd_returned"
    by (simp_all add: reading_duplex_def new_duplex_def ended_fwd_def)
  with ucat_end_reaches_reader [OF d', of 0 "\<lparr>func = 7, after = Some (decrement_of 0)\<rparr>"] h
  have "\<exists>k. \<forall>xs w. sys_run quiet (library d') xs w \<longrightarrow> k < length xs \<longrightarrow>
      xs ! k = Work 7 operation_aborted [0] (Some (decrement_of 0))"
    by (simp only: handler_impl.simps) meson
  with d' show ?thesis by blast
qed

end
