(* ===== verification/Spec2Isabelle.thy ===== *)
theory Spec2Isabelle
  imports Ids Liveness Idle References Scenarios Flushing Logging Udp_Socket Http_Client Ucat_Duplex
begin

text \<open>
  asio-utp is a C++ library that gives Boost.Asio programs sockets for uTP, the micro transport
  protocol over UDP. The protocol itself is done by libutp, a C library; asio-utp owns the UDP
  sockets, drives libutp with datagrams and timer ticks, and turns its callbacks into
  completions of asynchronous operations. This development models the library (everything
  under src/src and src/include that carries state) and the example programs that come with it
  (src/example), and proves what makes them correct.

  \<^bold>\<open>The parts of the program.\<close>
  A user-facing \<open>socket\<close> (src/include/asio_utp/socket.hpp, src/src/socket.cpp) holds a
  \<open>socket_impl\<close> (src/src/socket_impl.cpp), which stores the handlers of its connect, accept,
  read and write, queues received bytes, and calls libutp. Its \<open>context\<close> (src/src/context.cpp) is
  the libutp context of one UDP socket: it counts outstanding operations, ticks libutp every
  500 ms and receives datagrams while the count is not zero, and routes libutp's callbacks to the
  sockets. The UDP socket belongs to a \<open>udp_multiplexer_impl\<close>
  (src/src/udp_multiplexer_impl.cpp), which hands each datagram to every registered receive
  entry: the context's, and those of the user-facing \<open>udp_multiplexer\<close> objects
  (src/src/udp_multiplexer.cpp) that share the same port. The \<open>service\<close> (src/src/service.hpp)
  finds the multiplexer of an endpoint. Handlers, signals, endpoint conversions, ids and the log
  are helpers (handler.hpp, signal.hpp, util.hpp, id.hpp, log.hpp). \<open>udp_socket_wrapper\<close>
  (udp_socket.hpp) makes a Boost.Asio UDP socket usable by a multiplexer. The examples are an
  HTTP server and client (src/example/http) and \<open>ucat\<close> (src/example/ucat), which connects its
  standard input and output to a uTP socket.

  \<^bold>\<open>The model.\<close> Objects are numbers (their addresses) that index the components of one state
  record, which grows by extension from theory to theory: \<open>io\<close> (posted functions), memory and
  calls to the outside (\<open>sys_world\<close>), \<open>muxes\<close>, \<open>entries\<close> and \<open>multiplexers\<close> (\<open>mux_world\<close>), \<open>ctxs\<close>,
  \<open>socks\<close> and \<open>fronts\<close>, \<open>mstates\<close>, \<open>mfronts\<close> and \<open>sends\<close>, and last libutp's own state \<open>lib\<close>.
  A method is a function from the state to a fault or the next state; failed assertions, null
  and out-of-bounds accesses and exceptions are faults. A number for a new object is an
  argument, and a number in use gives the fault \<open>AddressInUse\<close>.

  \<^item> Prelude: error codes, faults, sequencing, and \<open>kept_relation\<close>, the locale of relations
    between states that statements keep.
  \<^item> Sockaddr (util.hpp), Handlers (handler.hpp), Signals (signal.hpp), Ids (id.hpp), Buffers
    (the queue of socket_impl and Asio buffers), Ticker (\<open>context::ticker_type\<close>), Logging (log.hpp
    and \<open>callback_log\<close>): the helpers. Udp_Socket (udp_socket.hpp, udp_socket.cpp): the wrapper, over
    a Boost.Asio socket that is an argument.
  \<^item> Environment: what is not in the sources, as one record of functions: libutp (the result of
    \<open>utp_init\<close> included), the UDP sockets (\<open>is_open\<close> is asked each time), the executor's choice in
    \<open>dispatch\<close>, \<open>buffer_copy\<close>, whether appending to a \<open>std::vector\<close> reallocates it, the host ABI.
  \<^item> Mux_Impl (udp_multiplexer_impl.cpp), Context and Callbacks (context.cpp), Socket_Impl
    (socket_impl.cpp), Service (service.hpp), Socket (socket.cpp), Udp_Multiplexer
    (udp_multiplexer.cpp): one definition per method, callback and lambda, in the order of the
    code.
  \<^item> Programs: the whole library under an arbitrary user program and an arbitrary libutp.
    User code is a tree of library calls (\<open>prog\<close>), libutp's answer to a call is a script of
    callbacks (\<open>script\<close>); both may look at the state and both nest. \<open>sys_step\<close> is one event
    of the executor, \<open>reachable\<close> the states of all runs.
  \<^item> Cstrings (the functions on C++ strings that the examples use), Http_Server and Http_Listen
    (http_server_coro.cpp: answering requests, and the accept loop over the library),
    Http_Client (http_client_coro.cpp), Ucat (ucat.cpp, block.h) and Ucat_Duplex (its
    \<open>full_duplex_forward\<close> as a step relation over three coroutines). Coroutines are cut at
    their suspensions: a start, and what each completion resumes. Boost.Beast, the file system and
    \<open>make_address\<close> are arguments.

  \<^bold>\<open>What is proved.\<close>
  \<^item> Contracts and Closure prove once, for every relation that the building blocks keep, that
    every operation, callback, user program and libutp script keeps it (\<open>kept_core\<close>,
    \<open>kept_blocks\<close>, \<open>kept_refs\<close>, \<open>kept_lib\<close>, \<open>kept_ops\<close>, \<open>kept_reads\<close>, \<open>kept_inputs\<close>, \<open>kept_events\<close>,
    \<open>tie_kept\<close>). The
    invariants of the whole library are interpretations of these locales: Accounting (\<open>acct\<close>: the count of
    outstanding operations covers what will be decremented), Liveness (\<open>sound\<close>: a busy context
    listens), and over Frames (\<open>calm\<close>, the common part of the building blocks) History
    (\<open>older\<close>: what has ended stays ended), References (\<open>balanced\<close>: use counts equal the number of
    holders) and Idle (\<open>tidy\<close>: an idle context does not tick). Ordering (\<open>grows\<close>) shows that the
    executor's queue is only appended to; on it builds Retention (\<open>retained\<close>): no read and no
    write in progress is ever lost, and a failing UDP socket completes those of every socket
    of its context. Flushing (\<open>shrinks\<close>): an entry that a flush has not reached yet only
    leaves the list, so the flush visits the registered entries in order and then ends.
  \<^item> Streams, Sessions and End_To_End: both directions of a connection keep the bytes and their
    order, call by call, over every interleaving of arrivals and reads, over every sequence of
    writes and notifications, and from the writing user to the reading one. What is assumed of
    the outside is in \<open>rx_outside\<close> and \<open>tx_outside\<close>: inside \<open>utp_write\<close> and \<open>utp_read_drained\<close> libutp
    sends any number of datagrams and invokes no other callback, the UDP socket reports no
    hard error for them and nobody observes them. Without the second of these the code
    dereferences a null pointer (\<open>closed_while_writing\<close> in Lifecycle).
  \<^item> Lifecycle: completion, closing, closing in the middle of a write, accepting, end of stream.
  \<^item> Frontend and Datagrams: the calls of the user on socket and multiplexer objects, on every
    path, errors included.
  \<^item> Signals: an emission, which walks the live list of connections, calls the connected slots in
    order as long as no slot changes the signal, and what goes wrong when one does. Udp_Socket:
    the non-blocking send never blocks.
  \<^item> Http_Server: which files a session opens and what it answers; Http_Listen: the accept loop
    after a failed accept; Http_Client: which failure is reported; Ucat and Ucat_Duplex: parsing
    endpoints, one direction as a pipe, the end of the two directions under every interleaving, and
    how the end of one reaches the other through the library and the executor.
  \<^item> Samples and Scenarios: concrete states and runs at which the properties are applied.
  \<^item> This theory: the properties of every reachable state and of whole runs.
  Some properties state a defect of the code as it is: a write that libutp resumes is counted
  twice, an aborted accept stays in the accept queue, move assignment of a socket
  dereferences a moved-from pointer, an IPv6 peer address is read past the end of a buffer, a
  stale error code makes \<open>bind\<close> fail (and the HTTP server spin), a slot that disconnects itself
  breaks the emission, a second send loses the first one's handler, closing a
  multiplexer with a send pending leaves a dead receive entry.

  \<^bold>\<open>Bounds and fuel.\<close> \<open>tie X n\<close> lets libutp calls and user functions nest \<open>n\<close> deep and faults
  beyond; the theorems about reachable states hold for runs whose every step uses any depth, so
  no run is excluded except one that never returns from a nested call. The flush loop of a
  multiplexer runs as many rounds as there are entries: entries registered meanwhile go to
  another list, so this is enough (\<open>flush_delivers_in_order\<close>). The walk of an emission is
  bounded by \<open>emission_bound\<close>, a field of the environment, and faults beyond, since slots may connect
  further slots without end; when they do not, the number of connections is enough
  (\<open>emission_in_order\<close>), and the theorems about reachable states hold for every bound. The write loop terminates
  because each round either stops or takes bytes off the buffer. \<open>outstanding_op_count\<close> is a
  \<open>size_t\<close>: the wrap-around of its decrement is modelled and proved not to happen; that of its
  increment would need 2 ^ 64 operations and is not modelled. Socket ids wrap around at 32 bits.

  \<^bold>\<open>Not modelled.\<close> The \<open>_debug\<close> branches that log, since nothing depends on the log; executors and
  work guards, beyond the queue of posted functions; the destruction of \<open>socket_impl\<close> objects other
  than its assertions, since a bound one and its context own each other; threads, since the
  library expects one strand (the HTTP server's \<open>threads\<close> argument is only parsed); the branch of
  \<open>path_cat\<close> for another compiler; headers with declarations and aliases only; the tests and the
  benchmark under src/test.
\<close>

section \<open>The whole library\<close>

subsection \<open>Facts about every reachable state\<close>

lemma reachable_mux: "reachable X w \<Longrightarrow> mux_ok (muxes w m)"
  and reachable_ctx: "reachable X w \<Longrightarrow> ctx_ok c w"
  using reachable_ok [of X w] by (simp_all add: system_ok_def)

lemma reachable_pending:
  assumes "reachable X w"
  shows "pending c w \<le> outstanding_op_count (ctxs w c)"
proof -
  have "0 \<le> gap c w" using reachable_counted [OF assms] by (simp add: counted_def)
  then show ?thesis by (simp add: gap_def)
qed

lemma reachable_listening:
  assumes "reachable X w" and "alive (muxes w c)" and "outstanding_op_count (ctxs w c) \<noteq> 0"
  shows "running (ticking (ctxs w c)) \<and> waits (ticking (ctxs w c)) = 1
    \<and> ctx_entry c \<in> set (recv_handlers (muxes w c))
    \<and> is_receiving (muxes w c) \<and> rx_ops (muxes w c) = 1"
proof -
  have ctx: "listening c w" "ticker_ok (ticking (ctxs w c))"
    using reachable_ctx [OF assms(1)] assms(2,3) by (auto simp: ctx_ok_def live_ctx_def)
  have mux: "flushing (muxes w c) = []" "has_receive (muxes w c)"
      "rx_ops (muxes w c) = of_bool (is_receiving (muxes w c))"
    using reachable_mux [OF assms(1), of c] assms(2)
    by (auto simp: mux_ok_def alive_def split: ownership.splits)
  have mem: "ctx_entry c \<in> set (recv_handlers (muxes w c))"
    using ctx(1) mux(1) by (simp add: listening_def registered_def)
  then have "is_receiving (muxes w c)" using mux(2) by (auto simp: has_receive_def)
  with mem ctx mux(3) show ?thesis
    by (simp add: listening_def ticker_ok_def ticker_mid_def)
qed

lemma stored_handler_pending:
  assumes "ops_wf w" and "handler_of s k w = Some i"
  shows "0 < pending (sock_context (socks w s)) w"
proof -
  have "0 < sock_pending (socks w s)" using assms(2) by (cases k) (simp_all add: sock_pending_def)
  then show ?thesis using pending_stored [OF assms(1)] by (simp add: pending_def)
qed


lemma gap_of_steps:
  assumes "(sys_step X)\<^sup>*\<^sup>* w w'" and "ops_wf w"
  shows "ops_wf w' \<and> gap c w \<le> gap c w'"
  using assms(1)
proof (induction rule: rtranclp_induct)
  case base
  show ?case using assms(2) by simp
next
  case (step y z)
  have "acct y z" by (rule sys_step_kept [OF _ step.hyps(2)]) (rule acct_events.kept_events_axioms)
  with step.IH show ?case by (auto simp: acct_def intro: order_trans)
qed

lemma restart_send_gap:
  assumes "ops_wf w" and "restart_send s w = Inr w'"
  shows "ops_wf w' \<and> gap (sock_context (socks w s)) w' = gap (sock_context (socks w s)) w + 1"
proof -
  obtain i where i: "handler_of s op_send w = Some i"
    "socks w' = (socks w)(s := (socks w s)\<lparr>handlers := (handlers (socks w s))
       (op_send := Some (i\<lparr>after := Some (decrement_of (sock_context (socks w s)))\<rparr>))\<rparr>)"
    "posted w' = posted w" "rest_same w w'"
    "\<And>c. outstanding_op_count (ctxs w' c) = outstanding_op_count (ctxs w c)
       + of_bool (c = sock_context (socks w s))"
    by (rule restart_send_effect [OF assms(2)]) blast
  have "sock_pending (socks w' s') = sock_pending (socks w s')"
    and "sock_context (socks w' s') = sock_context (socks w s')" for s'
    using i(1,2) by (auto simp: sock_pending_def)
  then have "stored c (socks w') = stored c (socks w)" for c by (rule stored_same)
  then have "gap (sock_context (socks w s)) w' = gap (sock_context (socks w s)) w + 1"
    using i(3,5) by (simp add: gap_def pending_def)
  moreover have "ops_wf w'" using keepsD [OF acct_restart assms(2)] assms(1) by (simp add: acct_def)
  ultimately show ?thesis by simp
qed


subsection \<open>Properties\<close>

text \<open>
  (C1) In every state that a program can reach, whatever the user's code, libutp, the UDP
  sockets and the timer do: while its multiplexer lives, a context ticks exactly as long as
  it has operations outstanding, and then it listens. Exactly one wait of its timer is
  pending, its receive entry is registered with the multiplexer, and the UDP socket has
  exactly one receive pending.
\<close>

theorem busy_context_listens:
  assumes "reachable X w" and "alive (muxes w c)"
  shows "(running (ticking (ctxs w c)) \<longleftrightarrow> outstanding_op_count (ctxs w c) \<noteq> 0)
    \<and> (outstanding_op_count (ctxs w c) \<noteq> 0 \<longrightarrow> waits (ticking (ctxs w c)) = 1
        \<and> ctx_entry c \<in> set (recv_handlers (muxes w c))
        \<and> is_receiving (muxes w c) \<and> rx_ops (muxes w c) = 1)"
  using reachable_listening [OF assms] reachable_ticks_busy [OF assms(1), of c]
  by (auto simp: ticks_busy_def)

theorem busy_context_listens_witness:
  "\<exists>w. reachable quiet w \<and> outstanding_op_count (ctxs w 0) = 1 \<and> rx_ops (muxes w 0) = 1
    \<and> running (ticking (ctxs w 0)) \<and> waits (ticking (ctxs w 0)) = 1"
proof -
  obtain w where w: "reachable quiet w" "outstanding_op_count (ctxs w 0) = 1" "alive (muxes w 0)"
    by (rule accepting_run)
  with busy_context_listens [OF w(1,3)] show ?thesis by auto
qed

text \<open>
  (C2) An operation in progress is never forgotten by its context: as long as a socket stores
  the handler of a connect, accept, read or write and its multiplexer lives, the count of
  outstanding operations is not zero, the timer ticks and a receive is pending at the UDP
  socket. And completing that handler is what takes it off the count of the same context.
\<close>

theorem operation_in_progress_is_served:
  assumes "reachable X w" and "handler_of s k w = Some i" and "alive (muxes w (sock_context (socks w s)))"
  shows "outstanding_op_count (ctxs w (sock_context (socks w s))) \<noteq> 0
    \<and> waits (ticking (ctxs w (sock_context (socks w s)))) = 1
    \<and> rx_ops (muxes w (sock_context (socks w s))) = 1
    \<and> after i = Some (decrement_of (sock_context (socks w s)))"
proof -
  have wf: "ops_wf w" using reachable_counted [OF assms(1)] by (simp add: counted_def)
  have n: "outstanding_op_count (ctxs w (sock_context (socks w s))) \<noteq> 0"
    using stored_handler_pending [OF wf assms(2)] reachable_pending [OF assms(1)]
    by (metis le_zero_eq not_gr_zero)
  show ?thesis
    using n reachable_listening [OF assms(1,3) n] ops_wf_after [OF wf assms(2)] by simp
qed

theorem operation_in_progress_is_served_witness:
  "\<exists>w i. reachable quiet w \<and> handler_of 0 op_accept w = Some i \<and> rx_ops (muxes w 0) = 1"
proof -
  obtain w where w: "reachable quiet w" "alive (muxes w 0)" "sock_context (socks w 0) = 0"
    "handler_of 0 op_accept w = Some \<lparr>func = 7, after = Some (decrement_of 0)\<rparr>"
    by (rule accepting_run)
  with operation_in_progress_is_served [OF w(1,4)] show ?thesis by auto
qed

text \<open>
  (C3) The count of outstanding operations is at least the number of operations that will take
  themselves off it: the handlers stored in the sockets of the context, the closes in
  progress, and the posted completions whose decrement has not run.
\<close>

theorem outstanding_count_covers_pending:
  assumes "reachable X w"
  shows "pending c w \<le> outstanding_op_count (ctxs w c)"
  using assms by (rule reachable_pending)

theorem outstanding_count_covers_pending_witness:
  "\<exists>w. reachable quiet w \<and> pending 0 w \<le> 1 \<and> outstanding_op_count (ctxs w 0) = 1"
proof -
  obtain w where w: "reachable quiet w" "outstanding_op_count (ctxs w 0) = 1" by (rule accepting_run)
  with outstanding_count_covers_pending [OF w(1), of 0] show ?thesis by auto
qed

text \<open>
  (C4) The decrement that follows a completion never wraps around: when the executor runs a
  posted completion, then after the user's function, whatever it called, the count is still
  positive.
\<close>

theorem decrement_never_wraps:
  assumes "reachable X w" and "posted w = Work f ec args (Some (decrement_of c)) # ws"
    and "user (tie X n) f ec args (w\<lparr>posted := ws\<rparr>) = Inr w'"
  shows "0 < outstanding_op_count (ctxs w' c)
    \<and> size_t_decrement (outstanding_op_count (ctxs w' c)) = outstanding_op_count (ctxs w' c) - 1"
proof -
  let ?w = "w\<lparr>posted := ws\<rparr>"
  have wf: "ops_wf ?w" and g: "0 \<le> gap c w"
    using reachable_counted [OF assms(1)] by (simp_all add: counted_def ops_wf_def)
  have "gap c ?w = gap c w + 1" using assms(2) by (simp add: gap_def pending_def)
  moreover have "gap c ?w \<le> gap c w'"
    using keepsD [OF acct_tie.user_kept assms(3)] wf by (simp add: acct_def)
  ultimately have "0 < outstanding_op_count (ctxs w' c)" using g by (simp add: gap_def)
  then show ?thesis by (simp add: size_t_decrement_def)
qed

theorem decrement_never_wraps_witness:
  "\<exists>w. reachable quiet w \<and> posted w = [Work 7 operation_aborted [] (Some (decrement_of 0))]
    \<and> 0 < outstanding_op_count (ctxs (w\<lparr>posted := []\<rparr>) 0)"
proof -
  obtain w where w: "reachable quiet w" "posted w = [Work 7 operation_aborted [] (Some (decrement_of 0))]"
    by (rule aborting_run)
  have "user (tie quiet 1) 7 operation_aborted [] (w\<lparr>posted := []\<rparr>) = Inr (w\<lparr>posted := []\<rparr>)"
    by (simp add: quiet_def)
  from decrement_never_wraps [OF w this] w show ?thesis by auto
qed

text \<open>
  (C5) A UDP socket never has two receives of the multiplexer pending, it has one when anybody
  is registered, and between the steps of the program no entry is left in the local list of
  \<open>flush_handlers\<close>.
\<close>

theorem one_receive_per_multiplexer:
  assumes "reachable X w" and "alive (muxes w m)"
  shows "rx_ops (muxes w m) \<le> 1 \<and> (recv_handlers (muxes w m) \<noteq> [] \<longrightarrow> rx_ops (muxes w m) = 1)
    \<and> flushing (muxes w m) = []"
  using reachable_mux [OF assms(1), of m] assms(2)
  by (auto simp: mux_ok_def has_receive_def alive_def split: ownership.splits)

theorem one_receive_per_multiplexer_witness:
  "\<exists>w. reachable quiet w \<and> alive (muxes w 0) \<and> rx_ops (muxes w 0) \<le> 1 \<and> flushing (muxes w 0) = []"
proof -
  obtain w where w: "reachable quiet w" "alive (muxes w 0)" by (rule accepting_run)
  with one_receive_per_multiplexer [OF w] show ?thesis by auto
qed

text \<open>
  (C6) Use counts are exact: in every reachable state a multiplexer is alive exactly when a socket
  object or the state of a \<open>udp_multiplexer\<close> holds it (a state that no object refers to any more
  included), and its use count is the number of these holders, so every reference that a
  call takes for its own duration (a locked \<open>weak_ptr\<close>, a copied \<open>shared_ptr\<close>) has been
  given up.
\<close>

theorem multiplexer_lives_while_held:
  assumes "reachable X w"
  shows "(alive (muxes w m)
      \<longleftrightarrow> (\<exists>fr. multiplexer (fronts w fr) = Some m) \<or> (\<exists>t. ms_impl (mstates w t) = Some m))
    \<and> use_count (muxes w m)
      = card {fr. multiplexer (fronts w fr) = Some m} + card {t. ms_impl (mstates w t) = Some m}"
proof -
  have ok: "refs_ok w" and s: "slack m w = 0" using reachable_refs [OF assms] by simp_all
  have count: "use_count (muxes w m) = owners (front_refs w) m + owners (state_refs w) m"
    using s by (simp add: slack_def holders_def)
  with alive_count [OF refs_okD [OF ok], of m] have "alive (muxes w m) \<Longrightarrow>
      (\<exists>fr. multiplexer (fronts w fr) = Some m) \<or> (\<exists>t. ms_impl (mstates w t) = Some m)"
    using owners_held [of "front_refs w" m] owners_held [of "state_refs w" m] by auto
  with held_alive [OF ok] count show ?thesis by (auto simp: owners_def)
qed

theorem multiplexer_lives_while_held_witness:
  "\<exists>w. reachable quiet w \<and> alive (muxes w 0) \<and> 0 < use_count (muxes w 0)
    \<and> ((\<exists>fr. multiplexer (fronts w fr) = Some 0) \<or> (\<exists>t. ms_impl (mstates w t) = Some 0))"
proof -
  obtain w where w: "reachable quiet w" "alive (muxes w 0)" by (rule accepting_run)
  moreover have "0 < use_count (muxes w 0)"
    using w alive_count refs_okD reachable_refs [OF w(1)] by blast
  ultimately show ?thesis using multiplexer_lives_while_held [OF w(1), of 0] by auto
qed

text \<open>
  (C7) The service never hands out a dead multiplexer: what it lists under an endpoint lives
  and is bound to that endpoint, although the list holds weak pointers only. So
  \<open>maybe_create_udp_multiplexer\<close> returns a null pointer only together with an error.
\<close>

theorem service_lists_live_multiplexers:
  assumes "reachable X w"
  shows "(multiplexers w ep = Some m \<longrightarrow> alive (muxes w m) \<and> local_endpoint (muxes w m) = ep)
    \<and> (maybe_create_udp_multiplexer E k ep ec w = Inr ((mp, ec'), w') \<longrightarrow> ec' = no_error
        \<longrightarrow> (\<exists>i. mp = Some i \<and> alive (muxes w' i)))"
proof -
  have listed: "multiplexers w e = Some i \<Longrightarrow> alive (muxes w i) \<and> local_endpoint (muxes w i) = e" for e i
    using reachable_refs [OF assms] by (simp add: refs_ok_def refs_wf_def listed_ok_def)
  have "\<exists>i. mp = Some i \<and> alive (muxes w' i)"
    if "maybe_create_udp_multiplexer E k ep ec w = Inr ((mp, no_error), w')"
  proof (cases "multiplexers w ep")
    case None
    with that show ?thesis
      by (auto simp: maybe_create_udp_multiplexer_def new_multiplexer_def and_then_Inr_iff mux_create_def
          new_mux_def alive_def split: if_splits prod.splits)
  next
    case (Some i)
    with listed [OF Some] that have "mp = Some i" "w' = upd_mux i take_ref w"
      by (simp_all add: maybe_create_udp_multiplexer_def)
    with listed [OF Some] show ?thesis by (simp add: alive_take)
  qed
  with listed show ?thesis by auto
qed

theorem service_lists_live_multiplexers_witness:
  "\<exists>w. reachable quiet w \<and> multiplexers w local_ep = Some 0 \<and> alive (muxes w 0)
    \<and> local_endpoint (muxes w 0) = local_ep"
proof -
  obtain w where w: "reachable quiet w" "multiplexers w local_ep = Some 0" by (rule accepting_run)
  with service_lists_live_multiplexers [OF w(1), of local_ep 0] show ?thesis by auto
qed

text \<open>
  (C8) The service ends clean: in every reachable state in which no socket object and no state of a
  \<open>udp_multiplexer\<close> holds a multiplexer any more, the service lists none, and the assertion
  of its destructor holds.
\<close>

theorem service_destroyed_empty:
  assumes "reachable X w" and "\<forall>fr. multiplexer (fronts w fr) = None" and "\<forall>t. ms_impl (mstates w t) = None"
  shows "service_destroy debug w = Inr w"
proof -
  have ok: "refs_ok w" and s: "slack m w = 0" for m using reachable_refs [OF assms(1)] by simp_all
  have "\<not> alive (muxes w m)" for m
  proof -
    have "use_count (muxes w m) = 0"
      using s [of m] assms(2,3) by (simp add: slack_def holders_def owners_def)
    then show ?thesis using alive_count [OF refs_okD [OF ok], of m] by simp
  qed
  then have "multiplexers w ep = None" for ep
    using ok by (cases "multiplexers w ep") (auto simp: refs_ok_def refs_wf_def listed_ok_def)
  then have "multiplexers w = Map.empty" by (rule ext)
  then show ?thesis by (simp add: service_destroy_def guarded_def assert_that_def)
qed

text \<open>A socket was bound, accepted and was closed.\<close>

theorem service_destroyed_empty_witness:
  "\<exists>w. reachable quiet w \<and> posted w \<noteq> [] \<and> service_destroy True w = Inr w"
proof -
  obtain w where w: "reachable quiet w" "posted w = [Work 7 operation_aborted [] (Some (decrement_of 0))]"
    "\<forall>fr. multiplexer (fronts w fr) = None" "\<forall>t. ms_impl (mstates w t) = None"
    by (rule aborting_run)
  with service_destroyed_empty [OF w(1,3,4), of True] show ?thesis by auto
qed

text \<open>
  (C18) What has ended stays ended: in every continuation of a run a socket keeps its context,
  never opens again once closed and never forgets the end of the stream, and a multiplexer
  that was destroyed stays destroyed.
\<close>

theorem closed_stays_closed:
  assumes "(sys_step X)\<^sup>*\<^sup>* w w'" and "allocated (socks w s)"
  shows "sock_context (socks w' s) = sock_context (socks w s)
    \<and> (closed (socks w s) \<longrightarrow> closed (socks w' s)) \<and> (got_eof (socks w s) \<longrightarrow> got_eof (socks w' s))
    \<and> (life (muxes w m) = destroyed \<longrightarrow> life (muxes w' m) = destroyed)"
  using steps_older [OF assms(1)] assms(2) by (simp add: older_def sock_older_def)

theorem closed_stays_closed_witness:
  "\<exists>w'. sys_step quiet (with_impl (\<lambda>x. x\<lparr>closed := True\<rparr>)) w' \<and> calls w' \<noteq> [] \<and> closed (socks w' 0)"
proof -
  let ?w = "with_impl (\<lambda>x. x\<lparr>closed := True\<rparr>)"
  let ?p = "calls_of [Socket_bind 2 3 4 no_endpoint no_error, Async_accept 2 7]"
  obtain w' where "run_event (tie quiet 1) (Run_user ?p) ?w = Inr w'" and c: "calls w' \<noteq> []"
    by (simp add: run_simps sample_simps)
  then have s: "sys_step quiet ?w w'" by (intro sys_step.step [of "Run_user ?p" _ _ 1]) simp_all
  have "allocated (socks ?w 0) \<and> closed (socks ?w 0)" by (simp add: sample_simps)
  then have "closed (socks w' 0)" using closed_stays_closed [OF r_into_rtranclp [of "sys_step quiet", OF s], of 0 0] by blast
  with s c show ?thesis by auto
qed

text \<open>
  (C17) A write that libutp resumes is counted twice: each time \<open>on_writable\<close> resumes one, the
  count of the context exceeds what its pending operations account for by one more, since
  \<open>setup_op\<close> increments the count again but replaces the decrement of the first time. Nothing
  ever makes up for it: from such a state on, in every state of the rest of the run, the count
  is not zero, so the context never stops listening. (\<open>counted\<close> holds in every reachable state
  and throughout every library call.)
\<close>

theorem resumed_write_leaks_count:
  assumes "counted w" and "handler_of s op_send w \<noteq> None" and "utp_socket (socks w s) = Some us"
    and "on_writable (tie X n) s w = Inr w'" and "(sys_step X)\<^sup>*\<^sup>* w' w''"
  shows "gap (sock_context (socks w s)) w + 1 \<le> gap (sock_context (socks w s)) w''
    \<and> outstanding_op_count (ctxs w'' (sock_context (socks w s))) \<noteq> 0"
proof -
  let ?c = "sock_context (socks w s)"
  have wf: "ops_wf w" and g: "0 \<le> gap ?c w"
    using assms(1) by (simp_all add: counted_def)
  obtain w1 where w1: "restart_send s w = Inr w1" "write_tail (tie X n) s w1 = Inr w'"
    using assms(4) on_writable_resumes [OF assms(2,3), of "tie X n"] by auto
  have "ops_wf w' \<and> gap ?c w + 1 \<le> gap ?c w'"
    using restart_send_gap [OF wf w1(1)] keepsD [OF acct_tie.write_tail_kept w1(2)]
    unfolding acct_def by metis
  with gap_of_steps [OF assms(5), of ?c] have "gap ?c w + 1 \<le> gap ?c w''" by linarith
  with g show ?thesis by (simp add: gap_def)
qed

text \<open>Socket 0 has a write in progress that libutp did not take, the only operation.\<close>

definition resuming_state :: "nat utp_world" where
  "resuming_state = (start_world 0)\<lparr>
     socks := (\<lambda>_. blank_impl)(0 := sample_impl\<lparr>handlers := (\<lambda>_. None)(op_send := pending_handler)\<rparr>),
     ctxs := (\<lambda>_. (new_context local_ep)\<lparr>outstanding_op_count := 1\<rparr>)\<rparr>"

lemma resuming_state_counted: "counted resuming_state"
proof -
  let ?f = "socks resuming_state"
  have idle: "sock_pending (?f s) = 0" "handlers (?f s) k = None" if "s \<noteq> 0" for s k
    using that by (simp_all add: resuming_state_def sample_simps sock_pending_def)
  have zero: "sock_pending (?f 0) = 1" "sock_context (?f 0) = 0"
    "handlers (?f 0) = (\<lambda>_. None)(op_send := Some \<lparr>func = 7, after = Some (decrement_of 0)\<rparr>)"
    by (simp_all add: resuming_state_def sample_simps sock_pending_def)
  have busy: "{s. sock_pending (?f s) \<noteq> 0} \<subseteq> {0}" using idle(1) by (metis (mono_tags, lifting) mem_Collect_eq singletonI subsetI)
  have "stored c ?f \<le> 1" for c
  proof -
    have "{s. sock_context (?f s) = c \<and> sock_pending (?f s) \<noteq> 0} \<subseteq> {0}" using busy by blast
    then have "stored c ?f \<le> (\<Sum>s \<in> {0}. sock_pending (?f s))"
      unfolding stored_def by (intro sum_mono2) simp_all
    then show ?thesis by (simp add: zero)
  qed
  moreover have "handlers (?f s) k = Some i \<Longrightarrow> after i = Some (decrement_of (sock_context (?f s)))" for s k i
    using idle(2) [of s k] zero by (cases "s = 0") (auto split: if_splits)
  moreover have "finite {s. sock_pending (?f s) \<noteq> 0}" using busy by (rule finite_subset) simp
  ultimately show ?thesis
    by (auto simp: counted_def ops_wf_def socks_wf_def states_wf_def gap_def pending_def)
       (simp_all add: resuming_state_def start_world_def new_context_def new_state_def)
qed

theorem resumed_write_leaks_count_witness:
  "\<exists>w'. on_writable (tie quiet 1) 0 resuming_state = Inr w'
    \<and> outstanding_op_count (ctxs w' 0) \<noteq> 0 \<and> gap 0 resuming_state + 1 \<le> gap 0 w'"
proof -
  have h: "handler_of 0 op_send resuming_state \<noteq> None" "utp_socket (socks resuming_state 0) = Some 5"
    "sock_context (socks resuming_state 0) = 0"
    by (simp_all add: resuming_state_def sample_simps)
  obtain w' where w': "on_writable (tie quiet 1) 0 resuming_state = Inr w'"
    by (simp add: on_writable_def sock_do_write_def assert_that_def setup_op_def set_handler_def post_op_def
        increment_outstanding_ops_def exec_after_def upd_ctx_def Let_def resuming_state_def sample_simps)
  from resumed_write_leaks_count [OF resuming_state_counted h(1,2) w' rtranclp.rtrancl_refl] w' h(3)
  show ?thesis by auto
qed

end
